(* ===== verification/Rust_Prelude.thy ===== *)
theory Rust_Prelude
  imports Main "HOL-Library.Word"
begin

text \<open>
  Shared ground of the development: the Rust machine integers and the few operations of
  the Rust standard library the recorder uses (checked and saturating arithmetic,
  little-endian conversion, ranges, checked slicing, \<open>Iterator::find_map\<close> and
  \<open>position\<close>), each as an executable definition with the lemmas the component
  theories rest on.

  Overflow of plain \<open>+\<close> depends on the build profile: with overflow checks (the
  default of a dev build) it panics, without (the default of a release build) it wraps.
  Where an addition of the source can overflow the model takes the profile as the
  argument \<open>chk\<close>; a panic is the value \<open>None\<close>.
\<close>

section \<open>Machine integers\<close>

type_synonym u8 = "8 word"
type_synonym u16 = "16 word"
type_synonym u32 = "32 word"
type_synonym u64 = "64 word"
type_synonym u128 = "128 word"
type_synonym bytes = "u8 list"

text \<open>Fact collections: \<open>le_simps\<close> for the byte conversions, \<open>slice_simps\<close> for the
  checked slices, \<open>result_simps\<close> for the error plumbing of the components.\<close>

named_theorems le_simps
named_theorems slice_simps
named_theorems result_simps

lemma unat_lt: "unat w < 2 ^ LENGTH('a)" for w :: "'a::len word"
  by (rule unsigned_less)

lemma unat_u8_lt [simp]: "unat (b :: u8) < 256"
  using unat_lt [of b] by simp

definition add_profile :: "bool \<Rightarrow> 'a::len word \<Rightarrow> 'a word \<Rightarrow> 'a word option" where
  "add_profile chk a b =
     (if chk \<and> unat a + unat b \<ge> 2 ^ LENGTH('a) then None else Some (a + b))"

definition checked_add :: "'a::len word \<Rightarrow> 'a word \<Rightarrow> 'a word option" where
  "checked_add a b = (if unat a + unat b < 2 ^ LENGTH('a) then Some (a + b) else None)"

definition checked_sub :: "'a::len word \<Rightarrow> 'a word \<Rightarrow> 'a word option" where
  "checked_sub a b = (if b \<le> a then Some (a - b) else None)"

definition checked_mul :: "'a::len word \<Rightarrow> 'a word \<Rightarrow> 'a word option" where
  "checked_mul a b = (if unat a * unat b < 2 ^ LENGTH('a) then Some (a * b) else None)"

definition saturating_sub :: "'a::len word \<Rightarrow> 'a word \<Rightarrow> 'a word" where
  "saturating_sub a b = (if b \<le> a then a - b else 0)"

definition saturating_add :: "'a::len word \<Rightarrow> 'a word \<Rightarrow> 'a word" where
  "saturating_add a b = (if unat a + unat b < 2 ^ LENGTH('a) then a + b else - 1)"

text \<open>A \<open>usize\<close> that measures a list is a natural number; its checked addition stops at
  64 bits.\<close>

definition usize_add :: "nat \<Rightarrow> nat \<Rightarrow> nat option" where
  "usize_add a b = (if a + b < 2 ^ 64 then Some (a + b) else None)"

lemma checked_add_unat: "checked_add a b = Some c \<Longrightarrow> unat c = unat a + unat b"
  by (auto simp: checked_add_def unat_word_ariths split: if_splits)

lemma checked_mul_unat: "checked_mul a b = Some c \<Longrightarrow> unat c = unat a * unat b"
  by (auto simp: checked_mul_def unat_word_ariths split: if_splits)

lemma checked_sub_unat: "checked_sub a b = Some c \<Longrightarrow> b \<le> a \<and> unat c = unat a - unat b"
  by (auto simp: checked_sub_def unat_sub split: if_splits)

lemma unat_saturating_sub: "unat (saturating_sub a b) = unat a - unat b"
  by (auto simp: saturating_sub_def unat_sub word_le_nat_alt)

lemma saturating_sub_le: "saturating_sub a b \<le> a"
  by (simp add: word_le_nat_alt unat_saturating_sub)

section \<open>Little-endian bytes\<close>

fun le_nat :: "bytes \<Rightarrow> nat" where
  "le_nat [] = 0"
| "le_nat (b # bs) = unat b + 256 * le_nat bs"

fun nat_le :: "nat \<Rightarrow> nat \<Rightarrow> bytes" where
  "nat_le 0 x = []"
| "nat_le (Suc n) x = of_nat (x mod 256) # nat_le n (x div 256)"

text \<open>\<open>from_le_bytes\<close> of any width, and the first \<open>n\<close> bytes of \<open>to_le_bytes\<close>.\<close>

definition from_le :: "bytes \<Rightarrow> 'a::len word" where
  "from_le bs = of_nat (le_nat bs)"

definition to_le :: "nat \<Rightarrow> 'a::len word \<Rightarrow> bytes" where
  "to_le n w = nat_le n (unat w)"

lemma length_nat_le [simp]: "length (nat_le n x) = n"
  by (induction n arbitrary: x) auto

lemma length_to_le [simp]: "length (to_le n w) = n"
  by (simp add: to_le_def)

lemma le_nat_bound: "le_nat bs < 256 ^ length bs"
proof (induction bs)
  case (Cons b bs)
  have "unat b + 256 * le_nat bs < 256 * (le_nat bs + 1)" by simp
  also have "\<dots> \<le> 256 * 256 ^ length bs" using Cons by (intro mult_le_mono2) simp
  finally show ?case by simp
qed simp

lemma le_nat_nat_le [le_simps]: "le_nat (nat_le n x) = x mod 256 ^ n"
proof (induction n arbitrary: x)
  case (Suc n)
  have "x mod (256 * 256 ^ n) = 256 * (x div 256 mod 256 ^ n) + x mod 256"
    by (simp add: mod_mult2_eq)
  then show ?case by (simp add: Suc unat_of_nat)
qed simp

lemma nat_le_le_nat [le_simps]: "nat_le (length bs) (le_nat bs) = bs"
proof (induction bs)
  case (Cons b bs)
  show ?case using Cons by simp
qed simp

lemma from_le_to_le: "LENGTH('a) \<le> 8 * n \<Longrightarrow> from_le (to_le n w) = (w :: 'a::len word)"
proof -
  assume "LENGTH('a) \<le> 8 * n"
  then have "(2::nat) ^ LENGTH('a) \<le> 2 ^ (8 * n)" by (intro power_increasing) auto
  then have "unat w < 2 ^ (8 * n)" by (rule less_le_trans [OF unat_lt [of w]])
  then have "unat w < 256 ^ n" by (simp add: power_mult)
  then show ?thesis by (simp add: from_le_def to_le_def le_simps)
qed

lemma from_le_to_le_u64 [simp]: "from_le (to_le 8 (w :: u64)) = w"
  by (rule from_le_to_le) simp

lemma to_le_from_le:
  assumes "8 * length bs \<le> LENGTH('a)"
  shows "to_le (length bs) (from_le bs :: 'a::len word) = bs"
proof -
  have "(256::nat) ^ length bs = 2 ^ (8 * length bs)" by (simp add: power_mult)
  also have "\<dots> \<le> 2 ^ LENGTH('a)" using assms by (intro power_increasing) auto
  finally have "le_nat bs < 2 ^ LENGTH('a)" using le_nat_bound [of bs] by linarith
  then have "unat (from_le bs :: 'a word) = le_nat bs"
    by (simp add: from_le_def unat_of_nat)
  then show ?thesis by (simp add: to_le_def le_simps)
qed

lemma take_nat_le: "k \<le> n \<Longrightarrow> take k (nat_le n x) = nat_le k x"
proof (induction k arbitrary: n x)
  case (Suc k)
  then obtain m where "n = Suc m" by (cases n) auto
  with Suc show ?case by simp
qed simp

lemma take_to_le: "k \<le> n \<Longrightarrow> take k (to_le n w) = to_le k w"
  by (simp add: to_le_def take_nat_le)

section \<open>Ranges, slices, searches\<close>

datatype range = Range (range_start: u64) (range_end: u64)

definition range_contains :: "range \<Rightarrow> u64 \<Rightarrow> bool" where
  "range_contains r x \<longleftrightarrow> range_start r \<le> x \<and> x < range_end r"

text \<open>\<open>xs.get(a..b)\<close>: the slice, or nothing when it is out of range or reversed.\<close>

definition get_slice :: "'a list \<Rightarrow> nat \<Rightarrow> nat \<Rightarrow> 'a list option" where
  "get_slice xs a b = (if a \<le> b \<and> b \<le> length xs then Some (take (b - a) (drop a xs)) else None)"

lemma get_slice_length [slice_simps]:
  "get_slice xs a b = Some ys \<Longrightarrow> length ys = b - a"
  by (auto simp: get_slice_def split: if_splits)

lemma get_slice_nth:
  "get_slice xs a b = Some ys \<Longrightarrow> i < length ys \<Longrightarrow> ys ! i = xs ! (a + i)"
  by (auto simp: get_slice_def split: if_splits)

text \<open>\<open>xs[a..b].copy_from_slice(ys)\<close> with \<open>b = a + ys.len()\<close>.\<close>

definition splice :: "'a list \<Rightarrow> nat \<Rightarrow> 'a list \<Rightarrow> 'a list" where
  "splice xs a ys = take a xs @ ys @ drop (a + length ys) xs"

lemma length_splice [simp]: "a + length ys \<le> length xs \<Longrightarrow> length (splice xs a ys) = length xs"
  by (simp add: splice_def)

lemma nth_splice:
  "a + length ys \<le> length xs \<Longrightarrow> i < length xs \<Longrightarrow>
   splice xs a ys ! i = (if a \<le> i \<and> i < a + length ys then ys ! (i - a) else xs ! i)"
  by (auto simp: splice_def nth_append)

lemma get_slice_splice_same:
  "a + length ys \<le> length xs \<Longrightarrow> get_slice (splice xs a ys) a (a + length ys) = Some ys"
  by (simp add: get_slice_def splice_def)

lemma get_slice_splice_other:
  assumes "a + length ys \<le> length xs" "d \<le> a \<or> a + length ys \<le> c"
  shows "get_slice (splice xs a ys) c d = get_slice xs c d"
proof (cases "c \<le> d \<and> d \<le> length xs")
  case True
  have "take (d - c) (drop c (splice xs a ys)) = take (d - c) (drop c xs)"
    by (rule nth_equalityI) (use True assms in \<open>auto simp: nth_splice\<close>)
  with assms True show ?thesis by (simp add: get_slice_def)
next
  case False
  with assms show ?thesis by (auto simp: get_slice_def)
qed

fun find_map :: "('a \<Rightarrow> 'b option) \<Rightarrow> 'a list \<Rightarrow> 'b option" where
  "find_map f [] = None"
| "find_map f (x # xs) = (case f x of Some y \<Rightarrow> Some y | None \<Rightarrow> find_map f xs)"

fun position :: "('a \<Rightarrow> bool) \<Rightarrow> 'a list \<Rightarrow> nat option" where
  "position P [] = None"
| "position P (x # xs) = (if P x then Some 0 else map_option Suc (position P xs))"

lemma position_Some:
  "position P xs = Some i \<Longrightarrow> i < length xs \<and> P (xs ! i) \<and> (\<forall>j<i. \<not> P (xs ! j))"
proof (induction xs arbitrary: i)
  case (Cons x xs)
  then show ?case by (auto simp: less_Suc_eq_0_disj nth_Cons split: if_splits nat.splits)
qed simp

lemma position_None: "position P xs = None \<longleftrightarrow> (\<forall>x\<in>set xs. \<not> P x)"
  by (induction xs) auto

lemma find_None_all: "List.find P xs = None \<longleftrightarrow> (\<forall>x\<in>set xs. \<not> P x)"
  by (auto simp: find_None_iff)

lemma find_Some_prop: "List.find P xs = Some x \<Longrightarrow> P x \<and> x \<in> set xs"
  by (induction xs) (auto split: if_splits)

lemma find_append:
  "List.find P (xs @ ys) = (case List.find P xs of Some x \<Rightarrow> Some x | None \<Rightarrow> List.find P ys)"
  by (induction xs) auto

definition nth_opt :: "'a list \<Rightarrow> nat \<Rightarrow> 'a option" where
  "nth_opt xs i = (if i < length xs then Some (xs ! i) else None)"

lemma nth_opt_Some [slice_simps]: "nth_opt xs i = Some x \<longleftrightarrow> i < length xs \<and> xs ! i = x"
  by (auto simp: nth_opt_def)

lemma nth_opt_None [slice_simps]: "nth_opt xs i = None \<longleftrightarrow> length xs \<le> i"
  by (auto simp: nth_opt_def)

section \<open>First-match tables\<close>

text \<open>
  Several components keep a table in registration order and answer a query with the first
  entry that covers it. The contract: registering an entry changes an answer only where
  there was none.
\<close>

locale first_match_table =
  fixes lookup :: "'t \<Rightarrow> 'k \<Rightarrow> 'e option"
    and register :: "'e \<Rightarrow> 't \<Rightarrow> 't"
    and covers :: "'e \<Rightarrow> 'k \<Rightarrow> bool"
  assumes lookup_register:
    "lookup (register e t) k =
       (case lookup t k of Some x \<Rightarrow> Some x | None \<Rightarrow> if covers e k then Some e else None)"
begin

lemma lookup_stable: "lookup t k = Some x \<Longrightarrow> lookup (register e t) k = Some x"
  by (simp add: lookup_register)

lemma lookup_fold:
  "lookup (fold register es t) k =
     (case lookup t k of Some x \<Rightarrow> Some x | None \<Rightarrow> List.find (\<lambda>e. covers e k) es)"
proof (induction es arbitrary: t)
  case (Cons e es)
  then show ?case by (auto simp: lookup_register split: option.splits)
qed (simp split: option.splits)

end

section \<open>Tables that register on demand\<close>

text \<open>
  Several components ask the writer or a list for an identifier once and remember the answer.
  The contract: a key that is held is answered without a change, a key that is asked for is
  held from then on, and nothing that is held is lost.
\<close>

locale memo_table =
  fixes held :: "'s \<Rightarrow> 'k \<Rightarrow> 'v option"
    and ask :: "'k \<Rightarrow> 's \<Rightarrow> 'v \<times> 's"
  assumes hit: "held s k = Some v \<Longrightarrow> ask k s = (v, s)"
    and asked: "held s k = None \<Longrightarrow> ask k s = (v, s') \<Longrightarrow> held s' k = Some v"
    and grows: "ask k s = (v, s') \<Longrightarrow> held s \<subseteq>\<^sub>m held s'"
begin

abbreviation "ask_all ks s \<equiv> fold (\<lambda>k s. snd (ask k s)) ks s"

lemma answer_held: "ask k s = (v, s') \<Longrightarrow> held s' k = Some v"
  using hit asked by (cases "held s k") auto

lemma all_grow: "held s \<subseteq>\<^sub>m held (ask_all ks s)"
proof (induction ks arbitrary: s)
  case (Cons k ks)
  obtain v s' where s': "ask k s = (v, s')" by (cases "ask k s")
  have "held s \<subseteq>\<^sub>m held s'" by (rule grows [OF s'])
  also have "held s' \<subseteq>\<^sub>m held (ask_all ks s')" by (rule Cons)
  finally (map_le_trans) show ?case by (simp add: s')
qed simp

lemma held_later: "held s k = Some v \<Longrightarrow> held (ask_all ks s) k = Some v"
  using all_grow [of s ks] by (metis domI map_le_def)

lemma answer_stable: "ask k s = (v, s') \<Longrightarrow> ask k (ask_all ks s') = (v, ask_all ks s')"
  by (rule hit) (rule held_later [OF answer_held])

lemma all_held: "k \<in> set ks \<Longrightarrow> held (ask_all ks s) k \<noteq> None"
proof (induction ks arbitrary: s)
  case (Cons j ks)
  obtain v s' where s': "ask j s = (v, s')" by (cases "ask j s")
  show ?case
  proof (cases "k = j")
    case True
    with held_later [OF answer_held [OF s']] s' show ?thesis by simp
  qed (use Cons in simp)
qed simp

end

section \<open>Results and panics\<close>

text \<open>
  A function returning \<open>eyre::Result\<close> returns \<open>Ok\<close> or \<open>Err\<close>; \<open>Panic\<close> stands for an
  unwound call (an index out of range, an \<open>expect\<close> that fails, a checked overflow).
\<close>

datatype ('e, 'a) outcome = Ok 'a | Err 'e | Panic

fun bind_outcome :: "('e, 'a) outcome \<Rightarrow> ('a \<Rightarrow> ('e, 'b) outcome) \<Rightarrow> ('e, 'b) outcome" where
  "bind_outcome (Ok x) f = f x"
| "bind_outcome (Err e) f = Err e"
| "bind_outcome Panic f = Panic"

lemma bind_outcome_Ok [result_simps]:
  "bind_outcome m f = Ok y \<longleftrightarrow> (\<exists>x. m = Ok x \<and> f x = Ok y)"
  by (cases m) auto

lemma bind_outcome_Err [result_simps]:
  "bind_outcome m f = Err e \<longleftrightarrow> m = Err e \<or> (\<exists>x. m = Ok x \<and> f x = Err e)"
  by (cases m) auto

lemma bind_outcome_Panic [result_simps]:
  "bind_outcome m f = Panic \<longleftrightarrow> m = Panic \<or> (\<exists>x. m = Ok x \<and> f x = Panic)"
  by (cases m) auto

lemma bind_outcome_not_Panic [intro]:
  "m \<noteq> Panic \<Longrightarrow> (\<And>x. m = Ok x \<Longrightarrow> f x \<noteq> Panic) \<Longrightarrow> bind_outcome m f \<noteq> Panic"
  by (cases m) auto

fun of_option :: "'a option \<Rightarrow> ('e, 'a) outcome" where
  "of_option None = Panic"
| "of_option (Some x) = Ok x"

definition ensure_ok :: "bool \<Rightarrow> 'e \<Rightarrow> ('e, unit) outcome" where
  "ensure_ok c e = (if c then Ok () else Err e)"

lemma ensure_ok_iff [result_simps]:
  "ensure_ok c e = Ok u \<longleftrightarrow> c"
  "ensure_ok c e = Err e' \<longleftrightarrow> \<not> c \<and> e' = e"
  "ensure_ok c e \<noteq> Panic"
  by (auto simp: ensure_ok_def)

lemma ensure_ok_cond [simp]: "c \<Longrightarrow> ensure_ok c e = Ok ()" "\<not> c \<Longrightarrow> ensure_ok c e = Err e"
  by (auto simp: ensure_ok_def)

lemma of_option_iff [result_simps]:
  "of_option m = Ok x \<longleftrightarrow> m = Some x" "of_option m = Panic \<longleftrightarrow> m = None" "of_option m \<noteq> Err e"
  by (cases m; simp)+

lemma those_map_Some [simp]: "those (map (\<lambda>x. Some (f x)) xs) = Some (map f xs)"
  by (induction xs) auto

lemma those_cong_Some: "(\<And>x. x \<in> set xs \<Longrightarrow> f x = Some (g x)) \<Longrightarrow> those (map f xs) = Some (map g xs)"
  by (induction xs) auto

section \<open>Formatting of numbers\<close>

text \<open>\<open>{}\<close> on unsigned and signed integers, \<open>{:x}\<close>, \<open>{:#x}\<close> and \<open>{:02x}\<close>.\<close>

definition digit_char :: "nat \<Rightarrow> char" where
  "digit_char d = (if d < 10 then char_of (48 + d) else char_of (87 + d))"

fun radix_digits :: "nat \<Rightarrow> nat \<Rightarrow> string" where
  "radix_digits b n =
     (if b < 2 \<or> n < b then [digit_char n] else radix_digits b (n div b) @ [digit_char (n mod b)])"

declare radix_digits.simps [simp del]

definition dec_nat :: "nat \<Rightarrow> string" where
  "dec_nat n = radix_digits 10 n"

definition dec_int :: "int \<Rightarrow> string" where
  "dec_int i = (if i < 0 then CHR ''-'' # dec_nat (nat (- i)) else dec_nat (nat i))"

definition dec_word :: "'a::len word \<Rightarrow> string" where
  "dec_word w = dec_nat (unat w)"

definition hex_word :: "'a::len word \<Rightarrow> string" where
  "hex_word w = radix_digits 16 (unat w)"

definition hex_prefixed :: "'a::len word \<Rightarrow> string" where
  "hex_prefixed w = ''0x'' @ hex_word w"

definition hex_byte :: "u8 \<Rightarrow> string" where
  "hex_byte b = [digit_char (unat b div 16), digit_char (unat b mod 16)]"

text \<open>Reading decimal digits back, to state that printing loses nothing.\<close>

definition digit_value :: "char \<Rightarrow> nat" where
  "digit_value c = (let k = of_char c in if k < 58 then k - 48 else k - 87)"

definition undigits :: "nat \<Rightarrow> string \<Rightarrow> nat" where
  "undigits b s = foldl (\<lambda>acc c. acc * b + digit_value c) 0 s"

lemma digit_value_char: "d < 16 \<Longrightarrow> digit_value (digit_char d) = d"
  by (simp add: digit_value_def digit_char_def)

lemma undigits_radix: "2 \<le> b \<Longrightarrow> b \<le> 16 \<Longrightarrow> undigits b (radix_digits b n) = n"
proof (induction b n rule: radix_digits.induct)
  case (1 b n)
  show ?case
  proof (cases "n < b")
    case True
    with 1 show ?thesis by (simp add: radix_digits.simps [of b n] undigits_def digit_value_char)
  next
    case False
    with 1 have "undigits b (radix_digits b (n div b)) = n div b" by simp
    moreover have "n mod b < 16" using 1 by (meson less_le_trans mod_less_divisor le_trans zero_less_numeral)
    ultimately show ?thesis using False 1
      by (simp add: radix_digits.simps [of b n] undigits_def digit_value_char)
  qed
qed

lemma undigits_dec: "undigits 10 (dec_nat n) = n"
  by (simp add: dec_nat_def undigits_radix)

lemma dec_nat_inj: "dec_nat m = dec_nat n \<longleftrightarrow> m = n"
  by (metis undigits_dec)

lemma dec_word_inj: "dec_word v = dec_word w \<longleftrightarrow> v = w"
  by (simp add: dec_word_def dec_nat_inj word_unat_eq_iff)

section \<open>Rust strings\<close>

text \<open>
  A \<open>str\<close> is its UTF-8 bytes, and a HOL \<open>string\<close> is a list of 8-bit characters, so the one
  stands for the other. \<open>std::str::from_utf8\<close> accepts the well-formed sequences of the
  Unicode standard: no overlong forms, no surrogates, nothing beyond U+10FFFF.
\<close>

definition str_of_bytes :: "bytes \<Rightarrow> string" where
  "str_of_bytes bs = map (\<lambda>b. char_of (unat b)) bs"

definition bytes_of_str :: "string \<Rightarrow> bytes" where
  "bytes_of_str s = map (\<lambda>c. of_nat (of_char c)) s"

definition cont :: "u8 \<Rightarrow> bool" where
  "cont b \<longleftrightarrow> 0x80 \<le> b \<and> b \<le> 0xBF"

text \<open>The bounds of the second byte, by the first.\<close>

definition second_ok :: "u8 \<Rightarrow> u8 \<Rightarrow> bool" where
  "second_ok a b \<longleftrightarrow>
     (if a = 0xE0 then 0xA0 \<le> b \<and> b \<le> 0xBF
      else if a = 0xED then 0x80 \<le> b \<and> b \<le> 0x9F
      else if a = 0xF0 then 0x90 \<le> b \<and> b \<le> 0xBF
      else if a = 0xF4 then 0x80 \<le> b \<and> b \<le> 0x8F
      else cont b)"

fun utf8_valid :: "bytes \<Rightarrow> bool" where
  "utf8_valid [] \<longleftrightarrow> True"
| "utf8_valid [a] \<longleftrightarrow> a < 0x80"
| "utf8_valid [a, b] \<longleftrightarrow>
     (if a < 0x80 then utf8_valid [b] else 0xC2 \<le> a \<and> a \<le> 0xDF \<and> cont b)"
| "utf8_valid [a, b, c] \<longleftrightarrow>
     (if a < 0x80 then utf8_valid [b, c]
      else if a \<le> 0xDF then 0xC2 \<le> a \<and> cont b \<and> utf8_valid [c]
      else a \<le> 0xEF \<and> second_ok a b \<and> cont c)"
| "utf8_valid (a # b # c # d # bs) \<longleftrightarrow>
     (if a < 0x80 then utf8_valid (b # c # d # bs)
      else if a \<le> 0xDF then 0xC2 \<le> a \<and> cont b \<and> utf8_valid (c # d # bs)
      else if a \<le> 0xEF then second_ok a b \<and> cont c \<and> utf8_valid (d # bs)
      else a \<le> 0xF4 \<and> second_ok a b \<and> cont c \<and> cont d \<and> utf8_valid bs)"

lemma ascii_utf8: "list_all (\<lambda>b. b < 0x80) bs \<Longrightarrow> utf8_valid bs"
  by (induction bs rule: utf8_valid.induct) auto

lemma bytes_of_str_of_bytes [simp]: "bytes_of_str (str_of_bytes bs) = bs"
  by (simp add: bytes_of_str_def str_of_bytes_def comp_def)

lemma str_of_bytes_of_str [simp]: "str_of_bytes (bytes_of_str s) = s"
  by (simp add: bytes_of_str_def str_of_bytes_def comp_def unat_of_nat)

lemma length_str_of_bytes [simp]: "length (str_of_bytes bs) = length bs"
  by (simp add: str_of_bytes_def)

lemma length_bytes_of_str [simp]: "length (bytes_of_str s) = length s"
  by (simp add: bytes_of_str_def)

lemma str_of_bytes_inj: "str_of_bytes bs = str_of_bytes cs \<longleftrightarrow> bs = cs"
  by (metis bytes_of_str_of_bytes)

end
