(* ===== verification/Register_Trace.thy ===== *)
theory Register_Trace
  imports Rust_Prelude
begin

text \<open>
  \<open>src/register_trace.rs\<close> (the snapshot type, its accessors and the \<open>.regs\<close> parser) and
  the writing side of the same format in \<open>src/executor.rs\<close>, which turns the register
  trace of the VM into the bytes the parser reads. A row is twelve \<open>u64\<close> in
  little-endian order, 96 bytes.
\<close>

section \<open>Snapshots\<close>

definition NUM_REGISTERS :: nat where "NUM_REGISTERS = 12"

definition ROW_SIZE :: nat where "ROW_SIZE = NUM_REGISTERS * 8"

text \<open>The array \<open>[u64; 12]\<close> is a list; its length is the well-formedness condition.\<close>

record RegisterSnapshot =
  registers :: "u64 list"

definition wf_snapshot :: "RegisterSnapshot \<Rightarrow> bool" where
  "wf_snapshot s \<longleftrightarrow> length (registers s) = NUM_REGISTERS"

definition pc :: "RegisterSnapshot \<Rightarrow> u64" where
  "pc s = registers s ! 11"

definition r0 :: "RegisterSnapshot \<Rightarrow> u64" where
  "r0 s = registers s ! 0"

definition frame_pointer :: "RegisterSnapshot \<Rightarrow> u64" where
  "frame_pointer s = registers s ! 10"

text \<open>\<open>reg\<close> takes any index and panics past the end.\<close>

definition reg :: "RegisterSnapshot \<Rightarrow> nat \<Rightarrow> u64 option" where
  "reg s i = nth_opt (registers s) i"

lemma reg_some: "wf_snapshot s \<Longrightarrow> reg s i \<noteq> None \<longleftrightarrow> i < 12"
  by (auto simp: reg_def wf_snapshot_def NUM_REGISTERS_def slice_simps)

lemma reg_accessors:
  "wf_snapshot s \<Longrightarrow> reg s 11 = Some (pc s)"
  "wf_snapshot s \<Longrightarrow> reg s 0 = Some (r0 s)"
  "wf_snapshot s \<Longrightarrow> reg s 10 = Some (frame_pointer s)"
  by (auto simp: reg_def wf_snapshot_def NUM_REGISTERS_def pc_def r0_def frame_pointer_def nth_opt_def)

section \<open>Parsing\<close>

datatype regs_error = LengthNotMultiple nat

text \<open>\<open>u64::from_le_bytes(data[offset..offset + 8])\<close>: the slice panics out of range.\<close>

definition read_u64_at :: "bytes \<Rightarrow> nat \<Rightarrow> u64 option" where
  "read_u64_at data offset = map_option from_le (get_slice data offset (offset + 8))"

definition parse_row :: "bytes \<Rightarrow> nat \<Rightarrow> RegisterSnapshot option" where
  "parse_row data i =
     (let base = i * ROW_SIZE
      in map_option (\<lambda>rs. \<lparr>registers = rs\<rparr>)
           (those (map (\<lambda>r. read_u64_at data (base + r * 8)) [0..<NUM_REGISTERS])))"

definition parse_regs_file :: "bytes \<Rightarrow> (regs_error, RegisterSnapshot list) outcome" where
  "parse_regs_file data =
     bind_outcome (ensure_ok (length data mod ROW_SIZE = 0) (LengthNotMultiple (length data)))
       (\<lambda>_. let count = length data div ROW_SIZE
            in of_option (those (map (parse_row data) [0..<count])))"

section \<open>Writing\<close>

text \<open>The conversion loop of \<open>execute_with_memory_trace\<close>: every register of every entry.\<close>

definition regs_row :: "u64 list \<Rightarrow> bytes" where
  "regs_row entry = concat (map (to_le 8) entry)"

definition regs_data :: "u64 list list \<Rightarrow> bytes" where
  "regs_data trace = concat (map regs_row trace)"

section \<open>The parser never panics and inverts the writer\<close>

lemma ROW_SIZE_eq: "ROW_SIZE = 96"
  by (simp add: ROW_SIZE_def NUM_REGISTERS_def)

lemma length_concat_le: "length (concat (map (to_le 8) entry)) = 8 * length entry"
  by (induction entry) auto

lemma length_regs_row: "length entry = 12 \<Longrightarrow> length (regs_row entry) = 96"
  by (simp add: regs_row_def length_concat_le)

lemma length_regs_data:
  "\<forall>e\<in>set trace. length e = 12 \<Longrightarrow> length (regs_data trace) = 96 * length trace"
  by (induction trace) (auto simp: regs_data_def length_regs_row)

lemma drop_concat_le:
  "r \<le> length entry \<Longrightarrow>
   drop (r * 8) (concat (map (to_le 8) entry)) = concat (map (to_le 8) (drop r entry))"
  for entry :: "u64 list"
proof (induction r arbitrary: entry)
  case (Suc r)
  then obtain x xs where e: "entry = x # xs" by (cases entry) auto
  with Suc show ?case by (simp add: algebra_simps)
qed simp

lemma drop_regs_data:
  "i \<le> length trace \<Longrightarrow> \<forall>e\<in>set trace. length e = 12 \<Longrightarrow>
   drop (i * 96) (regs_data trace) = regs_data (drop i trace)"
proof (induction i arbitrary: trace)
  case (Suc i)
  then obtain x xs where t: "trace = x # xs" by (cases trace) auto
  with Suc have "drop (i * 96) (regs_data xs) = regs_data (drop i xs)" by simp
  moreover have "length (regs_row x) = 96" using Suc.prems t by (simp add: length_regs_row)
  ultimately show ?case by (simp add: t regs_data_def algebra_simps flip: drop_drop)
qed simp

lemma read_u64_of_rows:
  assumes "\<forall>e\<in>set trace. length e = 12" "i < length trace" "r < 12"
  shows "read_u64_at (regs_data trace) (i * 96 + r * 8) = Some (trace ! i ! r)"
proof -
  let ?e = "trace ! i"
  have e: "length ?e = 12" using assms by auto
  have len: "i * 96 + r * 8 + 8 \<le> length (regs_data trace)"
    using assms by (simp add: length_regs_data)
  have "drop (i * 96 + r * 8) (regs_data trace) = drop (r * 8) (regs_data (drop i trace))"
    using assms by (simp add: drop_regs_data add.commute flip: drop_drop)
  also have "drop i trace = ?e # drop (Suc i) trace"
    using assms by (simp add: Cons_nth_drop_Suc)
  also have "drop (r * 8) (regs_data (?e # drop (Suc i) trace))
      = concat (map (to_le 8) (drop r ?e)) @ regs_data (drop (Suc i) trace)"
    using assms e by (simp add: regs_data_def regs_row_def drop_concat_le length_concat_le)
  also have "drop r ?e = ?e ! r # drop (Suc r) ?e"
    using assms e by (simp add: Cons_nth_drop_Suc)
  finally show ?thesis using len
    by (simp add: read_u64_at_def get_slice_def)
qed

lemma parse_row_total:
  assumes "Suc i * 96 \<le> length data"
  shows "\<exists>s. parse_row data i = Some s \<and> wf_snapshot s"
proof -
  have "read_u64_at data (i * 96 + r * 8) = Some (from_le (take 8 (drop (i * 96 + r * 8) data)))"
    if "r \<in> set [0..<12]" for r
    using assms that by (simp add: read_u64_at_def get_slice_def)
  then have "those (map (\<lambda>r. read_u64_at data (i * 96 + r * 8)) [0..<12])
      = Some (map (\<lambda>r. from_le (take 8 (drop (i * 96 + r * 8) data))) [0..<12])"
    by (rule those_cong_Some)
  then show ?thesis
    by (simp add: parse_row_def wf_snapshot_def ROW_SIZE_eq NUM_REGISTERS_def del: upt_conv_Cons)
qed

lemma parse_row_regs_data:
  assumes "\<forall>e\<in>set trace. length e = 12" "i < length trace"
  shows "parse_row (regs_data trace) i = Some \<lparr>registers = trace ! i\<rparr>"
proof -
  have "those (map (\<lambda>r. read_u64_at (regs_data trace) (i * 96 + r * 8)) [0..<12])
      = Some (map (\<lambda>r. trace ! i ! r) [0..<12])"
    by (rule those_cong_Some) (use assms in \<open>simp add: read_u64_of_rows\<close>)
  moreover have "map (\<lambda>r. trace ! i ! r) [0..<12] = trace ! i"
    using assms by (metis map_nth nth_mem)
  ultimately show ?thesis
    by (simp add: parse_row_def ROW_SIZE_eq NUM_REGISTERS_def del: upt_conv_Cons)
qed

lemma parse_regs_data:
  assumes "\<forall>e\<in>set trace. length e = 12"
  shows "parse_regs_file (regs_data trace) = Ok (map (\<lambda>e. \<lparr>registers = e\<rparr>) trace)"
proof -
  let ?n = "length trace"
  have "those (map (parse_row (regs_data trace)) [0..<?n])
      = Some (map (\<lambda>i. \<lparr>registers = trace ! i\<rparr>) [0..<?n])"
    by (rule those_cong_Some) (use assms in \<open>simp add: parse_row_regs_data\<close>)
  moreover have "map (\<lambda>i. \<lparr>registers = trace ! i\<rparr>) [0..<?n] = map (\<lambda>e. \<lparr>registers = e\<rparr>) trace"
    by (rule nth_equalityI) auto
  ultimately show ?thesis
    using assms by (simp add: parse_regs_file_def length_regs_data ROW_SIZE_eq)
qed

lemma regs_row_surj: "length bs = 8 * k \<Longrightarrow> \<exists>entry :: u64 list. length entry = k \<and> regs_row entry = bs"
proof (induction k arbitrary: bs)
  case 0
  then show ?case by (intro exI [of _ "[]"]) (simp add: regs_row_def)
next
  case (Suc k)
  then have "length (drop 8 bs) = 8 * k" by simp
  then obtain entry :: "u64 list" where e: "length entry = k" "regs_row entry = drop 8 bs"
    using Suc.IH by blast
  have "to_le 8 (from_le (take 8 bs) :: u64) = take 8 bs"
    using to_le_from_le [where 'a = 64, of "take 8 bs"] Suc.prems by simp
  with e show ?case
    by (intro exI [of _ "from_le (take 8 bs) # entry"]) (simp add: regs_row_def)
qed

lemma regs_data_surj:
  "length data = 96 * n \<Longrightarrow>
   \<exists>trace. length trace = n \<and> (\<forall>e\<in>set trace. length e = 12) \<and> regs_data trace = data"
proof (induction n arbitrary: data)
  case 0
  then show ?case by (intro exI [of _ "[]"]) (simp add: regs_data_def)
next
  case (Suc n)
  then have "length (drop 96 data) = 96 * n" by simp
  then obtain trace where t: "length trace = n" "\<forall>e\<in>set trace. length e = 12"
    "regs_data trace = drop 96 data"
    using Suc.IH by blast
  obtain entry where e: "length entry = 12" "regs_row entry = take 96 data"
    using regs_row_surj [of "take 96 data" 12] Suc.prems by auto
  with t show ?case
    by (intro exI [of _ "entry # trace"]) (simp add: regs_data_def)
qed

lemma parse_regs_file_cases:
  "case parse_regs_file data of
     Ok snaps \<Rightarrow> length data = 96 * length snaps \<and> list_all wf_snapshot snaps
                  \<and> regs_data (map registers snaps) = data
   | Err e \<Rightarrow> length data mod 96 \<noteq> 0 \<and> e = LengthNotMultiple (length data)
   | Panic \<Rightarrow> False"
proof (cases "length data mod 96 = 0")
  case False
  then show ?thesis by (simp add: parse_regs_file_def ROW_SIZE_eq)
next
  case True
  then obtain n where "length data = 96 * n" by (auto elim: dvdE)
  then obtain trace where t: "\<forall>e\<in>set trace. length e = 12" "regs_data trace = data"
    using regs_data_surj by blast
  then have "parse_regs_file data = Ok (map (\<lambda>e. \<lparr>registers = e\<rparr>) trace)"
    using parse_regs_data by blast
  with t show ?thesis
    by (auto simp: list_all_iff wf_snapshot_def NUM_REGISTERS_def length_regs_data comp_def)
qed

text \<open>
  C25: reading back what the executor wrote. For every register trace of the VM (rows of
  twelve registers) \<open>parse_regs_file\<close> on the bytes \<open>execute_with_memory_trace\<close> emits
  returns exactly those rows, in order, with every register value intact.
\<close>

theorem parse_regs_roundtrip:
  assumes "\<forall>e\<in>set trace. length e = NUM_REGISTERS"
  shows "parse_regs_file (regs_data trace) = Ok (map (\<lambda>e. \<lparr>registers = e\<rparr>) trace)"
  using parse_regs_data assms by (simp add: NUM_REGISTERS_def)

theorem parse_regs_roundtrip_witness:
  "parse_regs_file (regs_data [[1, 2, 3, 4, 5, 6, 7, 8, 9, 10, 11, 18446744073709551615]])
   = Ok [\<lparr>registers = [1, 2, 3, 4, 5, 6, 7, 8, 9, 10, 11, 18446744073709551615]\<rparr>]"
  using parse_regs_roundtrip [of "[[1, 2, 3, 4, 5, 6, 7, 8, 9, 10, 11, 18446744073709551615]]"]
  by (simp add: NUM_REGISTERS_def)

text \<open>
  The parser on any input. It never panics; it refuses exactly the inputs whose length
  is not a multiple of 96, reporting that length; otherwise it returns one well-formed
  snapshot per 96 bytes, and writing those snapshots again gives the input back.
\<close>

theorem parse_regs_file_total:
  "case parse_regs_file data of
     Ok snaps \<Rightarrow> length data = ROW_SIZE * length snaps \<and> list_all wf_snapshot snaps
                  \<and> regs_data (map registers snaps) = data
   | Err e \<Rightarrow> length data mod ROW_SIZE \<noteq> 0 \<and> e = LengthNotMultiple (length data)
   | Panic \<Rightarrow> False"
  unfolding ROW_SIZE_eq by (rule parse_regs_file_cases)

end
