(* ===== verification/Cpi.thy ===== *)
theory Cpi
  imports Register_Trace
begin

text \<open>
  \<open>src/cpi.rs\<close>: the detector that follows the program counter across cross-program
  invocations. Its state is a stack of contexts (a \<open>Vec\<close> whose last element is the
  current program) and the table of known program ranges. Each snapshot is one step of a
  state machine: stay, push a callee, or unwind to an enclosing context.
\<close>

section \<open>State and operations\<close>

datatype CpiEvent = SameProgram | CpiCall (target_pc: u64) | CpiReturn (return_pc: u64)

record CpiContext =
  program_name :: string
  pc_range :: range

record CpiDetector =
  context_stack :: "CpiContext list"
  known_ranges :: "(string \<times> range) list"

definition new_detector :: "range \<Rightarrow> CpiDetector" where
  "new_detector primary_range =
     (let ctx = \<lparr>program_name = ''primary'', pc_range = primary_range\<rparr>
      in \<lparr>context_stack = [ctx], known_ranges = [(''primary'', primary_range)]\<rparr>)"

definition add_program_range :: "CpiDetector \<Rightarrow> string \<Rightarrow> range \<Rightarrow> CpiDetector" where
  "add_program_range d name rng = d\<lparr>known_ranges := known_ranges d @ [(name, rng)]\<rparr>"

text \<open>The loop \<open>for i in (0..len - 1).rev()\<close>: the last index below \<open>n\<close> whose context holds
  the program counter.\<close>

fun enclosing_below :: "CpiContext list \<Rightarrow> u64 \<Rightarrow> nat \<Rightarrow> nat option" where
  "enclosing_below st a 0 = None"
| "enclosing_below st a (Suc i) =
     (if range_contains (pc_range (st ! i)) a then Some i else enclosing_below st a i)"

definition known_target :: "CpiDetector \<Rightarrow> u64 \<Rightarrow> (string \<times> range) option" where
  "known_target d a = List.find (\<lambda>(n, r). range_contains r a) (known_ranges d)"

text \<open>
  One snapshot. \<open>None\<close> is a panic: the \<open>expect\<close> on an empty stack, or \<open>pc + 1\<close>, which
  \<open>unwrap_or\<close> evaluates whether or not a known range was found.
\<close>

definition process_snapshot ::
  "bool \<Rightarrow> CpiDetector \<Rightarrow> RegisterSnapshot \<Rightarrow> (CpiEvent \<times> CpiDetector) option" where
  "process_snapshot chk d snapshot =
     (let pc = pc snapshot; stack = context_stack d in
      if stack = [] then None
      else if range_contains (pc_range (last stack)) pc then Some (SameProgram, d)
      else case (if length stack > 1 then enclosing_below stack pc (length stack - 1) else None) of
        Some i \<Rightarrow> Some (CpiReturn pc, d\<lparr>context_stack := take (i + 1) stack\<rparr>)
      | None \<Rightarrow>
          (let name = (case known_target d pc of
                         Some (n, r) \<Rightarrow> n | None \<Rightarrow> ''unknown_at_'' @ dec_word pc)
           in case add_profile chk pc 1 of
                None \<Rightarrow> None
              | Some pc1 \<Rightarrow>
                  (let rng = (case known_target d pc of Some (n, r) \<Rightarrow> r | None \<Rightarrow> Range pc pc1)
                   in Some (CpiCall pc,
                        d\<lparr>context_stack := stack @ [\<lparr>program_name = name, pc_range = rng\<rparr>]\<rparr>))))"

definition call_depth :: "CpiDetector \<Rightarrow> nat option" where
  "call_depth d = (if context_stack d = [] then None else Some (length (context_stack d) - 1))"

definition is_in_cpi :: "CpiDetector \<Rightarrow> bool" where
  "is_in_cpi d \<longleftrightarrow> length (context_stack d) > 1"

definition current_program :: "CpiDetector \<Rightarrow> string option" where
  "current_program d =
     (if context_stack d = [] then None else Some (program_name (last (context_stack d))))"

text \<open>The detector driven over a whole trace, as the recording loop drives it.\<close>

fun run_steps :: "('d \<Rightarrow> 's \<Rightarrow> (CpiEvent \<times> 'd) option) \<Rightarrow> 'd \<Rightarrow> 's list \<Rightarrow> (CpiEvent list \<times> 'd) option" where
  "run_steps step d [] = Some ([], d)"
| "run_steps step d (s # ss) =
     (case step d s of
        None \<Rightarrow> None
      | Some (e, d') \<Rightarrow> map_option (\<lambda>(es, d''). (e # es, d'')) (run_steps step d' ss))"

abbreviation run_detector where "run_detector chk \<equiv> run_steps (process_snapshot chk)"

fun is_call :: "CpiEvent \<Rightarrow> bool" where
  "is_call (CpiCall a) = True"
| "is_call e = False"

fun is_return :: "CpiEvent \<Rightarrow> bool" where
  "is_return (CpiReturn a) = True"
| "is_return e = False"

section \<open>What the recording loop relies on\<close>

text \<open>
  The interface between the detector and its driver: a depth, an invariant, and how each
  event changes the depth. A return may leave several contexts at once, so only the
  direction is promised.
\<close>

locale cpi_tracker =
  fixes step :: "'d \<Rightarrow> 's \<Rightarrow> (CpiEvent \<times> 'd) option"
    and depth :: "'d \<Rightarrow> nat"
    and invar :: "'d \<Rightarrow> bool"
  assumes invar_step: "invar d \<Longrightarrow> step d s = Some (e, d') \<Longrightarrow> invar d'"
    and depth_same: "invar d \<Longrightarrow> step d s = Some (SameProgram, d') \<Longrightarrow> depth d' = depth d"
    and depth_call: "invar d \<Longrightarrow> step d s = Some (CpiCall a, d') \<Longrightarrow> depth d' = Suc (depth d)"
    and depth_return: "invar d \<Longrightarrow> step d s = Some (CpiReturn a, d') \<Longrightarrow> depth d' < depth d"
begin

lemma step_depth:
  assumes "invar d" "step d s = Some (e, d')"
  shows "depth d' + (if is_return e then 1 else 0) \<le> depth d + (if is_call e then 1 else 0)"
  using assms depth_same [of d s d'] depth_call [of d s _ d'] depth_return [of d s _ d']
  by (cases e) auto

lemma run_depth:
  "invar d \<Longrightarrow> run_steps step d ss = Some (es, d') \<Longrightarrow>
   invar d' \<and> length es = length ss \<and>
   depth d' + length (filter is_return es) \<le> depth d + length (filter is_call es)"
proof (induction ss arbitrary: d es)
  case (Cons s ss)
  from Cons.prems(2) obtain e d1 es1 where
    st: "step d s = Some (e, d1)" and rest: "run_steps step d1 ss = Some (es1, d')"
    and es: "es = e # es1"
    by (auto split: option.splits prod.splits)
  from Cons.IH [OF invar_step [OF Cons.prems(1) st] rest] step_depth [OF Cons.prems(1) st] es
  show ?case by (cases e) auto
qed simp

end

section \<open>One step of the detector\<close>

lemma enclosing_below_Some:
  "enclosing_below st a n = Some i \<Longrightarrow>
   i < n \<and> range_contains (pc_range (st ! i)) a
   \<and> (\<forall>j. i < j \<and> j < n \<longrightarrow> \<not> range_contains (pc_range (st ! j)) a)"
  by (induction n) (auto simp: less_Suc_eq split: if_splits)

lemma enclosing_below_None:
  "enclosing_below st a n = None \<longleftrightarrow> (\<forall>j<n. \<not> range_contains (pc_range (st ! j)) a)"
  by (induction n) (auto simp: less_Suc_eq)

lemma range_contains_not_max: "range_contains r a \<Longrightarrow> a \<noteq> - 1"
  by (auto simp: range_contains_def not_less word_order.extremum)

lemma add_one_profile:
  "add_profile chk a 1 = (if chk \<and> a = - 1 then None else Some (a + 1))" for a :: u64
proof -
  have "unat a + 1 \<ge> 2 ^ 64 \<longleftrightarrow> a = - 1"
    using unat_lt [of a] by (auto simp: word_unat_eq_iff unsigned_minus_1_eq_mask mask_eq_exp_minus_1)
  then show ?thesis by (simp add: add_profile_def)
qed

lemma fresh_range_contains: "a \<noteq> - 1 \<Longrightarrow> range_contains (Range a (a + 1)) a" for a :: u64
proof -
  assume "a \<noteq> - 1"
  then have "unat a + 1 < 2 ^ 64"
    using unat_lt [of a] by (auto simp: word_unat_eq_iff unsigned_minus_1_eq_mask mask_eq_exp_minus_1)
  then have "a < a + 1" by (simp add: word_less_nat_alt unat_word_ariths)
  then show ?thesis by (simp add: range_contains_def)
qed

text \<open>The context a call pushes, and the abstract effect of a program counter on the
  stack: unwind to the innermost context that holds it, or push when none does.\<close>

definition callee :: "CpiDetector \<Rightarrow> u64 \<Rightarrow> CpiContext" where
  "callee d a =
     (case known_target d a of
        Some (n, r) \<Rightarrow> \<lparr>program_name = n, pc_range = r\<rparr>
      | None \<Rightarrow> \<lparr>program_name = ''unknown_at_'' @ dec_word a, pc_range = Range a (a + 1)\<rparr>)"

definition unwind_or_push :: "CpiContext list \<Rightarrow> u64 \<Rightarrow> CpiContext \<Rightarrow> CpiContext list" where
  "unwind_or_push st a new =
     (case dropWhile (\<lambda>c. \<not> range_contains (pc_range c) a) (rev st) of
        [] \<Rightarrow> st @ [new]
      | ks \<Rightarrow> rev ks)"

lemma unwind_to:
  assumes "i < length st" "range_contains (pc_range (st ! i)) a"
    and "\<forall>j. i < j \<and> j < length st \<longrightarrow> \<not> range_contains (pc_range (st ! j)) a"
  shows "unwind_or_push st a new = take (i + 1) st"
proof -
  let ?P = "\<lambda>c. \<not> range_contains (pc_range c) a"
  let ?ys = "st ! i # rev (take i st)"
  have "rev st = rev (take (Suc i) st @ drop (Suc i) st)" by simp
  also have "\<dots> = rev (drop (Suc i) st) @ ?ys"
    unfolding rev_append using assms(1) by (simp add: take_Suc_conv_app_nth)
  finally have st: "rev st = rev (drop (Suc i) st) @ ?ys" .
  have "?P c" if "c \<in> set (rev (drop (Suc i) st))" for c
    using that assms(3) by (auto simp: in_set_conv_nth)
  then have "dropWhile ?P (rev (drop (Suc i) st) @ ?ys) = dropWhile ?P ?ys"
    by (rule dropWhile_append2)
  with st assms(2) have "dropWhile ?P (rev st) = ?ys" by simp
  then show ?thesis using assms(1) by (simp add: unwind_or_push_def take_Suc_conv_app_nth)
qed

lemma unwind_none:
  "st \<noteq> [] \<Longrightarrow> range_contains (pc_range (last st)) a \<Longrightarrow> unwind_or_push st a new = st"
  by (cases st rule: rev_cases) (auto simp: unwind_or_push_def)

lemma push_when_outside:
  assumes "\<forall>j<length st. \<not> range_contains (pc_range (st ! j)) a"
  shows "unwind_or_push st a new = st @ [new]"
proof -
  have "dropWhile (\<lambda>c. \<not> range_contains (pc_range c) a) (rev st) = []"
    using assms by (auto simp: in_set_conv_nth dropWhile_eq_Nil_conv)
  then show ?thesis by (simp only: unwind_or_push_def list.case)
qed

text \<open>The three ways a step can go, with the stack it leaves.\<close>

lemma process_snapshot_cases:
  assumes "context_stack d \<noteq> []"
  obtains
    (same) "range_contains (pc_range (last (context_stack d))) (pc s)"
      "process_snapshot chk d s = Some (SameProgram, d)"
  | (return) i where "Suc i < length (context_stack d)"
      "range_contains (pc_range (context_stack d ! i)) (pc s)"
      "\<forall>j. i < j \<and> j < length (context_stack d) \<longrightarrow> \<not> range_contains (pc_range (context_stack d ! j)) (pc s)"
      "process_snapshot chk d s = Some (CpiReturn (pc s), d\<lparr>context_stack := take (i + 1) (context_stack d)\<rparr>)"
  | (call) "\<forall>j<length (context_stack d). \<not> range_contains (pc_range (context_stack d ! j)) (pc s)"
      "process_snapshot chk d s =
         (if chk \<and> pc s = - 1 then None
          else Some (CpiCall (pc s), d\<lparr>context_stack := context_stack d @ [callee d (pc s)]\<rparr>))"
proof -
  let ?st = "context_stack d" and ?n = "length (context_stack d) - 1"
  let ?in = "\<lambda>j. range_contains (pc_range (?st ! j)) (pc s)"
  have last: "last ?st = ?st ! ?n" using assms by (simp add: last_conv_nth)
  have split: "j < length ?st \<longleftrightarrow> j < ?n \<or> j = ?n" for j
    using assms by (cases ?st) auto
  show thesis
  proof (cases "?in ?n")
    case True
    with assms last show thesis by (intro same) (auto simp: process_snapshot_def Let_def)
  next
    case out: False
    show thesis
    proof (cases "enclosing_below ?st (pc s) ?n")
      case (Some i)
      note i = enclosing_below_Some [OF Some]
      show thesis
        by (rule return [of i]) (use i Some out assms last split in \<open>auto simp: process_snapshot_def Let_def\<close>)
    next
      case None
      then have none: "\<forall>j<length ?st. \<not> ?in j"
        using out split by (auto simp: enclosing_below_None)
      show thesis
        by (rule call [OF none])
          (use None out assms last in
            \<open>auto simp: process_snapshot_def Let_def add_one_profile callee_def split: option.splits\<close>)
    qed
  qed
qed

definition detector_ok :: "CpiDetector \<Rightarrow> bool" where
  "detector_ok d \<longleftrightarrow> context_stack d \<noteq> []"

definition nesting :: "CpiDetector \<Rightarrow> nat" where
  "nesting d = length (context_stack d) - 1"

lemma call_depth_ok: "detector_ok d \<Longrightarrow> call_depth d = Some (nesting d)"
  by (simp add: detector_ok_def call_depth_def nesting_def)

lemma detector_ok_new: "detector_ok (new_detector r)" "nesting (new_detector r) = 0"
  by (simp_all add: detector_ok_def nesting_def new_detector_def)

lemma detector_ok_add: "detector_ok (add_program_range d n r) = detector_ok d"
  by (simp add: detector_ok_def add_program_range_def)

interpretation detector: cpi_tracker "process_snapshot chk" nesting detector_ok for chk
proof unfold_locales
  fix d s e d'
  assume ok: "detector_ok d" and st: "process_snapshot chk d s = Some (e, d')"
  show "detector_ok d'"
    using process_snapshot_cases [OF ok [unfolded detector_ok_def], of s chk] st ok
    by (cases; auto simp: detector_ok_def split: if_splits)
next
  fix d s d'
  assume ok: "detector_ok d" and st: "process_snapshot chk d s = Some (SameProgram, d')"
  show "nesting d' = nesting d"
    using process_snapshot_cases [OF ok [unfolded detector_ok_def], of s chk] st
    by (cases; auto simp: nesting_def split: if_splits)
next
  fix d s a d'
  assume ok: "detector_ok d" and st: "process_snapshot chk d s = Some (CpiCall a, d')"
  show "nesting d' = Suc (nesting d)"
    using process_snapshot_cases [OF ok [unfolded detector_ok_def], of s chk] st ok
    by (cases; auto simp: nesting_def detector_ok_def split: if_splits)
next
  fix d s a d'
  assume ok: "detector_ok d" and st: "process_snapshot chk d s = Some (CpiReturn a, d')"
  show "nesting d' < nesting d"
    using process_snapshot_cases [OF ok [unfolded detector_ok_def], of s chk] st
    by (cases; auto simp: nesting_def split: if_splits)
qed

section \<open>Properties\<close>

lemma process_snapshot_stack:
  assumes "detector_ok d" "process_snapshot chk d s = Some (e, d')"
  shows "context_stack d' = unwind_or_push (context_stack d) (pc s) (callee d (pc s))
         \<and> known_ranges d' = known_ranges d"
proof -
  have ne: "context_stack d \<noteq> []" using assms(1) by (simp add: detector_ok_def)
  then show ?thesis
  proof (cases rule: process_snapshot_cases [where s = s and chk = chk])
    case same
    with ne assms(2) show ?thesis by (auto simp: unwind_none)
  next
    case (return i)
    with assms(2) show ?thesis
      using unwind_to [of i "context_stack d" "pc s"] by auto
  next
    case call
    with assms(2) show ?thesis
      by (auto simp: push_when_outside split: if_splits)
  qed
qed

lemma process_snapshot_event:
  assumes "detector_ok d" "process_snapshot chk d s = Some (e, d')"
  shows "e \<in> {SameProgram, CpiCall (pc s), CpiReturn (pc s)}"
  using assms(1) [unfolded detector_ok_def]
  by (cases rule: process_snapshot_cases [where s = s and chk = chk])
    (use assms(2) in \<open>simp_all split: if_splits\<close>)

text \<open>
  C15: the detector implements an abstract call stack. After any snapshot the context stack
  is the old one unwound to its innermost context that holds the program counter, and
  the old one with one callee context pushed when none holds it; the table of known
  programs is never changed, and a call or return event carries the snapshot's own
  program counter.
\<close>

theorem cpi_refines_call_stack:
  assumes "detector_ok d" "process_snapshot chk d s = Some (e, d')"
  shows "context_stack d' = unwind_or_push (context_stack d) (pc s) (callee d (pc s))
         \<and> known_ranges d' = known_ranges d
         \<and> e \<in> {SameProgram, CpiCall (pc s), CpiReturn (pc s)}"
  using process_snapshot_stack [OF assms] process_snapshot_event [OF assms] by blast

definition snap_at :: "u64 \<Rightarrow> RegisterSnapshot" where
  "snap_at a = \<lparr>registers = replicate 11 0 @ [a]\<rparr>"

lemma pc_snap_at [simp]: "pc (snap_at a) = a"
  by (simp add: snap_at_def pc_def nth_append)

lemma two_programs_step:
  "process_snapshot True (add_program_range (new_detector (Range 0 100)) ''token'' (Range 500 600)) (snap_at 510)
   = Some (CpiCall 510,
       \<lparr>context_stack = [\<lparr>program_name = ''primary'', pc_range = Range 0 100\<rparr>,
                         \<lparr>program_name = ''token'', pc_range = Range 500 600\<rparr>],
        known_ranges = [(''primary'', Range 0 100), (''token'', Range 500 600)]\<rparr>)"
  by (simp add: process_snapshot_def new_detector_def add_program_range_def known_target_def
      range_contains_def add_profile_def Let_def)

lemma two_programs_ok:
  "detector_ok (add_program_range (new_detector (Range 0 100)) ''token'' (Range 500 600))"
  by (simp add: detector_ok_add detector_ok_new)

theorem cpi_refines_call_stack_witness:
  "unwind_or_push [\<lparr>program_name = ''primary'', pc_range = Range 0 100\<rparr>] 510
     \<lparr>program_name = ''token'', pc_range = Range 500 600\<rparr>
   = [\<lparr>program_name = ''primary'', pc_range = Range 0 100\<rparr>,
      \<lparr>program_name = ''token'', pc_range = Range 500 600\<rparr>]"
  using cpi_refines_call_stack [OF two_programs_ok two_programs_step]
  by (simp add: callee_def known_target_def range_contains_def
      add_program_range_def new_detector_def)

text \<open>
  When the detector panics. On a detector with a non-empty stack (every detector built
  by \<open>new\<close>) a snapshot panics exactly in a build with overflow checks and at the
  program counter \<open>u64::MAX\<close>: \<open>pc..pc + 1\<close> is evaluated on every call, even for a
  known target. In a build without checks every such snapshot is a fresh call.
\<close>

theorem cpi_panics_only_at_max:
  assumes "detector_ok d"
  shows "(process_snapshot chk d s = None) = (chk \<and> pc s = - 1)
         \<and> (pc s = - 1 \<longrightarrow> process_snapshot False d s =
              Some (CpiCall (- 1), d\<lparr>context_stack := context_stack d @ [callee d (- 1)]\<rparr>))"
proof -
  note cases = process_snapshot_cases [OF assms [unfolded detector_ok_def], of s]
  have "(process_snapshot chk d s = None) = (chk \<and> pc s = - 1)"
    using cases [of chk] by (cases; auto dest: range_contains_not_max)
  moreover have "pc s = - 1 \<longrightarrow> process_snapshot False d s =
              Some (CpiCall (- 1), d\<lparr>context_stack := context_stack d @ [callee d (- 1)]\<rparr>)"
    using cases [of False] by (cases; auto dest: range_contains_not_max)
  ultimately show ?thesis by blast
qed

theorem cpi_panics_only_at_max_witness:
  "process_snapshot True (new_detector (Range 0 10)) (snap_at (- 1)) = None"
  using cpi_panics_only_at_max [OF detector_ok_new(1), of True "Range 0 10" "snap_at (- 1)"] by simp

text \<open>
  A detector that accepts a snapshot ends in a program that owns its program counter,
  save for the one address no range can hold; so a second snapshot at the same address
  stays in the same program.
\<close>

theorem cpi_settles:
  assumes "detector_ok d" "process_snapshot chk d s = Some (e, d')" "pc s \<noteq> - 1"
  shows "range_contains (pc_range (last (context_stack d'))) (pc s)
         \<and> process_snapshot chk d' s = Some (SameProgram, d')"
proof -
  have ne: "context_stack d \<noteq> []" using assms(1) by (simp add: detector_ok_def)
  have own: "range_contains (pc_range (callee d (pc s))) (pc s)"
    using find_Some_prop [of "\<lambda>(n, r). range_contains r (pc s)" "known_ranges d"]
      fresh_range_contains [OF assms(3)]
    by (auto simp: callee_def known_target_def split: option.splits prod.splits)
  have in': "range_contains (pc_range (last (context_stack d'))) (pc s)"
    using process_snapshot_cases [OF ne, of s chk] assms(2) own
    by (cases; auto simp: last_conv_nth take_Suc_conv_app_nth split: if_splits)
  moreover have "detector_ok d'" by (rule detector.invar_step [OF assms(1,2)])
  ultimately show ?thesis by (simp add: process_snapshot_def Let_def detector_ok_def)
qed

theorem cpi_settles_witness:
  "process_snapshot True
     \<lparr>context_stack = [\<lparr>program_name = ''primary'', pc_range = Range 0 100\<rparr>,
                       \<lparr>program_name = ''token'', pc_range = Range 500 600\<rparr>],
      known_ranges = [(''primary'', Range 0 100), (''token'', Range 500 600)]\<rparr> (snap_at 510)
   = Some (SameProgram,
     \<lparr>context_stack = [\<lparr>program_name = ''primary'', pc_range = Range 0 100\<rparr>,
                       \<lparr>program_name = ''token'', pc_range = Range 500 600\<rparr>],
      known_ranges = [(''primary'', Range 0 100), (''token'', Range 500 600)]\<rparr>)"
  using cpi_settles [OF two_programs_ok two_programs_step] by simp

text \<open>
  C26: over a whole trace the nesting depth is bounded by the events: the depth at the end
  plus the number of returns is at most the depth at the start plus the number of calls,
  one event is emitted per snapshot, and the stack never empties.
\<close>

theorem cpi_trace_depth:
  assumes "detector_ok d" "run_detector chk d ss = Some (es, d')"
  shows "detector_ok d' \<and> length es = length ss \<and> call_depth d' = Some (nesting d')
         \<and> nesting d' + length (filter is_return es) \<le> nesting d + length (filter is_call es)"
  using detector.run_depth [OF assms] call_depth_ok by blast

theorem cpi_trace_depth_witness:
  "\<exists>d'. run_detector True (new_detector (Range 0 100)) [snap_at 5, snap_at 700, snap_at 7]
          = Some ([SameProgram, CpiCall 700, CpiReturn 7], d') \<and> nesting d' = 0"
proof -
  let ?d = "new_detector (Range 0 100)"
  let ?r = "run_detector True ?d [snap_at 5, snap_at 700, snap_at 7]"
  have run: "?r = Some ([SameProgram, CpiCall 700, CpiReturn 7], ?d)"
    by (simp add: process_snapshot_def new_detector_def known_target_def range_contains_def
        add_profile_def Let_def)
  from cpi_trace_depth [OF detector_ok_new(1) run] detector_ok_new(2) have "nesting ?d = 0"
    by simp
  with run show ?thesis by blast
qed

end
