(* ===== verification/Dwarf.thy ===== *)
theory Dwarf
  imports Rust_Prelude "HOL-Library.Monad_Syntax"
begin

text \<open>
  \<open>src/dwarf.rs\<close>: the mapping of a program counter to a source location and the
  extraction of function boundaries. The ELF and DWARF readers (\<open>object\<close>, \<open>gimli\<close>,
  \<open>addr2line\<close>) are parameters: the address lookup of \<open>addr2line\<close> is a function held by
  the parser, and a debugging information entry is the record of what the attribute
  queries of the source return for it.
\<close>

section \<open>Locations\<close>

record SourceLocation =
  sl_file :: string
  sl_line :: u32
  sl_column :: "u32 option"

text \<open>What \<open>addr2line\<close> answers: every part of a location may be missing.\<close>

record a2l_location =
  a2l_file :: "string option"
  a2l_line :: "u32 option"
  a2l_column :: "u32 option"

record DwarfParser =
  dp_text_vaddr :: u64
  dp_context :: "u64 \<Rightarrow> unit + a2l_location option"

definition text_vaddr :: "DwarfParser \<Rightarrow> u64" where
  "text_vaddr p = dp_text_vaddr p"

fun ok_flat :: "unit + 'a option \<Rightarrow> 'a option" where
  "ok_flat (Inl e) = None"
| "ok_flat (Inr r) = r"

definition dwarf_find_location :: "DwarfParser \<Rightarrow> u64 \<Rightarrow> SourceLocation option" where
  "dwarf_find_location p sbf_pc = do {
     off \<leftarrow> checked_mul sbf_pc 8;
     elf_addr \<leftarrow> checked_add (dp_text_vaddr p) off;
     loc \<leftarrow> ok_flat (dp_context p elf_addr);
     file \<leftarrow> a2l_file loc;
     line \<leftarrow> a2l_line loc;
     Some \<lparr>sl_file = file, sl_line = line, sl_column = a2l_column loc\<rparr>
   }"

section \<open>Function boundaries\<close>

record FunctionBoundary =
  fb_name :: string
  start_addr :: u64
  end_addr :: u64

datatype attribute_value = Addr u64 | Udata u64 | OtherAttribute

datatype dwarf_error = ElfParse | DwarfLoad | UnitIteration | UnitParse | DieIteration | AttrLowPc | AttrHighPc

text \<open>
  A debugging information entry, as the loop sees it: whether its tag is
  \<open>DW_TAG_subprogram\<close>, the names that could be read, and the outcome of the two address
  queries (\<open>Inl\<close> when the reader fails).
\<close>

record die =
  is_subprogram :: bool
  attr_name :: "string option"
  attr_linkage_name :: "string option"
  attr_low_pc :: "unit + attribute_value option"
  attr_high_pc :: "unit + attribute_value option"

definition extract_subprogram_name :: "die \<Rightarrow> string option" where
  "extract_subprogram_name e =
     (case attr_name e of Some n \<Rightarrow> Some n | None \<Rightarrow> attr_linkage_name e)"

text \<open>The body of the loop for one entry: \<open>Ok None\<close> is \<open>continue\<close>.\<close>

definition boundary_of :: "bool \<Rightarrow> die \<Rightarrow> (dwarf_error, FunctionBoundary option) outcome" where
  "boundary_of chk e =
     (if \<not> is_subprogram e then Ok None else
      case extract_subprogram_name e of None \<Rightarrow> Ok None | Some name \<Rightarrow>
      case attr_low_pc e of
        Inl _ \<Rightarrow> Err AttrLowPc
      | Inr (Some (Addr low_pc)) \<Rightarrow>
          (case attr_high_pc e of
             Inl _ \<Rightarrow> Err AttrHighPc
           | Inr (Some v) \<Rightarrow>
               (case v of
                  OtherAttribute \<Rightarrow> Ok None
                | Addr a \<Rightarrow>
                    Ok (if a \<le> low_pc then None
                        else Some \<lparr>fb_name = name, start_addr = low_pc, end_addr = a\<rparr>)
                | Udata len \<Rightarrow>
                    (case add_profile chk low_pc len of
                       None \<Rightarrow> Panic
                     | Some a \<Rightarrow>
                         Ok (if a \<le> low_pc then None
                             else Some \<lparr>fb_name = name, start_addr = low_pc, end_addr = a\<rparr>)))
           | Inr None \<Rightarrow> Ok None)
      | Inr _ \<Rightarrow> Ok None)"

text \<open>The entries of a unit in depth-first order, and the units in order; either iterator
  may fail, which ends the call with an error.\<close>

fun unit_functions ::
  "bool \<Rightarrow> (unit + die) list \<Rightarrow> FunctionBoundary list \<Rightarrow> (dwarf_error, FunctionBoundary list) outcome" where
  "unit_functions chk [] acc = Ok acc"
| "unit_functions chk (Inl _ # es) acc = Err DieIteration"
| "unit_functions chk (Inr e # es) acc =
     (case boundary_of chk e of
        Ok None \<Rightarrow> unit_functions chk es acc
      | Ok (Some b) \<Rightarrow> unit_functions chk es (acc @ [b])
      | Err x \<Rightarrow> Err x
      | Panic \<Rightarrow> Panic)"

fun all_functions ::
  "bool \<Rightarrow> (dwarf_error + (unit + die) list) list \<Rightarrow> FunctionBoundary list
   \<Rightarrow> (dwarf_error, FunctionBoundary list) outcome" where
  "all_functions chk [] acc = Ok acc"
| "all_functions chk (Inl x # us) acc = Err x"
| "all_functions chk (Inr es # us) acc =
     bind_outcome (unit_functions chk es acc) (all_functions chk us)"

text \<open>\<open>read\<close> stands for the readers: the units of the file, or why it could not be read.\<close>

definition find_functions ::
  "bool \<Rightarrow> (bytes \<Rightarrow> dwarf_error + (dwarf_error + (unit + die) list) list) \<Rightarrow> bytes
   \<Rightarrow> (dwarf_error, FunctionBoundary list) outcome" where
  "find_functions chk read elf_data =
     (case read elf_data of Inl x \<Rightarrow> Err x | Inr us \<Rightarrow> all_functions chk us [])"

section \<open>Lemmas\<close>

lemma find_location_address:
  "dwarf_find_location p a = Some l \<Longrightarrow>
   8 * unat a + unat (dp_text_vaddr p) < 2 ^ 64
   \<and> (\<exists>r. dp_context p (dp_text_vaddr p + a * 8) = Inr (Some r)
        \<and> a2l_file r = Some (sl_file l) \<and> a2l_line r = Some (sl_line l)
        \<and> a2l_column r = sl_column l)"
proof -
  assume "dwarf_find_location p a = Some l"
  then obtain off addr r where
    off: "checked_mul a 8 = Some off" and addr: "checked_add (dp_text_vaddr p) off = Some addr"
    and r: "ok_flat (dp_context p addr) = Some r"
    and parts: "a2l_file r = Some (sl_file l)" "a2l_line r = Some (sl_line l)" "a2l_column r = sl_column l"
    by (auto simp: dwarf_find_location_def bind_eq_Some_conv)
  have "unat off = unat a * 8" using checked_mul_unat [OF off] by simp
  moreover have "unat addr = unat (dp_text_vaddr p) + unat off" by (rule checked_add_unat [OF addr])
  moreover have "addr = dp_text_vaddr p + a * 8"
    using off addr by (auto simp: checked_mul_def checked_add_def split: if_splits)
  moreover have "dp_context p addr = Inr (Some r)" using r by (cases "dp_context p addr") auto
  ultimately show ?thesis using parts unat_lt [of addr] by auto
qed

definition nonempty_boundary :: "FunctionBoundary \<Rightarrow> bool" where
  "nonempty_boundary b \<longleftrightarrow> start_addr b < end_addr b"

lemma boundary_of_nonempty: "boundary_of chk e = Ok (Some b) \<Longrightarrow> nonempty_boundary b"
  by (auto simp: boundary_of_def nonempty_boundary_def not_le
      split: if_splits option.splits sum.splits attribute_value.splits)

text \<open>What the loop collects, without its accumulator and its error exits.\<close>

fun kept :: "bool \<Rightarrow> (unit + die) list \<Rightarrow> FunctionBoundary list" where
  "kept chk [] = []"
| "kept chk (Inl _ # es) = []"
| "kept chk (Inr e # es) =
     (case boundary_of chk e of Ok (Some b) \<Rightarrow> b # kept chk es | _ \<Rightarrow> kept chk es)"

lemma unit_functions_Ok:
  "unit_functions chk es acc = Ok bs \<Longrightarrow> bs = acc @ kept chk es"
  by (induction chk es acc rule: unit_functions.induct)
    (auto split: outcome.splits option.splits)

lemma all_functions_Ok:
  "all_functions chk us acc = Ok bs \<Longrightarrow>
   \<exists>ess. us = map Inr ess \<and> bs = acc @ concat (map (kept chk) ess)"
proof (induction chk us acc arbitrary: bs rule: all_functions.induct)
  case (1 chk acc)
  then show ?case by simp
next
  case (2 chk x us acc)
  then show ?case by simp
next
  case (3 chk es us acc)
  then obtain acc1 where a: "unit_functions chk es acc = Ok acc1" "all_functions chk us acc1 = Ok bs"
    by (auto simp: result_simps)
  from "3.IH" [OF a(2)] obtain ess where
    "us = map Inr ess" "bs = acc1 @ concat (map (kept chk) ess)" by blast
  with unit_functions_Ok [OF a(1)] show ?case
    by (intro exI [of _ "es # ess"]) simp
qed

lemma kept_nonempty: "b \<in> set (kept chk es) \<Longrightarrow> nonempty_boundary b"
  by (induction chk es rule: kept.induct)
    (auto split: outcome.splits option.splits dest: boundary_of_nonempty)

section \<open>Properties\<close>

text \<open>
  The program counter formula. A location is reported exactly when
  \<open>text_vaddr + 8 * pc\<close> fits in 64 bits (computed without wrap-around), the debug
  information knows that address, and it names a file and a line there; the column is
  passed through.
\<close>

theorem find_location_formula:
  "dwarf_find_location p a = Some l \<longleftrightarrow>
   8 * unat a + unat (dp_text_vaddr p) < 2 ^ 64
   \<and> (\<exists>r. dp_context p (dp_text_vaddr p + a * 8) = Inr (Some r)
        \<and> a2l_file r = Some (sl_file l) \<and> a2l_line r = Some (sl_line l)
        \<and> a2l_column r = sl_column l)"
proof
  assume rhs: "8 * unat a + unat (dp_text_vaddr p) < 2 ^ 64
   \<and> (\<exists>r. dp_context p (dp_text_vaddr p + a * 8) = Inr (Some r)
        \<and> a2l_file r = Some (sl_file l) \<and> a2l_line r = Some (sl_line l)
        \<and> a2l_column r = sl_column l)"
  then have "unat (a * 8) = unat a * 8" by (simp add: unat_word_ariths)
  with rhs show "dwarf_find_location p a = Some l"
    by (auto simp: dwarf_find_location_def checked_mul_def checked_add_def)
qed (rule find_location_address)

text \<open>
  The function table. When \<open>find_functions\<close> succeeds, every unit was read without
  error and the result is, in order, the boundaries the entries of each unit define, each
  with a start strictly below its end.
\<close>

theorem find_functions_ok:
  assumes "find_functions chk read elf_data = Ok bs"
  shows "\<exists>ess. read elf_data = Inr (map Inr ess) \<and> bs = concat (map (kept chk) ess)
               \<and> list_all nonempty_boundary bs"
proof -
  from assms obtain us where us: "read elf_data = Inr us" "all_functions chk us [] = Ok bs"
    by (auto simp: find_functions_def split: sum.splits)
  from all_functions_Ok [OF us(2)] obtain ess where
    "us = map Inr ess" "bs = concat (map (kept chk) ess)" by auto
  with us show ?thesis using kept_nonempty by (auto simp: list_all_iff)
qed

definition sample_die :: die where
  "sample_die = \<lparr>is_subprogram = True, attr_name = None, attr_linkage_name = Some ''process'',
     attr_low_pc = Inr (Some (Addr 64)), attr_high_pc = Inr (Some (Udata 16))\<rparr>"

theorem find_functions_ok_witness:
  "list_all nonempty_boundary [\<lparr>fb_name = ''process'', start_addr = 64, end_addr = 80\<rparr>]"
proof -
  have "find_functions True (\<lambda>_. Inr [Inr [Inr sample_die]]) []
      = Ok [\<lparr>fb_name = ''process'', start_addr = 64, end_addr = 80\<rparr>]"
    by (simp add: find_functions_def boundary_of_def sample_die_def extract_subprogram_name_def
        add_profile_def)
  from find_functions_ok [OF this] show ?thesis by blast
qed

end
