(* ===== verification/Elf_Loading.thy ===== *)
theory Elf_Loading
  imports Dwarf
begin

text \<open>
  The way from the bytes of a program to its debug information: \<open>DwarfParser::new\<close> and the
  first half of \<open>find_functions\<close> in \<open>src/dwarf.rs\<close>. The \<open>object\<close> crate, the section loader of
  \<open>gimli\<close> and the lookup context of \<open>addr2line\<close> are the record \<open>elf_reader\<close>; which sections
  are asked for, what stands for a missing one and how failures are reported is modelled.
\<close>

section \<open>The readers\<close>

record elf_section =
  sec_address :: u64
  sec_data :: "string + bytes"
  sec_uncompressed :: "string + bytes"

record elf_object =
  is_little_endian :: bool
  section_by_name :: "string \<Rightarrow> elf_section option"

datatype endianness = LittleEndian | BigEndian

text \<open>The loader of \<open>gimli\<close> asks a function for each section by its name.\<close>

type_synonym section_loader = "string \<Rightarrow> string + bytes \<times> endianness"

record 'd elf_reader =
  parse_object :: "bytes \<Rightarrow> string + elf_object"
  dwarf_load :: "section_loader \<Rightarrow> string + 'd"
  context_from_dwarf :: "'d \<Rightarrow> string + (u64 \<Rightarrow> unit + a2l_location option)"
  die_units :: "'d \<Rightarrow> (dwarf_error + (unit + die) list) list"

section \<open>Loading\<close>

definition endian_of :: "elf_object \<Rightarrow> endianness" where
  "endian_of obj = (if is_little_endian obj then LittleEndian else BigEndian)"

text \<open>A section that is missing or cannot be decompressed is empty, never an error.\<close>

definition load_section :: "elf_object \<Rightarrow> section_loader" where
  "load_section obj name =
     Inr (case section_by_name obj name of
            None \<Rightarrow> []
          | Some s \<Rightarrow> (case sec_uncompressed s of Inl e \<Rightarrow> [] | Inr data \<Rightarrow> data),
          endian_of obj)"

definition text_address :: "elf_object \<Rightarrow> u64" where
  "text_address obj = (case section_by_name obj ''.text'' of None \<Rightarrow> 0 | Some s \<Rightarrow> sec_address s)"

definition dwarf_parser_new :: "('d, 'z) elf_reader_scheme \<Rightarrow> bytes \<Rightarrow> string + DwarfParser" where
  "dwarf_parser_new R elf_data =
     (case parse_object R elf_data of
        Inl e \<Rightarrow> Inl (''failed to parse ELF: '' @ e)
      | Inr obj \<Rightarrow>
          (case dwarf_load R (load_section obj) of
             Inl e \<Rightarrow> Inl (''failed to load DWARF sections: '' @ e)
           | Inr dwarf \<Rightarrow>
               (case context_from_dwarf R dwarf of
                  Inl e \<Rightarrow> Inl (''failed to build addr2line context: '' @ e)
                | Inr ctx \<Rightarrow> Inr \<lparr>dp_text_vaddr = text_address obj, dp_context = ctx\<rparr>)))"

text \<open>The units that \<open>find_functions\<close> walks through.\<close>

definition read_dies ::
  "('d, 'z) elf_reader_scheme \<Rightarrow> bytes \<Rightarrow> dwarf_error + (dwarf_error + (unit + die) list) list" where
  "read_dies R elf_data =
     (case parse_object R elf_data of
        Inl e \<Rightarrow> Inl ElfParse
      | Inr obj \<Rightarrow>
          (case dwarf_load R (load_section obj) of
             Inl e \<Rightarrow> Inl DwarfLoad
           | Inr dwarf \<Rightarrow> Inr (die_units R dwarf)))"

definition elf_functions ::
  "bool \<Rightarrow> ('d, 'z) elf_reader_scheme \<Rightarrow> bytes \<Rightarrow> (dwarf_error, FunctionBoundary list) outcome" where
  "elf_functions chk R elf_data = find_functions chk (read_dies R) elf_data"

section \<open>Lemmas\<close>

lemma dwarf_parser_new_Inr:
  assumes "dwarf_parser_new R elf_data = Inr p"
  obtains obj dwarf ctx where
    "parse_object R elf_data = Inr obj" "dwarf_load R (load_section obj) = Inr dwarf"
    "context_from_dwarf R dwarf = Inr ctx" "p = \<lparr>dp_text_vaddr = text_address obj, dp_context = ctx\<rparr>"
  using assms by (auto simp: dwarf_parser_new_def split: sum.splits)

lemma elf_functions_nonempty:
  "elf_functions chk R elf_data = Ok bs \<Longrightarrow> list_all nonempty_boundary bs"
  unfolding elf_functions_def by (drule find_functions_ok) blast

end
