(* ===== verification/Multi_Program.thy ===== *)
theory Multi_Program
  imports Elf_Loading
begin

text \<open>
  \<open>src/multi_program.rs\<close>: the registry that maps a program counter to the registered
  program that owns it and to a source location, either through the debug information of
  that program or through its table of synthetic locations.
\<close>

section \<open>State and operations\<close>

record ProgramEntry =
  pe_name :: string
  pe_range :: range
  pe_dwarf :: "DwarfParser option"
  synthetic_locations :: "(u64 \<times> string \<times> u32) list"

record ProgramRegistry =
  programs :: "ProgramEntry list"

definition new_registry :: ProgramRegistry where
  "new_registry = \<lparr>programs = []\<rparr>"

definition push_entry :: "ProgramEntry \<Rightarrow> ProgramRegistry \<Rightarrow> ProgramRegistry" where
  "push_entry e r = r\<lparr>programs := programs r @ [e]\<rparr>"

text \<open>A failure to parse the debug information leaves the registry as it was and names the
  program.\<close>

datatype registry_error = DwarfForProgram string string

definition add_program ::
  "('d, 'z) elf_reader_scheme \<Rightarrow> ProgramRegistry \<Rightarrow> string \<Rightarrow> range \<Rightarrow> bytes
   \<Rightarrow> registry_error + ProgramRegistry" where
  "add_program R r name rng elf_data =
     (case dwarf_parser_new R elf_data of
        Inl e \<Rightarrow> Inl (DwarfForProgram name e)
      | Inr dwarf \<Rightarrow> Inr (push_entry
          \<lparr>pe_name = name, pe_range = rng, pe_dwarf = Some dwarf, synthetic_locations = []\<rparr> r))"

definition add_synthetic_program ::
  "ProgramRegistry \<Rightarrow> string \<Rightarrow> range \<Rightarrow> (u64 \<times> string \<times> u32) list \<Rightarrow> ProgramRegistry" where
  "add_synthetic_program r name rng locs =
     push_entry \<lparr>pe_name = name, pe_range = rng, pe_dwarf = None, synthetic_locations = locs\<rparr> r"

definition owns :: "ProgramEntry \<Rightarrow> u64 \<Rightarrow> bool" where
  "owns e a = range_contains (pe_range e) a"

definition owner :: "ProgramRegistry \<Rightarrow> u64 \<Rightarrow> ProgramEntry option" where
  "owner r a = List.find (\<lambda>e. owns e a) (programs r)"

definition find_program :: "ProgramRegistry \<Rightarrow> u64 \<Rightarrow> (string \<times> DwarfParser option) option" where
  "find_program r a = map_option (\<lambda>p. (pe_name p, pe_dwarf p)) (owner r a)"

definition find_location_with_column ::
  "ProgramRegistry \<Rightarrow> u64 \<Rightarrow> (string \<times> u32 \<times> u32 option) option" where
  "find_location_with_column r a = do {
     entry \<leftarrow> owner r a;
     case pe_dwarf entry of
       Some dwarf \<Rightarrow> do {
         loc \<leftarrow> dwarf_find_location dwarf a;
         Some (sl_file loc, sl_line loc, sl_column loc)
       }
     | None \<Rightarrow>
         map_option (\<lambda>(_, file, line). (file, line, None))
           (List.find (\<lambda>(loc_pc, _, _). loc_pc = a) (synthetic_locations entry))
   }"

definition find_location :: "ProgramRegistry \<Rightarrow> u64 \<Rightarrow> (string \<times> u32) option" where
  "find_location r a = map_option (\<lambda>(f, l, _). (f, l)) (find_location_with_column r a)"

definition owner_name :: "ProgramRegistry \<Rightarrow> u64 \<Rightarrow> string option" where
  "owner_name r a = map_option pe_name (owner r a)"

definition program_range :: "ProgramRegistry \<Rightarrow> string \<Rightarrow> range option" where
  "program_range r name = map_option pe_range (List.find (\<lambda>p. pe_name p = name) (programs r))"

section \<open>The registry is a first-match table\<close>

interpretation registry: first_match_table owner push_entry owns
  by unfold_locales
    (auto simp: owner_def push_entry_def find_append split: option.splits)

lemma owner_new [simp]: "owner new_registry a = None"
  by (simp add: owner_def new_registry_def)

lemma owner_owns: "owner r a = Some e \<Longrightarrow> owns e a \<and> e \<in> set (programs r)"
  unfolding owner_def by (rule find_Some_prop)

text \<open>What one entry answers, whoever else is registered.\<close>

definition entry_location :: "ProgramEntry \<Rightarrow> u64 \<Rightarrow> (string \<times> u32 \<times> u32 option) option" where
  "entry_location e a = find_location_with_column \<lparr>programs = [e]\<rparr> a"

lemma location_by_owner:
  "find_location_with_column r a = Option.bind (owner r a) (\<lambda>e. entry_location e a)"
  using owner_owns [of r a]
  by (cases "owner r a") (auto simp: find_location_with_column_def entry_location_def owner_def)

section \<open>Registrations in a row\<close>

text \<open>A client registers programs one after the other and goes on after a failure; the entry
  a registration makes, if it makes one.\<close>

datatype registration = Program string range bytes | Synthetic string range "(u64 \<times> string \<times> u32) list"

fun register_one :: "('d, 'z) elf_reader_scheme \<Rightarrow> ProgramRegistry \<Rightarrow> registration \<Rightarrow> ProgramRegistry" where
  "register_one R r (Program name rng elf) =
     (case add_program R r name rng elf of Inl e \<Rightarrow> r | Inr r' \<Rightarrow> r')"
| "register_one R r (Synthetic name rng locs) = add_synthetic_program r name rng locs"

fun entries_of :: "('d, 'z) elf_reader_scheme \<Rightarrow> registration \<Rightarrow> ProgramEntry list" where
  "entries_of R (Program name rng elf) =
     (case dwarf_parser_new R elf of
        Inl e \<Rightarrow> []
      | Inr dwarf \<Rightarrow> [\<lparr>pe_name = name, pe_range = rng, pe_dwarf = Some dwarf, synthetic_locations = []\<rparr>])"
| "entries_of R (Synthetic name rng locs) =
     [\<lparr>pe_name = name, pe_range = rng, pe_dwarf = None, synthetic_locations = locs\<rparr>]"

lemma register_one_pushes: "register_one R r g = fold push_entry (entries_of R g) r"
  by (cases g) (auto simp: add_program_def add_synthetic_program_def split: sum.splits)

lemma registrations_push:
  "foldl (register_one R) r gs = fold push_entry (concat (map (entries_of R) gs)) r"
  by (induction gs arbitrary: r) (simp_all add: register_one_pushes)

lemma pushed_first_match:
  "let r = fold push_entry es new_registry; first = List.find (\<lambda>e. owns e a) es in
     find_program r a = map_option (\<lambda>e. (pe_name e, pe_dwarf e)) first
   \<and> owner_name r a = map_option pe_name first
   \<and> find_location_with_column r a = Option.bind first (\<lambda>e. entry_location e a)
   \<and> find_location r a = map_option (\<lambda>(f, l, _). (f, l)) (Option.bind first (\<lambda>e. entry_location e a))"
  by (simp add: Let_def find_program_def owner_name_def find_location_def location_by_owner
      registry.lookup_fold)

section \<open>Properties\<close>

text \<open>
  C29: who answers. In a registry built by any sequence of registrations, of programs and of
  synthetic tables, some of which fail, every query about a program counter is answered by
  the first registered program whose range holds it, and by that program alone: its name,
  its debug information, and the location it would give if it were registered on its own. A
  registration that fails changes no answer, and a program counter no range holds gets no
  answer at all, even when some program has a location for it.
\<close>

theorem registry_first_match:
  "let r = foldl (register_one R) new_registry gs;
       first = List.find (\<lambda>e. owns e a) (concat (map (entries_of R) gs)) in
     find_program r a = map_option (\<lambda>e. (pe_name e, pe_dwarf e)) first
   \<and> owner_name r a = map_option pe_name first
   \<and> find_location_with_column r a = Option.bind first (\<lambda>e. entry_location e a)
   \<and> find_location r a = map_option (\<lambda>(f, l, _). (f, l)) (Option.bind first (\<lambda>e. entry_location e a))"
  unfolding registrations_push by (rule pushed_first_match)

text \<open>
  Registering never disturbs. Adding a program, real or synthetic, keeps the location
  of every program counter that had an owner, even one whose owner reports no location;
  when \<open>add_program\<close> fails it is because the debug information could not be parsed.
\<close>

theorem registering_is_conservative:
  assumes "owner r a = Some e"
  shows "find_location_with_column (add_synthetic_program r name rng locs) a
           = find_location_with_column r a
       \<and> (case add_program R r name rng elf of
            Inr r' \<Rightarrow> find_location_with_column r' a = find_location_with_column r a
          | Inl err \<Rightarrow> (\<exists>x. dwarf_parser_new R elf = Inl x \<and> err = DwarfForProgram name x))"
  using registry.lookup_stable [OF assms] assms
  by (simp add: add_program_def add_synthetic_program_def location_by_owner split: sum.splits)

definition sample_entry :: ProgramEntry where
  "sample_entry = \<lparr>pe_name = ''p'', pe_range = Range 10 20, pe_dwarf = None,
     synthetic_locations = [(12, ''p.rs'', 3)]\<rparr>"

theorem registering_is_conservative_witness:
  "find_location_with_column
     (add_synthetic_program \<lparr>programs = [sample_entry]\<rparr> ''q'' (Range 0 100) [(12, ''q.rs'', 9)]) 12
   = Some (''p.rs'', 3, None)"
  using conjunct1 [OF registering_is_conservative [where r = "\<lparr>programs = [sample_entry]\<rparr>" and a = 12
      and e = sample_entry and name = "''q''" and rng = "Range 0 100" and locs = "[(12, ''q.rs'', 9)]"]]
  by (simp add: owner_def owns_def sample_entry_def range_contains_def find_location_with_column_def)

end
