(* ===== verification/Sbf_Memory.thy ===== *)
theory Sbf_Memory
  imports Rust_Prelude "HOL-Library.Monad_Syntax"
begin

text \<open>
  \<open>src/sbf_memory.rs\<close>: the shadow of the guest memory, replayed one instruction at a time.
  The opcode numbers, the instruction size and the instruction decoder belong to the
  \<open>solana_sbpf\<close> crate; they are the record \<open>isa\<close>.
\<close>

section \<open>Regions\<close>

type_synonym region = "u64 \<times> bytes"

record ShadowMemory =
  regions :: "region list"
  moved_memory_instructions :: bool

datatype InstructionEffect = NoEffect | Store | MaybeSyscall

definition new_shadow :: "region list \<Rightarrow> bool \<Rightarrow> ShadowMemory" where
  "new_shadow initial moved = \<lparr>regions = initial, moved_memory_instructions = moved\<rparr>"

text \<open>The offsets of the access in one region, when it lies inside.\<close>

definition region_read :: "u64 \<Rightarrow> nat \<Rightarrow> region \<Rightarrow> bytes option" where
  "region_read addr len = (\<lambda>(start, bs). do {
     off \<leftarrow> checked_sub addr start;
     e \<leftarrow> usize_add (unat off) len;
     get_slice bs (unat off) e
   })"

definition read_mem :: "ShadowMemory \<Rightarrow> u64 \<Rightarrow> nat \<Rightarrow> bytes option" where
  "read_mem m addr len = find_map (region_read addr len) (regions m)"

fun write_regions :: "region list \<Rightarrow> u64 \<Rightarrow> bytes \<Rightarrow> region list" where
  "write_regions [] addr data = []"
| "write_regions ((start, bs) # rs) addr data =
     (case checked_sub addr start of
        None \<Rightarrow> (start, bs) # write_regions rs addr data
      | Some off \<Rightarrow>
          (case usize_add (unat off) (length data) of
             Some e \<Rightarrow>
               if e \<le> length bs then (start, splice bs (unat off) data) # rs
               else (start, bs) # write_regions rs addr data
           | None \<Rightarrow> (start, bs) # write_regions rs addr data))"

definition write_mem :: "ShadowMemory \<Rightarrow> u64 \<Rightarrow> bytes \<Rightarrow> ShadowMemory" where
  "write_mem m addr data = m\<lparr>regions := write_regions (regions m) addr data\<rparr>"

section \<open>Instructions\<close>

record Insn =
  opc :: u8
  dst :: u8
  src :: u8
  off :: "16 word"
  imm :: "64 word"

datatype opcode_name =
    CALL_IMM | CALL_REG | EXIT | MOV64_REG | ADD64_IMM
  | BPF_LDX | BPF_ST | BPF_STX | BPF_JMP64 | BPF_JMP32
  | ST_B_IMM | ST_H_IMM | ST_W_IMM | ST_DW_IMM
  | ST_B_REG | ST_H_REG | ST_W_REG | ST_DW_REG
  | ST_1B_IMM | ST_2B_IMM | ST_4B_IMM | ST_8B_IMM
  | ST_1B_REG | ST_2B_REG | ST_4B_REG | ST_8B_REG

record isa =
  INSN_SIZE :: nat
  get_insn_unchecked :: "bytes \<Rightarrow> nat \<Rightarrow> Insn"
  ebpf :: "opcode_name \<Rightarrow> u8"

definition store_kind :: "isa \<Rightarrow> bool \<Rightarrow> u8 \<Rightarrow> (nat \<times> bool) option" where
  "store_kind I moved op =
     (if moved then
        if op = ebpf I ST_1B_IMM then Some (1, False)
        else if op = ebpf I ST_2B_IMM then Some (2, False)
        else if op = ebpf I ST_4B_IMM then Some (4, False)
        else if op = ebpf I ST_8B_IMM then Some (8, False)
        else if op = ebpf I ST_1B_REG then Some (1, True)
        else if op = ebpf I ST_2B_REG then Some (2, True)
        else if op = ebpf I ST_4B_REG then Some (4, True)
        else if op = ebpf I ST_8B_REG then Some (8, True)
        else None
      else
        if op = ebpf I ST_B_IMM then Some (1, False)
        else if op = ebpf I ST_H_IMM then Some (2, False)
        else if op = ebpf I ST_W_IMM then Some (4, False)
        else if op = ebpf I ST_DW_IMM then Some (8, False)
        else if op = ebpf I ST_B_REG then Some (1, True)
        else if op = ebpf I ST_H_REG then Some (2, True)
        else if op = ebpf I ST_W_REG then Some (4, True)
        else if op = ebpf I ST_DW_REG then Some (8, True)
        else None)"

text \<open>\<open>None\<close> is an instruction slot outside the text; both products stop at 64 bits.\<close>

definition decode :: "isa \<Rightarrow> bytes \<Rightarrow> u64 \<Rightarrow> Insn option" where
  "decode I text a =
     (let start = unat a * INSN_SIZE I in
      if 2 ^ 64 \<le> start then None
      else (case usize_add start (INSN_SIZE I) of
              None \<Rightarrow> None
            | Some e \<Rightarrow> if e > length text then None
                        else Some (get_insn_unchecked I text (unat a))))"

text \<open>The address a store targets and the bytes it writes. A register number beyond the
  twelve the trace records is an index panic, \<open>None\<close>.\<close>

definition store_target :: "Insn \<Rightarrow> u64 list \<Rightarrow> u64 option" where
  "store_target insn regs = map_option (\<lambda>r. r + scast (off insn)) (nth_opt regs (unat (dst insn)))"

definition store_value :: "Insn \<Rightarrow> bool \<Rightarrow> u64 list \<Rightarrow> u64 option" where
  "store_value insn from_register regs =
     (if from_register then nth_opt regs (unat (src insn)) else Some (imm insn))"

definition apply_instruction ::
  "isa \<Rightarrow> ShadowMemory \<Rightarrow> bytes \<Rightarrow> u64 \<Rightarrow> u64 list \<Rightarrow> (InstructionEffect \<times> ShadowMemory) option" where
  "apply_instruction I m text a regs =
     (case decode I text a of
        None \<Rightarrow> Some (NoEffect, m)
      | Some insn \<Rightarrow>
          if opc insn = ebpf I CALL_IMM then Some (MaybeSyscall, m)
          else (case store_kind I (moved_memory_instructions m) (opc insn) of
                  None \<Rightarrow> Some (NoEffect, m)
                | Some (width, from_register) \<Rightarrow> do {
                    addr \<leftarrow> store_target insn regs;
                    v \<leftarrow> store_value insn from_register regs;
                    Some (Store, write_mem m addr (to_le width v))
                  }))"

section \<open>Byte memories\<close>

text \<open>
  What the replay relies on: a write that fits is read back, it disturbs nothing outside
  its own bytes, it never changes which accesses are mapped, and a write that does not fit
  changes nothing.
\<close>

definition disjoint_access :: "u64 \<Rightarrow> nat \<Rightarrow> u64 \<Rightarrow> nat \<Rightarrow> bool" where
  "disjoint_access a n b k \<longleftrightarrow> unat a + n \<le> unat b \<or> unat b + k \<le> unat a"

locale byte_memory =
  fixes rd :: "'m \<Rightarrow> u64 \<Rightarrow> nat \<Rightarrow> bytes option"
    and wr :: "'m \<Rightarrow> u64 \<Rightarrow> bytes \<Rightarrow> 'm"
  assumes read_write: "rd m a (length d) \<noteq> None \<Longrightarrow> rd (wr m a d) a (length d) = Some d"
    and read_frame: "disjoint_access a (length d) b n \<Longrightarrow> rd (wr m a d) b n = rd m b n"
    and read_mapped: "rd (wr m a d) b n = None \<longleftrightarrow> rd m b n = None"
    and write_dropped: "rd m a (length d) = None \<Longrightarrow> wr m a d = m"
begin

definition replay :: "(u64 \<times> bytes) list \<Rightarrow> 'm \<Rightarrow> 'm" where
  "replay js m = fold (\<lambda>(a, d) m. wr m a d) js m"

lemma replay_append: "replay (js @ ks) m = replay ks (replay js m)"
  by (simp add: replay_def)

lemma replay_mapped: "rd (replay js m) b n = None \<longleftrightarrow> rd m b n = None"
proof (induction js arbitrary: m)
  case (Cons j js)
  then show ?case by (simp add: replay_def read_mapped split: prod.splits)
qed (simp add: replay_def)

lemma replay_frame:
  "\<forall>(a, d)\<in>set js. disjoint_access a (length d) b n \<Longrightarrow> rd (replay js m) b n = rd m b n"
proof (induction js arbitrary: m)
  case (Cons j js)
  then show ?case by (cases j) (simp add: replay_def read_frame)
qed (simp add: replay_def)

text \<open>The last write to an access decides what is read there.\<close>

lemma replay_last:
  assumes "rd m a (length d) \<noteq> None"
    and "\<forall>(b, e)\<in>set ks. disjoint_access b (length e) a (length d)"
  shows "rd (replay (js @ (a, d) # ks) m) a (length d) = Some d"
proof -
  let ?m = "replay js m"
  have "rd ?m a (length d) \<noteq> None" using assms(1) by (simp add: replay_mapped)
  then have "rd (wr ?m a d) a (length d) = Some d" by (rule read_write)
  moreover have "replay (js @ (a, d) # ks) m = replay ks (wr ?m a d)"
    by (simp add: replay_def)
  ultimately show ?thesis by (simp only: replay_frame [OF assms(2)])
qed

end

section \<open>The shadow is a byte memory\<close>

lemma region_read_Some:
  "region_read a n (start, bs) = Some d \<longleftrightarrow>
   start \<le> a \<and> unat (a - start) + n < 2 ^ 64 \<and>
   get_slice bs (unat (a - start)) (unat (a - start) + n) = Some d"
  by (auto simp: region_read_def checked_sub_def usize_add_def)

lemma region_read_None:
  "region_read a n (start, bs) = None \<longleftrightarrow>
   \<not> (start \<le> a \<and> unat (a - start) + n < 2 ^ 64 \<and> unat (a - start) + n \<le> length bs)"
  by (auto simp: region_read_def checked_sub_def usize_add_def get_slice_def)

text \<open>The loop of \<open>write\<close> takes the first region in which the access can be read.\<close>

lemma write_regions_Cons:
  "write_regions (r # rs) a d =
     (case region_read a (length d) r of
        None \<Rightarrow> r # write_regions rs a d
      | Some _ \<Rightarrow> (fst r, splice (snd r) (unat (a - fst r)) d) # rs)"
proof -
  obtain start bs where r: "r = (start, bs)" by (cases r)
  show ?thesis
  proof (cases "region_read a (length d) r")
    case None
    with r have n: "region_read a (length d) (start, bs) = None" by simp
    from n [unfolded region_read_None] show ?thesis
      by (auto simp: n r checked_sub_def usize_add_def)
  next
    case (Some x)
    with r have n: "region_read a (length d) (start, bs) = Some x" by simp
    from n [unfolded region_read_Some] show ?thesis
      by (auto simp: n r checked_sub_def usize_add_def get_slice_def split: if_splits)
  qed
qed

lemma written_region_same:
  assumes "region_read a (length d) r = Some x"
  shows "region_read a (length d) (fst r, splice (snd r) (unat (a - fst r)) d) = Some d"
proof -
  obtain start bs where r: "r = (start, bs)" by (cases r)
  from assms have "unat (a - start) + length d \<le> length bs"
    unfolding r region_read_Some by (auto simp: get_slice_def split: if_splits)
  with assms show ?thesis unfolding r by (simp add: region_read_Some get_slice_splice_same)
qed

lemma written_region_mapped:
  assumes "region_read a (length d) r = Some x"
  shows "region_read b n (fst r, splice (snd r) (unat (a - fst r)) d) = None \<longleftrightarrow> region_read b n r = None"
proof -
  obtain start bs where r: "r = (start, bs)" by (cases r)
  from assms have "unat (a - start) + length d \<le> length bs"
    unfolding r region_read_Some by (auto simp: get_slice_def split: if_splits)
  then show ?thesis unfolding r by (simp add: region_read_None)
qed

lemma written_region_frame:
  assumes "region_read a (length d) r = Some x" "disjoint_access a (length d) b n"
  shows "region_read b n (fst r, splice (snd r) (unat (a - fst r)) d) = region_read b n r"
proof (cases "fst r \<le> b")
  case False
  then show ?thesis by (auto simp: region_read_def checked_sub_def split: prod.splits)
next
  case True
  obtain start bs where r: "r = (start, bs)" by (cases r)
  from assms(1) have a: "start \<le> a" "unat (a - start) + length d \<le> length bs"
    unfolding r region_read_Some by (auto simp: get_slice_def split: if_splits)
  have "unat (b - start) = unat b - unat start" "unat (a - start) = unat a - unat start"
    using True a r by (simp_all add: unat_sub)
  then have "unat (b - start) + n \<le> unat (a - start) \<or> unat (a - start) + length d \<le> unat (b - start)"
    using assms(2) True a(1) r by (auto simp: disjoint_access_def word_le_nat_alt)
  from get_slice_splice_other [OF a(2) this] show ?thesis
    unfolding r by (simp add: region_read_def checked_sub_def usize_add_def)
qed

lemma write_regions_read:
  "find_map (region_read a (length d)) rs \<noteq> None \<Longrightarrow>
   find_map (region_read a (length d)) (write_regions rs a d) = Some d"
  by (induction rs)
    (auto simp: write_regions_Cons written_region_same simp del: write_regions.simps split: option.splits)

lemma write_regions_mapped:
  "find_map (region_read b n) (write_regions rs a d) = None \<longleftrightarrow> find_map (region_read b n) rs = None"
proof (induction rs)
  case (Cons r rs)
  show ?case
  proof (cases "region_read a (length d) r")
    case None
    with Cons show ?thesis
      by (simp add: write_regions_Cons del: write_regions.simps split: option.splits)
  next
    case (Some x)
    then show ?thesis using written_region_mapped [OF Some, of b n]
      by (auto simp: write_regions_Cons simp del: write_regions.simps split: option.splits)
  qed
qed simp

lemma write_regions_frame:
  "disjoint_access a (length d) b n \<Longrightarrow>
   find_map (region_read b n) (write_regions rs a d) = find_map (region_read b n) rs"
  by (induction rs)
    (auto simp: write_regions_Cons written_region_frame simp del: write_regions.simps(2) split: option.splits)

lemma write_regions_dropped:
  "find_map (region_read a (length d)) rs = None \<Longrightarrow> write_regions rs a d = rs"
  by (induction rs)
    (auto simp: write_regions_Cons simp del: write_regions.simps(2) split: option.splits)

interpretation shadow: byte_memory read_mem write_mem
  by unfold_locales
    (simp_all add: read_mem_def write_mem_def write_regions_read write_regions_mapped
      write_regions_frame write_regions_dropped)

section \<open>Properties\<close>

text \<open>What a replayed store is: the instruction, its width, target and value, and the
  effect on every access, mapped or not, that meets the stored bytes or not.\<close>

definition stores ::
  "isa \<Rightarrow> ShadowMemory \<Rightarrow> bytes \<Rightarrow> u64 \<Rightarrow> u64 list \<Rightarrow> ShadowMemory \<Rightarrow> bool" where
  "stores I m text a regs m' \<longleftrightarrow>
     (\<exists>insn width reg addr v.
        decode I text a = Some insn \<and> opc insn \<noteq> ebpf I CALL_IMM
      \<and> store_kind I (moved_memory_instructions m) (opc insn) = Some (width, reg)
      \<and> store_target insn regs = Some addr \<and> store_value insn reg regs = Some v
      \<and> (if read_mem m addr width = None then m' = m
         else read_mem m' addr width = Some (to_le width v))
      \<and> (\<forall>b n. disjoint_access addr width b n \<longrightarrow> read_mem m' b n = read_mem m b n)
      \<and> (\<forall>b n. read_mem m' b n = None \<longleftrightarrow> read_mem m b n = None))"

lemma write_stores:
  assumes "decode I text a = Some insn" "opc insn \<noteq> ebpf I CALL_IMM"
    "store_kind I (moved_memory_instructions m) (opc insn) = Some (width, reg)"
    "store_target insn regs = Some addr" "store_value insn reg regs = Some v"
  shows "stores I m text a regs (write_mem m addr (to_le width v))"
proof -
  let ?m = "write_mem m addr (to_le width v)"
  have "if read_mem m addr width = None then ?m = m else read_mem ?m addr width = Some (to_le width v)"
    using shadow.read_write [of m addr "to_le width v"] shadow.write_dropped [of m addr "to_le width v"]
    by simp
  moreover have "\<forall>b n. disjoint_access addr width b n \<longrightarrow> read_mem ?m b n = read_mem m b n"
    using shadow.read_frame [of addr "to_le width v" _ _ m] by simp
  moreover have "\<forall>b n. read_mem ?m b n = None \<longleftrightarrow> read_mem m b n = None"
    by (simp add: shadow.read_mapped)
  ultimately show ?thesis using assms unfolding stores_def by blast
qed


text \<open>
  C28: the shadow after a journal. Once a list of writes has been replayed, an access whose
  bytes the write \<open>(a, d)\<close> covered and no later write met reads \<open>d\<close>, provided it is mapped
  in the initial image; an access no write met reads its initial contents.
\<close>

theorem journal_replayed:
  assumes "read_mem m a (length d) \<noteq> None"
    and "\<forall>(b, e)\<in>set ks. disjoint_access b (length e) a (length d)"
  shows "read_mem (fold (\<lambda>(a, d) m. write_mem m a d) (js @ (a, d) # ks) m) a (length d) = Some d
     \<and> read_mem (fold (\<lambda>(a, d) m. write_mem m a d) ks m) a (length d) = read_mem m a (length d)"
  using shadow.replay_last [OF assms] shadow.replay_frame [OF assms(2)]
  by (simp add: shadow.replay_def)

theorem journal_replayed_witness:
  "read_mem (fold (\<lambda>(a, d) m. write_mem m a d) [(4098, [9, 9]), (4096, [1, 2, 3, 4]), (4100, [7])]
     (new_shadow [(4096, replicate 8 0)] False)) 4096 4 = Some [1, 2, 3, 4]"
proof -
  let ?m = "new_shadow [(4096, replicate 8 0)] False"
  have mapped: "read_mem ?m 4096 (length [1, 2, 3, 4 :: u8]) \<noteq> None"
    by (simp add: new_shadow_def read_mem_def region_read_def checked_sub_def usize_add_def get_slice_def)
  have apart: "\<forall>(b, e)\<in>set [(4100, [7])]. disjoint_access b (length e) 4096 (length [1, 2, 3, 4 :: u8])"
    by (simp add: disjoint_access_def)
  from conjunct1 [OF journal_replayed [OF mapped apart, of "[(4098, [9, 9])]"]] show ?thesis
    by (simp add: eval_nat_numeral)
qed

end
