(* ===== verification/Syscalls.thy ===== *)
theory Syscalls
  imports Sbf_Memory
begin

text \<open>
  \<open>src/syscalls.rs\<close> and the context object of \<open>src/executor.rs\<close>: the twelve syscall
  handlers, the log of invocations and the journal of guest memory writes that the shadow
  memory replays. \<open>MemoryMapping::map\<close> of \<open>solana_sbpf\<close> is a function held by the context;
  the memory behind the raw host pointers is a function from host addresses to bytes.
\<close>

section \<open>State\<close>

record SyscallLogEntry =
  sle_name :: string
  sle_payload :: string

type_synonym journal = "(u64 \<times> bytes) list"

record SyscallState =
  log :: "SyscallLogEntry list"
  bump_pos :: u64
  heap_start :: u64
  heap_len :: u64
  mem_writes :: "journal list"

definition new_syscall_state :: "u64 \<Rightarrow> u64 \<Rightarrow> SyscallState" where
  "new_syscall_state hs hl =
     \<lparr>log = [], bump_pos = saturating_add hs hl, heap_start = hs, heap_len = hl, mem_writes = []\<rparr>"

definition log_text :: "SyscallState \<Rightarrow> string list" where
  "log_text s = map (\<lambda>e. sle_name e @ ''('' @ sle_payload e @ '')'') (log s)"

definition push_log :: "string \<Rightarrow> string \<Rightarrow> SyscallState \<Rightarrow> SyscallState" where
  "push_log name payload s =
     s\<lparr>log := log s @ [\<lparr>sle_name = name, sle_payload = payload\<rparr>], mem_writes := mem_writes s @ [[]]\<rparr>"

definition record_write :: "u64 \<Rightarrow> bytes \<Rightarrow> SyscallState \<Rightarrow> SyscallState" where
  "record_write vm_addr bs s =
     (if mem_writes s = [] then s
      else s\<lparr>mem_writes := butlast (mem_writes s) @ [last (mem_writes s) @ [(vm_addr, bs)]]\<rparr>)"

datatype access_type = AccessLoad | AccessStore

text \<open>The error of a handler: what the mapping reports, or a syscall error with its text.\<close>

datatype 'e ebpf_error = MappingError 'e | SyscallError string

type_synonym 'e mapping = "access_type \<Rightarrow> u64 \<Rightarrow> u64 \<Rightarrow> 'e + u64"

record 'e RecorderContext =
  remaining :: u64
  memory_mapping :: "'e mapping"
  syscall_state :: SyscallState
  host :: "u64 \<Rightarrow> u8"

definition consume :: "u64 \<Rightarrow> 'e RecorderContext \<Rightarrow> 'e RecorderContext" where
  "consume amount ctx = ctx\<lparr>remaining := saturating_sub (remaining ctx) amount\<rparr>"

definition get_remaining :: "'e RecorderContext \<Rightarrow> u64" where
  "get_remaining ctx = remaining ctx"

abbreviation with_state :: "(SyscallState \<Rightarrow> SyscallState) \<Rightarrow> 'e RecorderContext \<Rightarrow> 'e RecorderContext" where
  "with_state f ctx \<equiv> ctx\<lparr>syscall_state := f (syscall_state ctx)\<rparr>"

section \<open>Host memory\<close>

definition read_host :: "(u64 \<Rightarrow> u8) \<Rightarrow> u64 \<Rightarrow> nat \<Rightarrow> bytes" where
  "read_host h a n = map (\<lambda>i. h (a + of_nat i)) [0..<n]"

definition write_host :: "(u64 \<Rightarrow> u8) \<Rightarrow> u64 \<Rightarrow> bytes \<Rightarrow> u64 \<Rightarrow> u8" where
  "write_host h a d = (\<lambda>x. if unat (x - a) < length d then d ! unat (x - a) else h x)"

text \<open>\<open>copy_nonoverlapping\<close> is undefined when the two ranges meet.\<close>

definition overlaps :: "u64 \<Rightarrow> u64 \<Rightarrow> u64 \<Rightarrow> bool" where
  "overlaps a b n \<longleftrightarrow> unat (a - b) < unat n \<or> unat (b - a) < unat n"

definition copy_host :: "(u64 \<Rightarrow> u8) \<Rightarrow> u64 \<Rightarrow> u64 \<Rightarrow> u64 \<Rightarrow> u64 \<Rightarrow> u8" where
  "copy_host h from_addr to_addr n = write_host h to_addr (read_host h from_addr (unat n))"

definition read_slice :: "'e RecorderContext \<Rightarrow> u64 \<Rightarrow> u64 \<Rightarrow> 'e + bytes" where
  "read_slice ctx vm_addr len =
     (if len = 0 then Inr []
      else (case memory_mapping ctx AccessLoad vm_addr len of
              Inr host_addr \<Rightarrow> Inr (read_host (host ctx) host_addr (unat len))
            | Inl e \<Rightarrow> Inl e))"

definition stringify_payload :: "bytes \<Rightarrow> string" where
  "stringify_payload bs =
     (if utf8_valid bs then str_of_bytes bs
      else (let preview = concat (map hex_byte (take 32 bs)) in
            if length bs > 32 then ''hex:'' @ preview @ ''... ('' @ dec_nat (length bs) @ '' bytes)''
            else ''hex:'' @ preview))"

text \<open>What a handler does: return a value, fail, or undefined behaviour.\<close>

datatype 'e syscall_result = Returned u64 | Failed "'e ebpf_error" | Undefined

type_synonym 'e handler = "'e RecorderContext \<Rightarrow> u64 \<Rightarrow> u64 \<Rightarrow> u64 \<Rightarrow> u64 \<Rightarrow> u64 \<Rightarrow> 'e syscall_result \<times> 'e RecorderContext"

fun unwrap_or :: "'e + 'a \<Rightarrow> 'a \<Rightarrow> 'a" where
  "unwrap_or (Inr x) d = x"
| "unwrap_or (Inl e) d = d"

section \<open>Logging handlers\<close>

definition syscall_abort :: "'e handler" where
  "syscall_abort ctx a b c d e =
     (Failed (SyscallError ''program called abort()''), with_state (push_log ''abort'' '''') ctx)"

definition syscall_panic :: "'e handler" where
  "syscall_panic ctx file_ptr file_len line column e =
     (let file = (case read_slice ctx file_ptr file_len of
                    Inr b \<Rightarrow> stringify_payload b | Inl _ \<Rightarrow> ''<unreadable>'');
          place = file @ '':'' @ dec_word line @ '':'' @ dec_word column
      in (Failed (SyscallError (''program panicked at '' @ place)),
          with_state (push_log ''sol_panic_'' place) ctx))"

definition syscall_log :: "'e handler" where
  "syscall_log ctx msg_ptr msg_len c d e =
     (case read_slice ctx msg_ptr msg_len of
        Inl e \<Rightarrow> (Failed (MappingError e), ctx)
      | Inr bs \<Rightarrow> (Returned 0, with_state (push_log ''sol_log_'' (stringify_payload bs)) ctx))"

definition syscall_log_64 :: "'e handler" where
  "syscall_log_64 ctx a b c d e =
     (Returned 0, with_state (push_log ''sol_log_64_''
        (hex_prefixed a @ '' '' @ hex_prefixed b @ '' '' @ hex_prefixed c @ '' ''
         @ hex_prefixed d @ '' '' @ hex_prefixed e)) ctx)"

definition syscall_log_pubkey :: "'e handler" where
  "syscall_log_pubkey ctx pubkey_ptr b c d e =
     (Returned 0, with_state (push_log ''sol_log_pubkey''
        (stringify_payload (unwrap_or (read_slice ctx pubkey_ptr 32) []))) ctx)"

definition syscall_log_compute_units :: "'e handler" where
  "syscall_log_compute_units ctx a b c d e =
     (Returned 0, with_state (push_log ''sol_log_compute_units_''
        (''remaining='' @ dec_word (get_remaining ctx))) ctx)"

definition syscall_log_data :: "'e handler" where
  "syscall_log_data ctx slice_ptr slice_len c d e =
     (Returned 0, with_state (push_log ''sol_log_data''
        (stringify_payload (unwrap_or (read_slice ctx slice_ptr slice_len) []))) ctx)"

section \<open>Memory handlers\<close>

definition copy_payload :: "u64 \<Rightarrow> u64 \<Rightarrow> u64 \<Rightarrow> string" where
  "copy_payload dst_addr src_addr n =
     ''dst='' @ hex_prefixed dst_addr @ '' src='' @ hex_prefixed src_addr @ '' n='' @ dec_word n"

text \<open>The common end of the copying handlers: read back what is at the target and journal
  it.\<close>

definition copied :: "'e RecorderContext \<Rightarrow> u64 \<Rightarrow> u64 \<Rightarrow> u64 \<Rightarrow> u64 \<Rightarrow> 'e RecorderContext" where
  "copied ctx dst_addr src_host dst_host n =
     (let h = copy_host (host ctx) src_host dst_host n
      in with_state (record_write dst_addr (read_host h dst_host (unat n))) (ctx\<lparr>host := h\<rparr>))"

definition syscall_memcpy :: "'e handler" where
  "syscall_memcpy ctx0 dst_addr src_addr n d e =
     (let ctx = with_state (push_log ''sol_memcpy_'' (copy_payload dst_addr src_addr n)) ctx0 in
      if n = 0 then (Returned 0, ctx) else
      case memory_mapping ctx AccessLoad src_addr n of
        Inl e \<Rightarrow> (Failed (MappingError e), ctx)
      | Inr src_host \<Rightarrow>
          (case memory_mapping ctx AccessStore dst_addr n of
             Inl e \<Rightarrow> (Failed (MappingError e), ctx)
           | Inr dst_host \<Rightarrow>
               if overlaps src_host dst_host n then (Undefined, ctx)
               else (Returned 0, copied ctx dst_addr src_host dst_host n)))"

definition syscall_memmove :: "'e handler" where
  "syscall_memmove ctx0 dst_addr src_addr n d e =
     (let ctx = with_state (push_log ''sol_memmove_'' (copy_payload dst_addr src_addr n)) ctx0 in
      if n = 0 then (Returned 0, ctx) else
      case memory_mapping ctx AccessLoad src_addr n of
        Inl e \<Rightarrow> (Failed (MappingError e), ctx)
      | Inr src_host \<Rightarrow>
          (case memory_mapping ctx AccessStore dst_addr n of
             Inl e \<Rightarrow> (Failed (MappingError e), ctx)
           | Inr dst_host \<Rightarrow> (Returned 0, copied ctx dst_addr src_host dst_host n)))"

definition syscall_memset :: "'e handler" where
  "syscall_memset ctx0 dst_addr val n d e =
     (let ctx = with_state (push_log ''sol_memset_''
                  (''dst='' @ hex_prefixed dst_addr @ '' val='' @ hex_prefixed val
                   @ '' n='' @ dec_word n)) ctx0 in
      if n = 0 then (Returned 0, ctx) else
      case memory_mapping ctx AccessStore dst_addr n of
        Inl e \<Rightarrow> (Failed (MappingError e), ctx)
      | Inr dst_host \<Rightarrow>
          (let fill = replicate (unat n) (ucast val)
           in (Returned 0, with_state (record_write dst_addr fill)
                (ctx\<lparr>host := write_host (host ctx) dst_host fill\<rparr>))))"

text \<open>\<open>Ord\<close> on byte slices.\<close>

fun cmp_bytes :: "bytes \<Rightarrow> bytes \<Rightarrow> 32 word" where
  "cmp_bytes [] [] = 0"
| "cmp_bytes [] (b # bs) = - 1"
| "cmp_bytes (a # as) [] = 1"
| "cmp_bytes (a # as) (b # bs) =
     (if a < b then - 1 else if b < a then 1 else cmp_bytes as bs)"

definition compare_ranges :: "'e RecorderContext \<Rightarrow> u64 \<Rightarrow> u64 \<Rightarrow> u64 \<Rightarrow> 'e + 32 word" where
  "compare_ranges ctx s1_addr s2_addr n =
     (if n = 0 then Inr 0 else
      case memory_mapping ctx AccessLoad s1_addr n of
        Inl e \<Rightarrow> Inl e
      | Inr s1_host \<Rightarrow>
          (case memory_mapping ctx AccessLoad s2_addr n of
             Inl e \<Rightarrow> Inl e
           | Inr s2_host \<Rightarrow> Inr (cmp_bytes (read_host (host ctx) s1_host (unat n))
                                         (read_host (host ctx) s2_host (unat n)))))"

definition syscall_memcmp :: "'e handler" where
  "syscall_memcmp ctx0 s1_addr s2_addr n result_addr e =
     (let ctx = with_state (push_log ''sol_memcmp_''
                  (''s1='' @ hex_prefixed s1_addr @ '' s2='' @ hex_prefixed s2_addr
                   @ '' n='' @ dec_word n)) ctx0 in
      case compare_ranges ctx s1_addr s2_addr n of
        Inl e \<Rightarrow> (Failed (MappingError e), ctx)
      | Inr cmp_val \<Rightarrow>
          (case memory_mapping ctx AccessStore result_addr 4 of
             Inl e \<Rightarrow> (Failed (MappingError e), ctx)
           | Inr result_host \<Rightarrow>
               (Returned 0, with_state (record_write result_addr (to_le 4 cmp_val))
                  (ctx\<lparr>host := write_host (host ctx) result_host (to_le 4 cmp_val)\<rparr>))))"

definition syscall_alloc_free :: "'e handler" where
  "syscall_alloc_free ctx0 sz free_addr c d e =
     (let ctx = with_state (push_log ''sol_alloc_free_''
                  (''size='' @ dec_word sz @ '' free='' @ hex_prefixed free_addr)) ctx0;
          state = syscall_state ctx;
          aligned = and (saturating_sub (bump_pos state) sz) (not 7) in
      if free_addr \<noteq> 0 then (Returned 0, ctx)
      else if aligned < saturating_add (heap_start state) 8 then (Returned 0, ctx)
      else (Returned aligned, with_state (\<lambda>s. s\<lparr>bump_pos := aligned\<rparr>) ctx))"

section \<open>Registration\<close>

datatype syscall =
    SyscallAbort | SyscallSolPanic | SyscallSolLog | SyscallSolLog64 | SyscallSolLogPubkey
  | SyscallSolLogComputeUnits | SyscallSolLogData | SyscallSolMemcpy | SyscallSolMemmove
  | SyscallSolMemset | SyscallSolMemcmp | SyscallSolAllocFree

fun handle :: "syscall \<Rightarrow> 'e handler" where
  "handle SyscallAbort = syscall_abort"
| "handle SyscallSolPanic = syscall_panic"
| "handle SyscallSolLog = syscall_log"
| "handle SyscallSolLog64 = syscall_log_64"
| "handle SyscallSolLogPubkey = syscall_log_pubkey"
| "handle SyscallSolLogComputeUnits = syscall_log_compute_units"
| "handle SyscallSolLogData = syscall_log_data"
| "handle SyscallSolMemcpy = syscall_memcpy"
| "handle SyscallSolMemmove = syscall_memmove"
| "handle SyscallSolMemset = syscall_memset"
| "handle SyscallSolMemcmp = syscall_memcmp"
| "handle SyscallSolAllocFree = syscall_alloc_free"

definition registrations :: "(syscall \<times> string) list" where
  "registrations =
     [(SyscallAbort, ''abort''), (SyscallSolPanic, ''sol_panic_''), (SyscallSolLog, ''sol_log_''),
      (SyscallSolLog64, ''sol_log_64_''), (SyscallSolLogPubkey, ''sol_log_pubkey''),
      (SyscallSolLogComputeUnits, ''sol_log_compute_units_''), (SyscallSolLogData, ''sol_log_data''),
      (SyscallSolMemcpy, ''sol_memcpy_''), (SyscallSolMemmove, ''sol_memmove_''),
      (SyscallSolMemset, ''sol_memset_''), (SyscallSolMemcmp, ''sol_memcmp_''),
      (SyscallSolAllocFree, ''sol_alloc_free_'')]"

text \<open>\<open>reg\<close> stands for the loader's own registration of one handler under one name.\<close>

fun register_list :: "('l \<Rightarrow> syscall \<Rightarrow> string \<Rightarrow> 'x + 'l) \<Rightarrow> (syscall \<times> string) list \<Rightarrow> 'l \<Rightarrow> 'x + 'l" where
  "register_list reg [] loader = Inr loader"
| "register_list reg ((s, n) # rs) loader =
     (case reg loader s n of Inl x \<Rightarrow> Inl x | Inr loader' \<Rightarrow> register_list reg rs loader')"

definition register :: "('l \<Rightarrow> syscall \<Rightarrow> string \<Rightarrow> 'x + 'l) \<Rightarrow> 'l \<Rightarrow> 'x + 'l" where
  "register reg loader = register_list reg registrations loader"

section \<open>Host memory lemmas\<close>

lemma length_read_host [simp]: "length (read_host h a n) = n"
  by (simp add: read_host_def)

lemma unat_offset [simp]: "i < 2 ^ 64 \<Longrightarrow> unat (a + of_nat i - a) = i" for a :: u64
  by (simp add: unat_of_nat)

lemma read_back: "length d \<le> 2 ^ 64 \<Longrightarrow> read_host (write_host h a d) a (length d) = d"
  by (rule nth_equalityI) (auto simp: read_host_def write_host_def unat_of_nat)

text \<open>A write inside a host buffer splices its image, a write elsewhere leaves it.\<close>

definition host_apart :: "u64 \<Rightarrow> nat \<Rightarrow> u64 \<Rightarrow> nat \<Rightarrow> bool" where
  "host_apart a n b k \<longleftrightarrow> unat a + n \<le> unat b \<or> unat b + k \<le> unat a"

lemma read_host_inside:
  assumes "unat hs + l \<le> 2 ^ 64" "unat o' + length d \<le> l"
  shows "read_host (write_host h (hs + o') d) hs l = splice (read_host h hs l) (unat o') d"
proof (rule nth_equalityI)
  fix i assume "i < length (read_host (write_host h (hs + o') d) hs l)"
  then have i: "i < l" by simp
  then have small: "i < 2 ^ 64" using assms(1) by linarith
  have e: "hs + of_nat i - (hs + o') = of_nat i - o'" by simp
  have "unat (of_nat i - o') < length d \<longleftrightarrow> unat o' \<le> i \<and> i < unat o' + length d"
    and "unat o' \<le> i \<Longrightarrow> unat (of_nat i - o') = i - unat o'"
  proof -
    have u: "unat (of_nat i :: u64) = i" using small by (simp add: unat_of_nat)
    show k: "unat o' \<le> i \<Longrightarrow> unat (of_nat i - o') = i - unat o'"
      using u by (simp add: unat_sub word_le_nat_alt)
    have "unat (of_nat i - o') = 2 ^ 64 + i - unat o'" if "i < unat o'"
      using u that unat_sub_if' [of "of_nat i" o'] by (simp add: word_le_nat_alt)
    then have "\<not> unat (of_nat i - o') < length d" if "i < unat o'"
      using that assms unat_lt [of o'] by simp
    with k show "unat (of_nat i - o') < length d \<longleftrightarrow> unat o' \<le> i \<and> i < unat o' + length d"
      by (cases "unat o' \<le> i") auto
  qed
  with i assms(2) show "read_host (write_host h (hs + o') d) hs l ! i = splice (read_host h hs l) (unat o') d ! i"
    by (simp add: read_host_def write_host_def nth_splice e)
qed (use assms in simp)

lemma read_host_outside:
  assumes "host_apart x (length d) hs l" "unat hs + l \<le> 2 ^ 64" "unat x + length d \<le> 2 ^ 64"
  shows "read_host (write_host h x d) hs l = read_host h hs l"
proof -
  have "\<not> unat (hs + of_nat i - x) < length d" if "i < l" for i
  proof -
    have "unat (hs + of_nat i) = unat hs + i"
      using that assms(2) by (simp add: unat_word_ariths unat_of_nat)
    then show ?thesis
      using that assms unat_sub_if' [of "hs + of_nat i" x]
      by (auto simp: host_apart_def word_le_nat_alt split: if_splits)
  qed
  then show ?thesis by (simp add: read_host_def write_host_def)
qed

section \<open>Guest memory and its shadow\<close>

text \<open>
  The guest regions as the executor lays them out: guest address, address of the host
  buffer, length. \<open>region_image\<close> is what the shadow should hold; the mapping hypothesis is
  the documented behaviour of \<open>MemoryMapping::map\<close>: an access is translated only inside one
  region, linearly.
\<close>

type_synonym layout = "(u64 \<times> u64 \<times> nat) list"

definition region_image :: "(u64 \<Rightarrow> u8) \<Rightarrow> layout \<Rightarrow> region list" where
  "region_image h rs = map (\<lambda>(v, hs, l). (v, read_host h hs l)) rs"

definition maps_regions :: "'e mapping \<Rightarrow> layout \<Rightarrow> bool" where
  "maps_regions f rs \<longleftrightarrow>
     (\<forall>acc a n x. f acc a n = Inr x \<longrightarrow>
        (\<exists>(v, hs, l)\<in>set rs. v \<le> a \<and> unat (a - v) + unat n \<le> l \<and> x = hs + (a - v)))"

fun regions_apart :: "layout \<Rightarrow> bool" where
  "regions_apart [] \<longleftrightarrow> True"
| "regions_apart ((v, hs, l) # rs) \<longleftrightarrow>
     unat v + l < 2 ^ 64 \<and> unat hs + l < 2 ^ 64
   \<and> (\<forall>(v', hs', l')\<in>set rs. host_apart v l v' l' \<and> host_apart hs l hs' l')
   \<and> regions_apart rs"

lemma regions_apart_bounds:
  "regions_apart rs \<Longrightarrow> (v, hs, l) \<in> set rs \<Longrightarrow> unat v + l < 2 ^ 64 \<and> unat hs + l < 2 ^ 64"
  by (induction rs) auto

lemma write_misses_region:
  assumes "host_apart v l v' l'" "v' \<le> a" "unat (a - v') + length d \<le> l'" "d \<noteq> []" "length bs = l"
  shows "region_read a (length d) (v, bs) = None"
proof -
  have a: "unat (a - v') = unat a - unat v'" "unat v' \<le> unat a"
    using assms(2) by (simp_all add: unat_sub word_le_nat_alt)
  have "length d > 0" using assms(4) by simp
  with a assms(1,3) have "unat a < unat v \<or> unat v + l < unat a + length d"
    unfolding host_apart_def by linarith
  moreover have "unat (a - v) = unat a - unat v" if "v \<le> a" using that by (rule unat_sub)
  ultimately have "\<not> (v \<le> a \<and> unat (a - v) + length d \<le> l)"
    by (auto simp: word_le_nat_alt)
  then show ?thesis using assms(5) by (auto simp: region_read_None)
qed

lemma inside_host_apart:
  assumes "unat hs' + l' < 2 ^ 64" "host_apart hs l hs' l'" "unat x + k \<le> l'"
  shows "host_apart (hs' + x) k hs l" "unat (hs' + x) + k \<le> 2 ^ 64"
proof -
  have "unat (hs' + x) = unat hs' + unat x" using assms by (simp add: unat_word_ariths)
  with assms show "host_apart (hs' + x) k hs l" "unat (hs' + x) + k \<le> 2 ^ 64"
    by (auto simp: host_apart_def)
qed

lemma region_image_untouched:
  assumes "regions_apart rs" "\<And>v' hs' l'. (v', hs', l') \<in> set rs \<Longrightarrow> host_apart hs l hs' l'"
    and "unat hs + l < 2 ^ 64" "unat o' + length d \<le> l"
  shows "region_image (write_host h (hs + o') d) rs = region_image h rs"
  unfolding region_image_def
proof (rule map_cong [OF refl])
  fix r' assume m: "r' \<in> set rs"
  obtain v' hs' l' where r': "r' = (v', hs', l')" by (cases r')
  have "host_apart hs' l' hs l" using assms(2) m r' by (auto simp: host_apart_def)
  moreover have "unat hs' + l' \<le> 2 ^ 64" using regions_apart_bounds [OF assms(1)] m r' by fastforce
  ultimately have "read_host (write_host h (hs + o') d) hs' l' = read_host h hs' l'"
    using inside_host_apart [of hs l hs' l' o' "length d"] assms(3,4) by (intro read_host_outside) auto
  then show "(case r' of (v', hs', l') \<Rightarrow> (v', read_host (write_host h (hs + o') d) hs' l'))
      = (case r' of (v', hs', l') \<Rightarrow> (v', read_host h hs' l'))" by (simp add: r')
qed

lemma write_image:
  assumes "regions_apart rs" "(v, hs, l) \<in> set rs" "v \<le> a" "unat (a - v) + length d \<le> l" "d \<noteq> []"
  shows "write_regions (region_image h rs) a d = region_image (write_host h (hs + (a - v)) d) rs"
  using assms
proof (induction rs)
  case (Cons r rs)
  obtain v1 hs1 l1 where r: "r = (v1, hs1, l1)" by (cases r)
  from Cons.prems(1) r have b1: "unat v1 + l1 < 2 ^ 64" "unat hs1 + l1 < 2 ^ 64"
    and apart: "\<And>v' hs' l'. (v', hs', l') \<in> set rs \<Longrightarrow> host_apart v1 l1 v' l' \<and> host_apart hs1 l1 hs' l'"
    and rs: "regions_apart rs"
    by auto
  have img: "region_image g (r # rs) = (v1, read_host g hs1 l1) # region_image g rs" for g
    by (simp add: region_image_def r)
  show ?case
  proof (cases "(v, hs, l) \<in> set rs")
    case True
    have b: "unat hs + l < 2 ^ 64" using regions_apart_bounds [OF rs True] by simp
    have "region_read a (length d) (v1, read_host h hs1 l1) = None"
      by (rule write_misses_region [where l = l1 and v' = v and l' = l]) (use apart [OF True] Cons.prems in auto)
    moreover have "read_host (write_host h (hs + (a - v)) d) hs1 l1 = read_host h hs1 l1"
      using inside_host_apart [OF b _ Cons.prems(4), of hs1 l1] apart [OF True] b1
      by (intro read_host_outside) auto
    ultimately show ?thesis using Cons.IH [OF rs True] Cons.prems
      by (simp add: img write_regions_Cons del: write_regions.simps)
  next
    case False
    with Cons.prems r have eq: "v1 = v" "hs1 = hs" "l1 = l" by auto
    have "unat (a - v) + length d < 2 ^ 64" using Cons.prems(4) b1 eq by linarith
    then obtain x where "region_read a (length d) (v, read_host h hs l) = Some x"
      using Cons.prems by (cases "region_read a (length d) (v, read_host h hs l)") (auto simp: region_read_None)
    moreover have "read_host (write_host h (hs + (a - v)) d) hs l
        = splice (read_host h hs l) (unat (a - v)) d"
      by (rule read_host_inside) (use b1 eq Cons.prems in auto)
    moreover have "region_image (write_host h (hs + (a - v)) d) rs = region_image h rs"
      by (rule region_image_untouched [where l = l]) (use rs apart b1 eq Cons.prems in auto)
    ultimately show ?thesis by (simp add: img eq write_regions_Cons del: write_regions.simps)
  qed
qed simp

section \<open>Every handler leaves one log entry and one journal\<close>

text \<open>What an invocation may do to guest memory: nothing, or one journaled write that the
  mapping allowed.\<close>

definition journaled :: "'e RecorderContext \<Rightarrow> journal \<Rightarrow> 'e RecorderContext \<Rightarrow> bool" where
  "journaled ctx js ctx' \<longleftrightarrow>
     js = [] \<and> host ctx' = host ctx
   \<or> (\<exists>a n d x. js = [(a, d)] \<and> memory_mapping ctx AccessStore a n = Inr x
        \<and> length d = unat n \<and> d \<noteq> [] \<and> host ctx' = write_host (host ctx) x d)"

definition invoked :: "syscall \<Rightarrow> 'e RecorderContext \<Rightarrow> journal \<Rightarrow> 'e RecorderContext \<Rightarrow> bool" where
  "invoked s ctx js ctx' \<longleftrightarrow>
     (\<exists>name payload. (s, name) \<in> set registrations
        \<and> log (syscall_state ctx') = log (syscall_state ctx) @ [\<lparr>sle_name = name, sle_payload = payload\<rparr>])
   \<and> mem_writes (syscall_state ctx') = mem_writes (syscall_state ctx) @ [js]
   \<and> memory_mapping ctx' = memory_mapping ctx
   \<and> journaled ctx js ctx'"

lemma push_log_proj [simp]:
  "log (push_log n p s) = log s @ [\<lparr>sle_name = n, sle_payload = p\<rparr>]"
  "mem_writes (push_log n p s) = mem_writes s @ [[]]"
  "bump_pos (push_log n p s) = bump_pos s" "heap_start (push_log n p s) = heap_start s"
  by (simp_all add: push_log_def)

lemma record_write_proj [simp]:
  "log (record_write a d s) = log s"
  "bump_pos (record_write a d s) = bump_pos s" "heap_start (record_write a d s) = heap_start s"
  "mem_writes (record_write a d (push_log n p s)) = mem_writes s @ [[(a, d)]]"
  by (simp_all add: record_write_def)

lemma registered [simp]: "(s, n) \<in> set registrations \<longleftrightarrow>
  n = (case s of SyscallAbort \<Rightarrow> ''abort'' | SyscallSolPanic \<Rightarrow> ''sol_panic_''
   | SyscallSolLog \<Rightarrow> ''sol_log_'' | SyscallSolLog64 \<Rightarrow> ''sol_log_64_''
   | SyscallSolLogPubkey \<Rightarrow> ''sol_log_pubkey''
   | SyscallSolLogComputeUnits \<Rightarrow> ''sol_log_compute_units_''
   | SyscallSolLogData \<Rightarrow> ''sol_log_data'' | SyscallSolMemcpy \<Rightarrow> ''sol_memcpy_''
   | SyscallSolMemmove \<Rightarrow> ''sol_memmove_'' | SyscallSolMemset \<Rightarrow> ''sol_memset_''
   | SyscallSolMemcmp \<Rightarrow> ''sol_memcmp_'' | SyscallSolAllocFree \<Rightarrow> ''sol_alloc_free_'')"
  by (cases s) (simp_all add: registrations_def)

lemma invoked_quiet:
  assumes "(s, n) \<in> set registrations" "ctx' = with_state (\<lambda>st. f (push_log n p st)) ctx"
    "\<And>st. log (f st) = log st" "\<And>st. mem_writes (f st) = mem_writes st"
  shows "\<exists>js. invoked s ctx js ctx'"
  using assms by (intro exI [of _ "[]"]) (simp add: invoked_def journaled_def)

lemma invoked_write:
  assumes "memory_mapping ctx AccessStore a k = Inr x"
    "(s, n) \<in> set registrations" "length d = unat k" "k \<noteq> 0"
  shows "\<exists>js. invoked s ctx js (ctx\<lparr>host := write_host (host ctx) x d,
           syscall_state := record_write a d (push_log n p (syscall_state ctx))\<rparr>)"
proof -
  have "d \<noteq> []" using assms(3,4) by (auto simp: unat_eq_0)
  with assms show ?thesis by (intro exI [of _ "[(a, d)]"]) (auto simp: invoked_def journaled_def)
qed

lemma copied_eq:
  "copied ctx a s x n =
     ctx\<lparr>host := write_host (host ctx) x (read_host (host ctx) s (unat n)),
         syscall_state := record_write a (read_host (host ctx) s (unat n)) (syscall_state ctx)\<rparr>"
proof -
  have "unat n \<le> 2 ^ 64" using unat_lt [of n] by simp
  then have "read_host (copy_host (host ctx) s x n) x (unat n) = read_host (host ctx) s (unat n)"
    using read_back [of "read_host (host ctx) s (unat n)"] by (simp add: copy_host_def)
  then show ?thesis by (simp add: copied_def Let_def copy_host_def)
qed

lemmas quiet = invoked_quiet [where f = "\<lambda>st. st", OF _ refl refl refl]

lemma memmove_invoked: "syscall_memmove ctx a b c d e = (r, ctx') \<Longrightarrow> \<exists>js. invoked SyscallSolMemmove ctx js ctx'"
  by (auto simp: syscall_memmove_def Let_def copied_eq split: if_splits sum.splits
      intro!: quiet intro: invoked_write [where k = c])

lemma memcpy_invoked: "syscall_memcpy ctx a b c d e = (r, ctx') \<Longrightarrow> \<exists>js. invoked SyscallSolMemcpy ctx js ctx'"
  by (auto simp: syscall_memcpy_def Let_def copied_eq split: if_splits sum.splits
      intro!: quiet intro: invoked_write [where k = c])

lemma memset_invoked: "syscall_memset ctx a b c d e = (r, ctx') \<Longrightarrow> \<exists>js. invoked SyscallSolMemset ctx js ctx'"
  by (auto simp: syscall_memset_def Let_def split: if_splits sum.splits
      intro!: quiet intro: invoked_write [where k = c])

lemma memcmp_invoked: "syscall_memcmp ctx a b c d e = (r, ctx') \<Longrightarrow> \<exists>js. invoked SyscallSolMemcmp ctx js ctx'"
  by (auto simp: syscall_memcmp_def Let_def split: if_splits sum.splits
      intro!: quiet intro: invoked_write [where k = 4])

lemma alloc_invoked: "syscall_alloc_free ctx a b c d e = (r, ctx') \<Longrightarrow> \<exists>js. invoked SyscallSolAllocFree ctx js ctx'"
  by (auto simp: syscall_alloc_free_def Let_def split: if_splits
      intro!: quiet intro: invoked_quiet [where f = "\<lambda>st. st\<lparr>bump_pos := p\<rparr>" for p])

lemma log_invoked:
  "syscall_log ctx a b c d e = (r, ctx') \<Longrightarrow>
   (\<exists>js. invoked SyscallSolLog ctx js ctx') \<or> ctx' = ctx \<and> (\<exists>x. r = Failed (MappingError x))"
  by (auto simp: syscall_log_def split: sum.splits intro!: quiet)

lemma reporting_invoked:
  "syscall_abort ctx a b c d e = (r, ctx') \<Longrightarrow> \<exists>js. invoked SyscallAbort ctx js ctx'"
  "syscall_panic ctx a b c d e = (r, ctx') \<Longrightarrow> \<exists>js. invoked SyscallSolPanic ctx js ctx'"
  "syscall_log_64 ctx a b c d e = (r, ctx') \<Longrightarrow> \<exists>js. invoked SyscallSolLog64 ctx js ctx'"
  "syscall_log_pubkey ctx a b c d e = (r, ctx') \<Longrightarrow> \<exists>js. invoked SyscallSolLogPubkey ctx js ctx'"
  "syscall_log_compute_units ctx a b c d e = (r, ctx') \<Longrightarrow> \<exists>js. invoked SyscallSolLogComputeUnits ctx js ctx'"
  "syscall_log_data ctx a b c d e = (r, ctx') \<Longrightarrow> \<exists>js. invoked SyscallSolLogData ctx js ctx'"
  by (auto simp: syscall_abort_def syscall_panic_def syscall_log_64_def syscall_log_pubkey_def
      syscall_log_compute_units_def syscall_log_data_def Let_def intro!: quiet)

lemma handle_invoked:
  "handle s ctx a b c d e = (r, ctx') \<Longrightarrow>
   (\<exists>js. invoked s ctx js ctx')
   \<or> s = SyscallSolLog \<and> ctx' = ctx \<and> (\<exists>x. r = Failed (MappingError x))"
  by (cases s)
    (simp_all add: reporting_invoked log_invoked memcpy_invoked memmove_invoked memset_invoked
      memcmp_invoked alloc_invoked)

section \<open>Replaying the journal\<close>

definition replay_journal :: "journal \<Rightarrow> ShadowMemory \<Rightarrow> ShadowMemory" where
  "replay_journal js m = fold (\<lambda>(a, d) m. write_mem m a d) js m"

definition mirrors :: "ShadowMemory \<Rightarrow> layout \<Rightarrow> 'e RecorderContext \<Rightarrow> bool" where
  "mirrors m rs ctx \<longleftrightarrow> regions m = region_image (host ctx) rs"

lemma journaled_mirrors:
  assumes "maps_regions (memory_mapping ctx) rs" "regions_apart rs" "mirrors m rs ctx"
    "journaled ctx js ctx'"
  shows "mirrors (replay_journal js m) rs ctx'"
proof (cases "js = []")
  case True
  with assms show ?thesis by (auto simp: journaled_def mirrors_def replay_journal_def)
next
  case False
  with assms(4) obtain a n d x where js: "js = [(a, d)]" "memory_mapping ctx AccessStore a n = Inr x"
    and d: "length d = unat n" "d \<noteq> []" "host ctx' = write_host (host ctx) x d"
    unfolding journaled_def by blast
  with assms(1) obtain v hs l where r: "(v, hs, l) \<in> set rs" "v \<le> a" "unat (a - v) + length d \<le> l"
    and x: "x = hs + (a - v)"
    unfolding maps_regions_def by fastforce
  from write_image [OF assms(2) r d(2)] js d x assms(3) show ?thesis
    by (simp add: mirrors_def replay_journal_def write_mem_def)
qed

text \<open>A run of syscalls as the VM makes them: it ends when one fails.\<close>

type_synonym call = "syscall \<times> u64 \<times> u64 \<times> u64 \<times> u64 \<times> u64"

fun run_syscalls :: "call list \<Rightarrow> 'e RecorderContext \<Rightarrow> 'e RecorderContext option" where
  "run_syscalls [] ctx = Some ctx"
| "run_syscalls ((s, a, b, c, d, e) # cs) ctx =
     (case handle s ctx a b c d e of
        (Returned v, ctx') \<Rightarrow> run_syscalls cs ctx'
      | (Failed x, ctx') \<Rightarrow> Some ctx'
      | (Undefined, ctx') \<Rightarrow> None)"

definition aligned_state :: "SyscallState \<Rightarrow> bool" where
  "aligned_state s \<longleftrightarrow> length (mem_writes s) = length (log s)"

lemma invoked_aligned:
  "invoked s ctx js ctx' \<Longrightarrow> aligned_state (syscall_state ctx) \<Longrightarrow> aligned_state (syscall_state ctx')"
  by (auto simp: invoked_def aligned_state_def)

lemma replay_concat: "replay_journal (concat (jss @ [js])) m = replay_journal js (replay_journal (concat jss) m)"
  by (simp add: replay_journal_def)

text \<open>The state a run keeps: the log and the journal aligned, the mapping untouched, and
  the journal so far reproducing guest memory from the initial image.\<close>

definition reproduces :: "ShadowMemory \<Rightarrow> layout \<Rightarrow> 'e mapping \<Rightarrow> 'e RecorderContext \<Rightarrow> bool" where
  "reproduces m rs f ctx \<longleftrightarrow>
     memory_mapping ctx = f \<and> aligned_state (syscall_state ctx)
   \<and> mirrors (replay_journal (concat (mem_writes (syscall_state ctx))) m) rs ctx"

lemma invoked_reproduces:
  assumes "maps_regions f rs" "regions_apart rs" "reproduces m rs f ctx" "invoked s ctx js ctx'"
  shows "reproduces m rs f ctx'"
proof -
  let ?m = "replay_journal (concat (mem_writes (syscall_state ctx))) m"
  have "journaled ctx js ctx'" "mem_writes (syscall_state ctx') = mem_writes (syscall_state ctx) @ [js]"
    using assms(4) by (auto simp: invoked_def)
  moreover have "mirrors (replay_journal js ?m) rs ctx'"
    by (rule journaled_mirrors) (use assms calculation in \<open>auto simp: reproduces_def\<close>)
  ultimately show ?thesis
    using assms(3,4) invoked_aligned [OF assms(4)] by (auto simp: reproduces_def invoked_def replay_concat simp del: concat_append)
qed

lemma handle_reproduces:
  "maps_regions f rs \<Longrightarrow> regions_apart rs \<Longrightarrow> reproduces m rs f ctx \<Longrightarrow>
   handle s ctx a b c d e = (r, ctx') \<Longrightarrow> reproduces m rs f ctx'"
  using handle_invoked [of s ctx a b c d e r ctx'] invoked_reproduces [of f rs m ctx s _ ctx'] by auto

lemma run_reproduces:
  "maps_regions f rs \<Longrightarrow> regions_apart rs \<Longrightarrow> reproduces m rs f ctx \<Longrightarrow>
   run_syscalls cs ctx = Some ctx' \<Longrightarrow> reproduces m rs f ctx'"
proof (induction cs arbitrary: ctx)
  case (Cons call cs)
  obtain s a b c d e where call: "call = (s, a, b, c, d, e)" by (cases call)
  obtain r ctx1 where h: "handle s ctx a b c d e = (r, ctx1)" by (cases "handle s ctx a b c d e")
  from handle_reproduces [OF Cons.prems(1-3) h] Cons call h show ?case
    by (cases r) auto
qed simp

section \<open>The bump allocator\<close>

text \<open>
  What a caller of an allocator that only moves its top downward relies on: a block lies
  below the old top and above the new one, a refusal moves nothing.
\<close>

fun run_alloc :: "('s \<Rightarrow> u64 \<Rightarrow> u64 \<times> 's) \<Rightarrow> 's \<Rightarrow> u64 list \<Rightarrow> (u64 \<times> u64) list" where
  "run_alloc alloc s [] = []"
| "run_alloc alloc s (z # zs) = (case alloc s z of (p, s') \<Rightarrow> (p, z) # run_alloc alloc s' zs)"

definition blocks :: "(u64 \<times> u64) list \<Rightarrow> (u64 \<times> u64) list" where
  "blocks ps = filter (\<lambda>(p, z). p \<noteq> 0) ps"

fun descending :: "nat \<Rightarrow> (u64 \<times> u64) list \<Rightarrow> bool" where
  "descending limit [] \<longleftrightarrow> True"
| "descending limit ((p, z) # bs) \<longleftrightarrow> unat p + unat z \<le> limit \<and> descending (unat p) bs"

locale bump_allocator =
  fixes alloc :: "'s \<Rightarrow> u64 \<Rightarrow> u64 \<times> 's"
    and limit :: "'s \<Rightarrow> nat"
    and usable :: "'s \<Rightarrow> u64 \<Rightarrow> bool"
  assumes alloc_block: "alloc s z = (p, s') \<Longrightarrow> p \<noteq> 0 \<Longrightarrow>
      unat p + unat z \<le> limit s \<and> limit s' = unat p \<and> usable s p"
    and alloc_refused: "alloc s z = (0, s') \<Longrightarrow> limit s' = limit s"
    and usable_kept: "alloc s z = (p, s') \<Longrightarrow> usable s' q = usable s q"
begin

lemma run_descending:
  "descending (limit s) (blocks (run_alloc alloc s zs))
   \<and> (\<forall>(p, z)\<in>set (blocks (run_alloc alloc s zs)). usable s p)"
proof (induction zs arbitrary: s)
  case (Cons z zs)
  obtain p s' where a: "alloc s z = (p, s')" by (cases "alloc s z")
  show ?case
  proof (cases "p = 0")
    case True
    with Cons [of s'] a alloc_refused [of s z s'] usable_kept [OF a] show ?thesis
      by (simp add: blocks_def)
  next
    case False
    with Cons [of s'] a alloc_block [OF a] usable_kept [OF a] show ?thesis
      by (simp add: blocks_def)
  qed
qed (simp add: blocks_def)

end

lemma descending_apart:
  "descending limit bs \<Longrightarrow> i < j \<Longrightarrow> j < length bs \<Longrightarrow>
   unat (fst (bs ! j)) + unat (snd (bs ! j)) \<le> unat (fst (bs ! i))"
proof (induction bs arbitrary: limit i j)
  case (Cons b bs)
  obtain p z where b: "b = (p, z)" by (cases b)
  have le: "unat (fst (bs ! k)) + unat (snd (bs ! k)) \<le> t" if "descending t bs" "k < length bs" for k t
    using that
  proof (induction bs arbitrary: k t)
    case (Cons c cs)
    obtain q y where c: "c = (q, y)" by (cases c)
    from Cons.prems(1) c have q: "unat q + unat y \<le> t" "descending (unat q) cs" by auto
    show ?case
    proof (cases k)
      case 0
      with q c show ?thesis by simp
    next
      case (Suc k')
      with Cons.IH [OF q(2), of k'] Cons.prems q c show ?thesis by simp
    qed
  qed simp
  from Cons.prems(2,3) obtain j' where j: "j = Suc j'" "j' < length bs" by (cases j) auto
  from Cons.prems(1) b have d: "descending (unat p) bs" by simp
  show ?case
  proof (cases i)
    case 0
    with j b le [OF d j(2)] show ?thesis by simp
  next
    case (Suc i')
    with Cons.IH [OF d, of i' j'] Cons.prems j show ?thesis by simp
  qed
qed simp

definition alloc_call :: "'e RecorderContext \<Rightarrow> u64 \<Rightarrow> u64 \<times> 'e RecorderContext" where
  "alloc_call ctx z =
     (case syscall_alloc_free ctx z 0 0 0 0 of
        (Returned p, ctx') \<Rightarrow> (p, ctx') | (_, ctx') \<Rightarrow> (0, ctx'))"

definition alloc_top :: "'e RecorderContext \<Rightarrow> nat" where
  "alloc_top ctx = unat (bump_pos (syscall_state ctx))"

definition heap_block :: "'e RecorderContext \<Rightarrow> u64 \<Rightarrow> bool" where
  "heap_block ctx p \<longleftrightarrow> and p 7 = 0 \<and> unat (heap_start (syscall_state ctx)) + 8 \<le> unat p"

lemma saturating_add_le:
  fixes a :: u64
  assumes "saturating_add a b \<le> p" "p \<noteq> - 1"
  shows "unat a + unat b \<le> unat p"
proof (cases "unat a + unat b < 2 ^ 64")
  case True
  with assms(1) show ?thesis by (simp add: saturating_add_def word_le_nat_alt unat_word_ariths)
next
  case False
  with assms(1) have "- 1 \<le> p" by (simp add: saturating_add_def)
  with assms(2) show ?thesis by (simp add: word_order.extremum_unique)
qed

lemma mask_low: "and (and x (not 7)) 7 = 0" for x :: u64
  by (simp add: and.assoc)

lemma alloc_call_eq:
  "alloc_call ctx z =
     (let p = and (saturating_sub (bump_pos (syscall_state ctx)) z) (not 7);
          ctx1 = with_state (push_log ''sol_alloc_free_''
                   (''size='' @ dec_word z @ '' free='' @ hex_prefixed (0 :: u64))) ctx in
      if p < saturating_add (heap_start (syscall_state ctx)) 8 then (0, ctx1)
      else (p, with_state (\<lambda>s. s\<lparr>bump_pos := p\<rparr>) ctx1))"
  by (simp add: alloc_call_def syscall_alloc_free_def Let_def)

interpretation bump: bump_allocator alloc_call alloc_top heap_block
proof unfold_locales
  fix ctx :: "'e RecorderContext" and z p ctx'
  assume a: "alloc_call ctx z = (p, ctx')" "p \<noteq> 0"
  let ?q = "saturating_sub (bump_pos (syscall_state ctx)) z"
  have p: "p = and ?q (not 7)" "saturating_add (heap_start (syscall_state ctx)) 8 \<le> p"
    and ctx': "alloc_top ctx' = unat p"
    using a by (auto simp: alloc_call_eq Let_def alloc_top_def not_less split: if_splits)
  have "p \<le> ?q" unfolding p(1) by (rule word_and_le2)
  moreover have "unat p \<noteq> 0" using a(2) by (simp add: unat_eq_0)
  ultimately have "unat p + unat z \<le> alloc_top ctx"
    by (simp add: word_le_nat_alt unat_saturating_sub alloc_top_def)
  moreover have "and p 7 = 0" unfolding p(1) by (rule mask_low)
  moreover from this have "p \<noteq> - 1" by auto
  with p(2) have "unat (heap_start (syscall_state ctx)) + 8 \<le> unat p"
    using saturating_add_le [of "heap_start (syscall_state ctx)" 8 p] by simp
  ultimately show "unat p + unat z \<le> alloc_top ctx \<and> alloc_top ctx' = unat p \<and> heap_block ctx p"
    using ctx' by (simp add: heap_block_def)
next
  fix ctx :: "'e RecorderContext" and z ctx'
  assume a: "alloc_call ctx z = (0, ctx')"
  show "alloc_top ctx' = alloc_top ctx"
  proof (rule ccontr)
    assume "alloc_top ctx' \<noteq> alloc_top ctx"
    with a have "saturating_add (heap_start (syscall_state ctx)) 8 \<le> (0 :: u64)"
      by (auto simp: alloc_call_eq Let_def alloc_top_def not_less split: if_splits)
    then show False using saturating_add_le [of "heap_start (syscall_state ctx)" 8 0] by simp
  qed
next
  fix ctx :: "'e RecorderContext" and z p ctx' q
  assume "alloc_call ctx z = (p, ctx')"
  then show "heap_block ctx' q = heap_block ctx q"
    by (auto simp: alloc_call_eq Let_def heap_block_def split: if_splits)
qed

section \<open>Properties\<close>

text \<open>
  The syscall log. Whatever the arguments and the state, an invocation of a registered
  syscall appends exactly one log entry, under the name it is registered with, and exactly
  one journal of at most one write, leaving earlier entries, the mapping and (without a
  write) guest memory untouched. The one exception is \<open>sol_log_\<close> on an unmapped message,
  which fails and changes nothing.
\<close>

theorem syscall_invocation:
  "case handle s ctx a b c d e of (r, ctx') \<Rightarrow>
     (\<exists>js. invoked s ctx js ctx')
   \<or> s = SyscallSolLog \<and> ctx' = ctx \<and> (\<exists>x. r = Failed (MappingError x))"
  using handle_invoked [of s ctx a b c d e] by (auto split: prod.splits)

text \<open>
  C12: the journal is enough. Start from guest regions that do not meet and a mapping that
  translates inside them, a fresh syscall state and a shadow holding the initial image.
  After any run of syscalls free of undefined behaviour, replaying the recorded journals,
  in order, turns the initial shadow into exactly the guest memory the run left, and the
  journals are index-aligned with the log.
\<close>

theorem journal_reproduces_guest:
  assumes "maps_regions (memory_mapping ctx) rs" "regions_apart rs"
    and "syscall_state ctx = new_syscall_state hs hl" "mirrors m rs ctx"
    and "run_syscalls cs ctx = Some ctx'"
  shows "mirrors (replay_journal (concat (mem_writes (syscall_state ctx'))) m) rs ctx'
       \<and> length (mem_writes (syscall_state ctx')) = length (log (syscall_state ctx'))"
proof -
  have "reproduces m rs (memory_mapping ctx) ctx"
    using assms(3,4)
    by (simp add: reproduces_def aligned_state_def new_syscall_state_def replay_journal_def)
  from run_reproduces [OF assms(1,2) this assms(5)] show ?thesis
    by (simp add: reproduces_def aligned_state_def)
qed

text \<open>A concrete machine: one region of sixteen bytes, and the linear mapping of it.\<close>

definition linear_mapping :: "layout \<Rightarrow> unit mapping" where
  "linear_mapping rs acc a n =
     (case List.find (\<lambda>(v, hs, l). v \<le> a \<and> unat (a - v) + unat n \<le> l) rs of
        Some (v, hs, l) \<Rightarrow> Inr (hs + (a - v)) | None \<Rightarrow> Inl ())"

lemma linear_mapping_ok: "maps_regions (linear_mapping rs) rs"
  by (auto simp: maps_regions_def linear_mapping_def split: option.splits dest!: find_Some_prop)

definition sample_ctx :: "unit RecorderContext" where
  "sample_ctx = \<lparr>remaining = 100, memory_mapping = linear_mapping [(4096, 64, 16)],
     syscall_state = new_syscall_state 4096 16, host = (\<lambda>x. 0)\<rparr>"

definition sample_calls :: "call list" where
  "sample_calls = [(SyscallSolMemset, 4096, 7, 2, 0, 0), (SyscallSolMemmove, 4097, 4096, 2, 0, 0)]"

lemma two_bytes: "read_host h a 2 = [h a, h (a + 1)]" "replicate 2 b = [b, b]"
  by (simp_all add: read_host_def numeral_2_eq_2)

lemma sample_run:
  "map_option (\<lambda>c. mem_writes (syscall_state c)) (run_syscalls sample_calls sample_ctx)
   = Some [[(4096, [7, 7])], [(4097, [7, 7])]]"
  by (simp add: sample_calls_def sample_ctx_def syscall_memset_def syscall_memmove_def Let_def
      linear_mapping_def copied_eq write_host_def new_syscall_state_def two_bytes)

theorem journal_reproduces_guest_witness:
  "\<exists>ctx'. run_syscalls sample_calls sample_ctx = Some ctx'
        \<and> mirrors (replay_journal [(4096, [7, 7]), (4097, [7, 7])]
              (new_shadow (region_image (\<lambda>x. 0) [(4096, 64, 16)]) False)) [(4096, 64, 16)] ctx'"
proof -
  let ?m = "new_shadow (region_image (\<lambda>x. 0) [(4096, 64, 16)]) False"
  from sample_run obtain ctx' where run: "run_syscalls sample_calls sample_ctx = Some ctx'"
    and js: "mem_writes (syscall_state ctx') = [[(4096, [7, 7])], [(4097, [7, 7])]]" by auto
  have "maps_regions (memory_mapping sample_ctx) [(4096, 64, 16)]"
    using linear_mapping_ok by (simp add: sample_ctx_def)
  moreover have "regions_apart [(4096, 64, 16)]" by simp
  moreover have "syscall_state sample_ctx = new_syscall_state 4096 16" by (simp add: sample_ctx_def)
  moreover have "mirrors ?m [(4096, 64, 16)] sample_ctx"
    by (simp add: mirrors_def new_shadow_def sample_ctx_def)
  ultimately have "mirrors (replay_journal (concat (mem_writes (syscall_state ctx'))) ?m) [(4096, 64, 16)] ctx'"
    using journal_reproduces_guest [OF _ _ _ _ run] by blast
  with run js show ?thesis by simp
qed

text \<open>
  C30: the copying syscalls. When both ranges are mapped, \<open>sol_memmove_\<close> leaves at the
  target what was at the source before the call, overlapping or not, changes no other host
  byte, and journals exactly those bytes. \<open>sol_memcpy_\<close> does the same to memory and journal
  when the host ranges are apart; it has no check for the case where they meet, and the
  copy it then makes is undefined.
\<close>

theorem copy_syscalls:
  assumes "memory_mapping ctx AccessLoad srca n = Inr s" "memory_mapping ctx AccessStore dsta n = Inr t"
    and "n \<noteq> 0"
  shows "case syscall_memmove ctx dsta srca n d e of (r, ctx') \<Rightarrow>
      r = Returned 0
    \<and> read_host (host ctx') t (unat n) = read_host (host ctx) s (unat n)
    \<and> (\<forall>x. host ctx' x = host ctx x \<or> unat (x - t) < unat n)
    \<and> last (mem_writes (syscall_state ctx')) = [(dsta, read_host (host ctx) s (unat n))]
    \<and> (case syscall_memcpy ctx dsta srca n d e of (rc, ctxc) \<Rightarrow>
         if overlaps s t n then rc = Undefined
         else rc = Returned 0 \<and> host ctxc = host ctx'
            \<and> mem_writes (syscall_state ctxc) = mem_writes (syscall_state ctx'))"
proof -
  let ?d = "read_host (host ctx) s (unat n)"
  have "unat n \<le> 2 ^ 64" using unat_lt [of n] by simp
  then have rb: "read_host (write_host (host ctx) t ?d) t (unat n) = ?d"
    using read_back [of ?d] by simp
  have other: "write_host (host ctx) t ?d x = host ctx x \<or> unat (x - t) < unat n" for x
    by (simp add: write_host_def)
  from assms rb other show ?thesis
    by (simp add: syscall_memmove_def syscall_memcpy_def Let_def copied_eq)
qed

theorem copy_syscalls_witness:
  "fst (syscall_memmove sample_ctx 4097 4096 2 0 0) = Returned 0
   \<and> fst (syscall_memcpy sample_ctx 4097 4096 2 0 0) = Undefined"
proof -
  have "memory_mapping sample_ctx AccessLoad 4096 2 = Inr 64"
    "memory_mapping sample_ctx AccessStore 4097 2 = Inr 65" "(2 :: u64) \<noteq> 0" "overlaps 64 65 2"
    by (simp_all add: sample_ctx_def linear_mapping_def overlaps_def)
  with copy_syscalls [OF this(1-3), of 0 0] show ?thesis
    by (auto split: prod.splits)
qed

text \<open>
  C31: the allocator. From any state, over any sequence of requests, the blocks
  \<open>sol_alloc_free_\<close> hands out are 8-byte aligned, begin at least 8 bytes above the heap
  start, end at or below the position the allocator had, and any later block lies entirely
  below every earlier one: no two of them share a byte.
\<close>

theorem alloc_blocks_disjoint:
  "let bs = blocks (run_alloc alloc_call ctx zs) in
     descending (unat (bump_pos (syscall_state ctx))) bs
   \<and> list_all (\<lambda>(p, z). and p 7 = 0 \<and> unat (heap_start (syscall_state ctx)) + 8 \<le> unat p) bs
   \<and> sorted_wrt (\<lambda>(p, z) (q, y). unat q + unat y \<le> unat p) bs"
  using bump.run_descending [of ctx zs]
    descending_apart [of "alloc_top ctx" "blocks (run_alloc alloc_call ctx zs)"]
  by (auto simp: Let_def alloc_top_def heap_block_def list_all_iff sorted_wrt_iff_nth_less split_beta)

text \<open>
  Registration. The twelve handlers are registered under twelve different names, each
  handler once, so a loader that refuses only a name it already holds accepts them all and
  ends up with exactly these, in this order.
\<close>

theorem register_succeeds:
  "register (\<lambda>l s n. if n \<in> snd ` set l then Inl n else Inr (l @ [(s, n)])) [] = Inr registrations
   \<and> distinct (map fst registrations) \<and> (\<forall>s. \<exists>n. (s, n) \<in> set registrations)"
  by (simp add: register_def registrations_def) (metis syscall.exhaust)

end
