(* ===== verification/Executor.thy ===== *)
theory Executor
  imports Syscalls Register_Trace
begin

text \<open>
  \<open>src/executor.rs\<close>: the steps of one recorded execution. The VM of \<open>solana_sbpf\<close> (loading,
  verification, the memory mapping, the interpreter and the fixed addresses) is the record
  \<open>vm\<close>; what the recorder prepares for it and what it makes of its result is modelled.
\<close>

section \<open>The VM\<close>

record 'x executable =
  exe :: 'x
  ro_vm_addr :: u64
  ro_section :: bytes
  text_bytes :: bytes
  move_memory_instruction_classes :: bool
  manual_stack_frame_bump :: bool

text \<open>The memory region handed to the mapping: the program's own read-only one, or a
  writable buffer at a guest address.\<close>

datatype 'x memory_region = RoRegion "'x executable" | Writable u64 bytes

record ('x, 'e) vm =
  load_elf :: "string list \<Rightarrow> bytes \<Rightarrow> string + 'x executable"
  verify :: "'x executable \<Rightarrow> string + unit"
  loader_register :: "string list \<Rightarrow> syscall \<Rightarrow> string \<Rightarrow> string + string list"
  stack_size :: nat
  new_mapping :: "'x memory_region list \<Rightarrow> string + 'e mapping \<times> (u64 \<Rightarrow> u8)"
  execute :: "'x executable \<Rightarrow> u64 \<Rightarrow> 'e RecorderContext \<Rightarrow> u64 list list \<times> 'e RecorderContext"
  MM_STACK_START :: u64
  MM_HEAP_START :: u64
  MM_INPUT_START :: u64

section \<open>One execution\<close>

record ExecutionTrace =
  regs :: bytes
  trace_text :: bytes
  initial_memory :: "region list"
  syscall_writes :: "journal list"
  trace_moved :: bool
  manual_stack_frames :: bool

datatype exec_error =
  RegisterFailed string | LoadFailed string | VerifyFailed string | MappingFailed string

definition heap_size :: nat where "heap_size = 32 * 1024"

text \<open>The context a run starts with; the mapping and the buffers behind it are set before
  the VM runs.\<close>

definition new_context :: "u64 \<Rightarrow> 'e mapping \<Rightarrow> (u64 \<Rightarrow> u8) \<Rightarrow> u64 \<Rightarrow> u64 \<Rightarrow> 'e RecorderContext" where
  "new_context compute_budget f h hs hl =
     \<lparr>remaining = compute_budget, memory_mapping = f, syscall_state = new_syscall_state hs hl, host = h\<rparr>"

definition sum_bind :: "('a \<Rightarrow> 'b) \<Rightarrow> 'a + 'c \<Rightarrow> ('c \<Rightarrow> 'b + 'd) \<Rightarrow> 'b + 'd" where
  "sum_bind wrap m f = (case m of Inl e \<Rightarrow> Inl (wrap e) | Inr x \<Rightarrow> f x)"

definition start_memory :: "('x, 'e) vm \<Rightarrow> 'x executable \<Rightarrow> region list" where
  "start_memory vm executable =
     [(ro_vm_addr executable, ro_section executable),
      (MM_STACK_START vm, replicate (stack_size vm) 0),
      (MM_HEAP_START vm, replicate heap_size 0),
      (MM_INPUT_START vm, replicate 48 0)]"

definition start_regions :: "('x, 'e) vm \<Rightarrow> 'x executable \<Rightarrow> 'x memory_region list" where
  "start_regions vm executable =
     [RoRegion executable,
      Writable (MM_STACK_START vm) (replicate (stack_size vm) 0),
      Writable (MM_HEAP_START vm) (replicate heap_size 0),
      Writable (MM_INPUT_START vm) (replicate 48 0)]"

definition execute_with_memory_trace ::
  "('x, 'e) vm \<Rightarrow> bytes \<Rightarrow> u64 \<Rightarrow> exec_error + ExecutionTrace" where
  "execute_with_memory_trace vm elf_data compute_budget =
     sum_bind RegisterFailed (register (loader_register vm) []) (\<lambda>loader.
     sum_bind LoadFailed (load_elf vm loader elf_data) (\<lambda>executable.
     sum_bind VerifyFailed (verify vm executable) (\<lambda>_.
     sum_bind MappingFailed (new_mapping vm (start_regions vm executable)) (\<lambda>(f, h).
       let context = new_context compute_budget f h (MM_HEAP_START vm) (of_nat heap_size);
           (register_trace, context') = execute vm executable (MM_INPUT_START vm) context
       in Inr \<lparr>regs = regs_data register_trace,
               trace_text = text_bytes executable,
               initial_memory = start_memory vm executable,
               syscall_writes = mem_writes (syscall_state context'),
               trace_moved = move_memory_instruction_classes executable,
               manual_stack_frames = manual_stack_frame_bump executable\<rparr>))))"

definition execute_with_tracing :: "('x, 'e) vm \<Rightarrow> bytes \<Rightarrow> u64 \<Rightarrow> exec_error + bytes" where
  "execute_with_tracing vm elf_data compute_budget =
     map_sum id regs (execute_with_memory_trace vm elf_data compute_budget)"

section \<open>What the recorder gets\<close>

text \<open>A VM whose interpreter touches the context only through the syscall handlers (and its
  own stores, which the trace does not journal) and that refuses no registration.\<close>

definition vm_traces :: "('x, 'e) vm \<Rightarrow> bool" where
  "vm_traces vm \<longleftrightarrow>
     (\<forall>x r ctx. list_all (\<lambda>row. length row = NUM_REGISTERS) (fst (execute vm x r ctx)))"

lemma execute_ok:
  assumes "execute_with_memory_trace vm elf budget = Inr t"
  obtains loader x f h where
    "register (loader_register vm) [] = Inr loader" "load_elf vm loader elf = Inr x"
    "verify vm x = Inr ()" "new_mapping vm (start_regions vm x) = Inr (f, h)"
    "t = (let r = execute vm x (MM_INPUT_START vm)
                   (new_context budget f h (MM_HEAP_START vm) (of_nat heap_size)) in
          \<lparr>regs = regs_data (fst r), trace_text = text_bytes x, initial_memory = start_memory vm x,
           syscall_writes = mem_writes (syscall_state (snd r)),
           trace_moved = move_memory_instruction_classes x,
           manual_stack_frames = manual_stack_frame_bump x\<rparr>)"
  using assms
  by (auto simp: execute_with_memory_trace_def sum_bind_def Let_def split: sum.splits prod.splits)

text \<open>
  From the VM to the recorder. The bytes a successful execution returns parse back into
  the rows of the VM's own register trace, in order, each with its twelve registers; the
  trace carries the text of the verified executable, and its initial memory holds a stack,
  a heap and an input area of zeroes at their guest addresses, so that reading them in a
  shadow of it is possible over their whole length.
\<close>

theorem execution_trace_ok:
  assumes "vm_traces vm" "execute_with_memory_trace vm elf budget = Inr t"
  shows "\<exists>loader x f h rows. load_elf vm loader elf = Inr x \<and> verify vm x = Inr ()
       \<and> rows = fst (execute vm x (MM_INPUT_START vm)
                   (new_context budget f h (MM_HEAP_START vm) (of_nat heap_size)))
       \<and> execute_with_tracing vm elf budget = Inr (regs_data rows)
       \<and> parse_regs_file (regs t) = Ok (map (\<lambda>r. \<lparr>registers = r\<rparr>) rows)
       \<and> trace_text t = text_bytes x
       \<and> list_all (\<lambda>(v, n). (v, replicate n 0) \<in> set (initial_memory t))
           [(MM_STACK_START vm, stack_size vm), (MM_HEAP_START vm, heap_size), (MM_INPUT_START vm, 48)]"
proof -
  from execute_ok [OF assms(2)] obtain loader x f h where
    x: "load_elf vm loader elf = Inr x" "verify vm x = Inr ()"
    and t: "t = (let r = execute vm x (MM_INPUT_START vm)
                   (new_context budget f h (MM_HEAP_START vm) (of_nat heap_size)) in
          \<lparr>regs = regs_data (fst r), trace_text = text_bytes x, initial_memory = start_memory vm x,
           syscall_writes = mem_writes (syscall_state (snd r)),
           trace_moved = move_memory_instruction_classes x,
           manual_stack_frames = manual_stack_frame_bump x\<rparr>)" by metis
  let ?rows = "fst (execute vm x (MM_INPUT_START vm)
                   (new_context budget f h (MM_HEAP_START vm) (of_nat heap_size)))"
  have "\<forall>e\<in>set ?rows. length e = 12"
    using assms(1) by (auto simp: vm_traces_def list_all_iff NUM_REGISTERS_def)
  then have "parse_regs_file (regs t) = Ok (map (\<lambda>r. \<lparr>registers = r\<rparr>) ?rows)"
    using parse_regs_data t by (simp add: Let_def)
  with x t assms(2) show ?thesis
    by (intro exI [of _ loader] exI [of _ x] exI [of _ f] exI [of _ h] exI [of _ ?rows])
      (simp add: Let_def execute_with_tracing_def start_memory_def)
qed

lemma executed_rows:
  assumes "vm_traces vm" "execute_with_memory_trace vm elf budget = Inr t"
  obtains loader x f h rows where "load_elf vm loader elf = Inr x" "verify vm x = Inr ()"
    "rows = fst (execute vm x (MM_INPUT_START vm) (new_context budget f h (MM_HEAP_START vm) (of_nat heap_size)))"
    "regs t = regs_data rows" "parse_regs_file (regs_data rows) = Ok (map (\<lambda>r. \<lparr>registers = r\<rparr>) rows)"
proof -
  have "execute_with_tracing vm elf budget = Inr (regs t)"
    using assms(2) by (simp add: execute_with_tracing_def)
  with execution_trace_ok [OF assms] that show thesis by auto
qed

definition sample_vm :: "(unit, unit) vm" where
  "sample_vm = \<lparr>
     load_elf = (\<lambda>loader elf. Inr \<lparr>exe = (), ro_vm_addr = 0, ro_section = [], text_bytes = elf,
        move_memory_instruction_classes = False, manual_stack_frame_bump = False\<rparr>),
     verify = (\<lambda>x. Inr ()), loader_register = (\<lambda>l s n. Inr (l @ [n])), stack_size = 64,
     new_mapping = (\<lambda>rs. Inr (linear_mapping [], \<lambda>x. 0)),
     execute = (\<lambda>x r1 ctx. ([[0, r1, 0, 0, 0, 0, 0, 0, 0, 0, 8192, 7]], ctx)),
     MM_STACK_START = 4096, MM_HEAP_START = 65536, MM_INPUT_START = 1048576\<rparr>"

lemma sample_vm_runs: "\<exists>t. execute_with_memory_trace sample_vm [1, 2] 10 = Inr t"
  by (simp add: execute_with_memory_trace_def sum_bind_def register_def registrations_def
      sample_vm_def Let_def)

theorem execution_trace_ok_witness:
  "\<exists>bs. execute_with_tracing sample_vm [1, 2] 10 = Inr bs
      \<and> parse_regs_file bs = Ok [\<lparr>registers = [0, 1048576, 0, 0, 0, 0, 0, 0, 0, 0, 8192, 7]\<rparr>]"
proof -
  from sample_vm_runs obtain t where t: "execute_with_memory_trace sample_vm [1, 2] 10 = Inr t" ..
  have ok: "vm_traces sample_vm" by (simp add: vm_traces_def sample_vm_def NUM_REGISTERS_def)
  have e: "execute_with_tracing sample_vm [1, 2] 10 = Inr (regs t)"
    using t by (simp add: execute_with_tracing_def)
  from execution_trace_ok [OF ok t] obtain loader x f h rows where
    "rows = fst (execute sample_vm x (MM_INPUT_START sample_vm)
                   (new_context 10 f h (MM_HEAP_START sample_vm) (of_nat heap_size)))"
    and "parse_regs_file (regs t) = Ok (map (\<lambda>r. \<lparr>registers = r\<rparr>) rows)" by blast
  with e show ?thesis by (simp add: sample_vm_def)
qed

end
