(* ===== verification/Trace_Writer.thy ===== *)
theory Trace_Writer
  imports Rust_Prelude
begin

text \<open>
  The trace writer the recorders drive. It belongs to \<open>codetracer_trace_writer_nim\<close>; the
  model keeps the sequence of calls made to it, in order, and takes the identifiers it hands
  out from the record \<open>ids\<close>, functions of the calls made so far. The value and type records
  are those of \<open>codetracer_trace_types\<close>, with the constructors the sources use.
\<close>

section \<open>Values and types\<close>

type_synonym type_id = nat
type_synonym function_id = nat

datatype type_kind =
  KInt | KBool | KFloat | KChar | KString | KSeq | KArray | KTuple | KStruct | KVariant | KPointer | KRaw

datatype type_record = StructType string "(string \<times> type_id) list" | PlainType type_kind string

text \<open>A floating point value is kept as the bits it is read from: \<open>F32\<close> is widened to 64
  bits by the recorder, without loss.\<close>

datatype float_bits = F32 "32 word" | F64 "64 word"

datatype value_record =
    IntV int type_id
  | BigIntV bytes bool type_id
  | FloatV float_bits type_id
  | BoolV bool type_id
  | CharV nat type_id
  | StringV string type_id
  | RawV string type_id
  | SequenceV "value_record list" bool type_id
  | TupleV "value_record list" type_id
  | StructV "value_record list" type_id
  | VariantV string value_record type_id
  | ReferenceV value_record u64 bool type_id
  | NoneV type_id
  | NoneValue

section \<open>Calls\<close>

datatype event_kind = WriteEvent | ErrorEvent | TraceLogEvent

datatype event =
    BeginEvents string
  | EnableColumnAwareSteps
  | EnableColumnBreakpoints
  | EnableColumnMotions
  | RegisterPath string "nat list"
  | Start string int
  | EnsureType type_kind string
  | EnsureRawType type_record
  | EnsureFunction string string int
  | Arg string value_record
  | Call function_id "(string \<times> value_record) list"
  | Return value_record
  | Step string int "int option"
  | Variable string value_record
  | Special event_kind string string
  | FinishEvents
  | WriteMeta string
  | Close

type_synonym trace = "event list"

record ids =
  type_id_of :: "trace \<Rightarrow> type_kind \<Rightarrow> string \<Rightarrow> type_id"
  raw_type_id_of :: "trace \<Rightarrow> type_record \<Rightarrow> type_id"
  function_id_of :: "trace \<Rightarrow> string \<Rightarrow> string \<Rightarrow> int \<Rightarrow> function_id"

definition ensure_type_id :: "ids \<Rightarrow> type_kind \<Rightarrow> string \<Rightarrow> trace \<Rightarrow> type_id \<times> trace" where
  "ensure_type_id W k n t = (type_id_of W t k n, t @ [EnsureType k n])"

definition ensure_raw_type_id :: "ids \<Rightarrow> type_record \<Rightarrow> trace \<Rightarrow> type_id \<times> trace" where
  "ensure_raw_type_id W r t = (raw_type_id_of W t r, t @ [EnsureRawType r])"

definition ensure_function_id :: "ids \<Rightarrow> string \<Rightarrow> string \<Rightarrow> int \<Rightarrow> trace \<Rightarrow> function_id \<times> trace" where
  "ensure_function_id W n p l t = (function_id_of W t n p l, t @ [EnsureFunction n p l])"

section \<open>Nesting of calls and returns\<close>

text \<open>The call depth after a trace, or nothing when a return has no call to close.\<close>

fun nest :: "nat \<Rightarrow> trace \<Rightarrow> nat option" where
  "nest n [] = Some n"
| "nest n (Call f a # t) = nest (Suc n) t"
| "nest n (Return v # t) = (if n = 0 then None else nest (n - 1) t)"
| "nest n (_ # t) = nest n t"

definition balanced :: "trace \<Rightarrow> bool" where
  "balanced t \<longleftrightarrow> nest 0 t = Some 0"

named_theorems nest_simps

lemma nest_append [nest_simps]: "nest n (t @ u) = Option.bind (nest n t) (\<lambda>m. nest m u)"
  by (induction n t rule: nest.induct) auto

fun plain :: "event \<Rightarrow> bool" where
  "plain (Call f a) = False"
| "plain (Return v) = False"
| "plain e = True"

lemma nest_plain [nest_simps]: "list_all plain t \<Longrightarrow> nest n t = Some n"
proof (induction t)
  case (Cons e t)
  then show ?case by (cases e) auto
qed simp

lemma nest_returns [nest_simps]: "nest n (replicate k (Return v)) = (if k \<le> n then Some (n - k) else None)"
  by (induction k arbitrary: n) auto

text \<open>Calls that only declare types and functions.\<close>

fun declares :: "event \<Rightarrow> bool" where
  "declares (EnsureType k n) = True"
| "declares (EnsureRawType r) = True"
| "declares (EnsureFunction n p l) = True"
| "declares e = False"

lemma declares_plain: "declares e \<Longrightarrow> plain e"
  by (cases e) auto

end
