(* ===== verification/Account_Decoder.thy ===== *)
theory Account_Decoder
  imports Trace_Writer "HOL-Library.Monad_Syntax"
begin

text \<open>
  \<open>src/account_decoder.rs\<close>: decoding Borsh-serialised account data by an Anchor IDL. The
  decoder is a slice and a position; the model keeps both. A compound IDL type is the
  association list of its (distinct) keys, since the code only looks keys up.
\<close>

section \<open>IDL and decoded values\<close>

datatype IdlType = Simple string | Compound "(string \<times> IdlType) list"

record IdlField =
  fd_name :: string
  field_type :: IdlType

record IdlTypeDefBody =
  body_kind :: string
  body_fields :: "IdlField list"

record IdlAccount =
  ac_name :: string
  type_def :: IdlTypeDefBody

record AnchorIdl =
  idl_version :: string
  idl_name :: string
  accounts :: "IdlAccount list"
  types :: "IdlAccount list"

lemma map_of_size: "map_of m k = Some t \<Longrightarrow> size t < size_list (size_prod (\<lambda>x. 0) size) m"
  for m :: "(string \<times> IdlType) list"
  by (induction m) (auto split: if_splits)

function type_name :: "IdlType \<Rightarrow> string" where
  "type_name (Simple s) = s"
| "type_name (Compound m) =
     (case map_of m ''vec'' of
        Some inner \<Rightarrow> ''Vec<'' @ type_name inner @ ''>''
      | None \<Rightarrow> (case map_of m ''defined'' of Some (Simple name) \<Rightarrow> name | _ \<Rightarrow> ''unknown''))"
  by pat_completeness auto
termination by (relation "measure size") (auto dest: map_of_size)

datatype DecodedValue =
    DU8 u8 | DU16 u16 | DU32 u32 | DU64 u64 | DI64 int | DBool bool | DString string
  | DPubkey bytes | DVec "DecodedValue list" | DStruct "DecodedField list"
  and DecodedField = Field (df_name: string) (df_type_name: string) (df_value: DecodedValue)

section \<open>Base 58\<close>

definition ALPHABET :: string where
  "ALPHABET = ''123456789ABCDEFGHJKLMNPQRSTUVWXYZabcdefghijkmnopqrstuvwxyz''"

text \<open>One input byte: multiply the digits by 256 and add, low digit first; then the digits
  of what is carried out.\<close>

fun carry_digits :: "nat \<Rightarrow> nat list" where
  "carry_digits c = (if c = 0 then [] else (c mod 58) # carry_digits (c div 58))"

declare carry_digits.simps [simp del]

fun mul_add :: "nat list \<Rightarrow> nat \<Rightarrow> nat list" where
  "mul_add [] carry = carry_digits carry"
| "mul_add (d # ds) carry =
     (let c = carry + d * 256 in (c mod 58) # mul_add ds (c div 58))"

definition bs58_digits :: "bytes \<Rightarrow> nat list" where
  "bs58_digits bs = foldl (\<lambda>digits byte. mul_add digits (unat byte)) [] bs"

definition bs58_encode :: "bytes \<Rightarrow> string" where
  "bs58_encode bs =
     (if bs = [] then ''''
      else replicate (length (takeWhile (\<lambda>b. b = 0) bs)) (ALPHABET ! 0)
         @ map (\<lambda>d. ALPHABET ! d) (rev (bs58_digits bs)))"

fun join :: "string \<Rightarrow> string list \<Rightarrow> string" where
  "join sep [] = ''''"
| "join sep [s] = s"
| "join sep (s # ss) = s @ sep @ join sep ss"

fun display :: "DecodedValue \<Rightarrow> string" and display_field :: "DecodedField \<Rightarrow> string" where
  "display (DU8 v) = dec_word v"
| "display (DU16 v) = dec_word v"
| "display (DU32 v) = dec_word v"
| "display (DU64 v) = dec_word v"
| "display (DI64 v) = dec_int v"
| "display (DBool v) = (if v then ''true'' else ''false'')"
| "display (DString v) = ''\"'' @ v @ ''\"''"
| "display (DPubkey bs) = bs58_encode bs"
| "display (DVec elems) = ''['' @ join '', '' (map display elems) @ '']''"
| "display (DStruct fs) = ''{ '' @ join '', '' (map display_field fs) @ '' }''"
| "display_field (Field n t v) = n @ '': '' @ display v"

section \<open>The decoder\<close>

record BorshDecoder =
  data :: bytes
  pos :: nat

datatype borsh_error =
    NotEnough string | BadUtf8 | UnsupportedSimple string | UnsupportedCompound
  | AccountNotFound string | NotStruct string string

type_synonym 'a read = "BorshDecoder \<Rightarrow> (borsh_error, 'a \<times> BorshDecoder) outcome"

definition new_decoder :: "bytes \<Rightarrow> BorshDecoder" where
  "new_decoder d = \<lparr>data = d, pos = 0\<rparr>"

text \<open>\<open>&data[pos..]\<close> panics when the position is beyond the end.\<close>

definition remaining_bytes :: "BorshDecoder \<Rightarrow> bytes option" where
  "remaining_bytes d = (if pos d \<le> length (data d) then Some (drop (pos d) (data d)) else None)"

text \<open>The shared body of the fixed-width readers: check, slice, advance. The slice of the
  source panics out of range, which the check before it excludes.\<close>

definition read_bytes :: "nat \<Rightarrow> string \<Rightarrow> bytes read" where
  "read_bytes n what d =
     bind_outcome (ensure_ok (pos d + n \<le> length (data d)) (NotEnough what))
       (\<lambda>_. bind_outcome (of_option (get_slice (data d) (pos d) (pos d + n)))
       (\<lambda>bs. Ok (bs, d\<lparr>pos := pos d + n\<rparr>)))"

definition map_read :: "('a \<Rightarrow> 'b) \<Rightarrow> 'a read \<Rightarrow> 'b read" where
  "map_read f r d = bind_outcome (r d) (\<lambda>(x, d'). Ok (f x, d'))"

definition read_u8 :: "u8 read" where
  "read_u8 d =
     (if pos d < length (data d) then Ok (data d ! pos d, d\<lparr>pos := pos d + 1\<rparr>)
      else Err (NotEnough ''u8''))"

definition read_u16 :: "u16 read" where "read_u16 = map_read from_le (read_bytes 2 ''u16'')"
definition read_u32 :: "u32 read" where "read_u32 = map_read from_le (read_bytes 4 ''u32'')"
definition read_u64 :: "u64 read" where "read_u64 = map_read from_le (read_bytes 8 ''u64'')"

definition read_i64 :: "int read" where
  "read_i64 = map_read (\<lambda>bs. sint (from_le bs :: u64)) (read_bytes 8 ''i64'')"

definition read_bool :: "bool read" where "read_bool = map_read (\<lambda>v. v \<noteq> 0) read_u8"

definition read_string :: "string read" where
  "read_string d =
     bind_outcome (read_u32 d) (\<lambda>(len, d1).
     bind_outcome (ensure_ok (pos d1 + unat len \<le> length (data d1)) (NotEnough ''string'')) (\<lambda>_.
     bind_outcome (of_option (get_slice (data d1) (pos d1) (pos d1 + unat len))) (\<lambda>bs.
     bind_outcome (ensure_ok (utf8_valid bs) BadUtf8) (\<lambda>_.
     Ok (str_of_bytes bs, d1\<lparr>pos := pos d1 + unat len\<rparr>)))))"

definition read_pubkey :: "bytes read" where "read_pubkey = read_bytes 32 ''pubkey''"

definition skip :: "nat \<Rightarrow> BorshDecoder \<Rightarrow> (borsh_error, BorshDecoder) outcome" where
  "skip n d =
     bind_outcome (ensure_ok (pos d + n \<le> length (data d)) (NotEnough ''skip''))
       (\<lambda>_. Ok (d\<lparr>pos := pos d + n\<rparr>))"

text \<open>The element loop of \<open>read_vec\<close>, for any element reader.\<close>

fun read_many :: "nat \<Rightarrow> 'a read \<Rightarrow> 'a list read" where
  "read_many 0 r d = Ok ([], d)"
| "read_many (Suc n) r d =
     bind_outcome (r d) (\<lambda>(x, d1). bind_outcome (read_many n r d1) (\<lambda>(xs, d2). Ok (x # xs, d2)))"

definition read_simple :: "string \<Rightarrow> DecodedValue read" where
  "read_simple s =
     (if s = ''u8'' then map_read DU8 read_u8
      else if s = ''u16'' then map_read DU16 read_u16
      else if s = ''u32'' then map_read DU32 read_u32
      else if s = ''u64'' then map_read DU64 read_u64
      else if s = ''i64'' then map_read DI64 read_i64
      else if s = ''bool'' then map_read DBool read_bool
      else if s = ''string'' then map_read DString read_string
      else if s = ''publicKey'' then map_read DPubkey read_pubkey
      else (\<lambda>d. Err (UnsupportedSimple s)))"

definition read_vec :: "DecodedValue read \<Rightarrow> DecodedValue list read" where
  "read_vec element d = bind_outcome (read_u32 d) (\<lambda>(len, d1). read_many (unat len) element d1)"

function decode_type :: "IdlType \<Rightarrow> DecodedValue read" where
  "decode_type (Simple s) = read_simple s"
| "decode_type (Compound m) =
     (case map_of m ''vec'' of
        Some inner \<Rightarrow> map_read DVec (read_vec (decode_type inner))
      | None \<Rightarrow> (\<lambda>d. Err UnsupportedCompound))"
  by pat_completeness auto
termination by (relation "measure size") (auto dest: map_of_size)

definition find_account :: "AnchorIdl \<Rightarrow> string \<Rightarrow> IdlAccount option" where
  "find_account idl n = List.find (\<lambda>a. ac_name a = n) (accounts idl)"

fun decode_fields :: "IdlField list \<Rightarrow> DecodedField list read" where
  "decode_fields [] d = Ok ([], d)"
| "decode_fields (f # fs) d =
     bind_outcome (decode_type (field_type f) d) (\<lambda>(v, d1).
     bind_outcome (decode_fields fs d1) (\<lambda>(vs, d2).
     Ok (Field (fd_name f) (type_name (field_type f)) v # vs, d2)))"

definition decode_account :: "AnchorIdl \<Rightarrow> string \<Rightarrow> bytes \<Rightarrow> (borsh_error, DecodedField list) outcome" where
  "decode_account idl account_name d =
     (case find_account idl account_name of
        None \<Rightarrow> Err (AccountNotFound account_name)
      | Some account \<Rightarrow>
          bind_outcome (ensure_ok (body_kind (type_def account) = ''struct'')
                          (NotStruct account_name (body_kind (type_def account)))) (\<lambda>_.
          bind_outcome (skip 8 (new_decoder d)) (\<lambda>decoder.
          bind_outcome (decode_fields (body_fields (type_def account)) decoder) (\<lambda>(fs, _).
          Ok fs))))"

section \<open>Value records\<close>

record TypeIds =
  u8_type_id :: type_id
  u16_type_id :: type_id
  u32_type_id :: type_id
  u64_type_id :: type_id
  i64_type_id :: type_id
  bool_type_id :: type_id
  string_type_id :: type_id
  pubkey_type_id :: type_id
  bytes_type_id :: type_id

text \<open>The nine registrations, in the order the struct expression evaluates them.\<close>

definition register_type_ids :: "ids \<Rightarrow> trace \<Rightarrow> TypeIds \<times> trace" where
  "register_type_ids W t0 =
     (let (a, t1) = ensure_type_id W KInt ''u8'' t0;
          (b, t2) = ensure_type_id W KInt ''u16'' t1;
          (c, t3) = ensure_type_id W KInt ''u32'' t2;
          (d, t4) = ensure_type_id W KInt ''u64'' t3;
          (e, t5) = ensure_type_id W KInt ''i64'' t4;
          (f, t6) = ensure_type_id W KBool ''bool'' t5;
          (g, t7) = ensure_type_id W KString ''String'' t6;
          (h, t8) = ensure_type_id W KString ''Pubkey'' t7;
          (i, t9) = ensure_type_id W KSeq ''Vec<u8>'' t8
      in (\<lparr>u8_type_id = a, u16_type_id = b, u32_type_id = c, u64_type_id = d, i64_type_id = e,
           bool_type_id = f, string_type_id = g, pubkey_type_id = h, bytes_type_id = i\<rparr>, t9))"

text \<open>\<open>v as i64\<close> keeps the bits: a \<open>u64\<close> of 2 ^ 63 or more becomes negative.\<close>

fun decoded_value_to_record :: "TypeIds \<Rightarrow> DecodedValue \<Rightarrow> value_record" where
  "decoded_value_to_record I (DU8 v) = IntV (uint v) (u8_type_id I)"
| "decoded_value_to_record I (DU16 v) = IntV (uint v) (u16_type_id I)"
| "decoded_value_to_record I (DU32 v) = IntV (uint v) (u32_type_id I)"
| "decoded_value_to_record I (DU64 v) = IntV (sint v) (u64_type_id I)"
| "decoded_value_to_record I (DI64 v) = IntV v (i64_type_id I)"
| "decoded_value_to_record I (DBool v) = BoolV v (bool_type_id I)"
| "decoded_value_to_record I (DString v) = StringV v (string_type_id I)"
| "decoded_value_to_record I (DPubkey bs) = StringV (bs58_encode bs) (pubkey_type_id I)"
| "decoded_value_to_record I (DVec elems) =
     SequenceV (map (decoded_value_to_record I) elems) False (bytes_type_id I)"
| "decoded_value_to_record I (DStruct fs) = RawV (display (DStruct fs)) (u64_type_id I)"

definition decoded_to_value_record :: "TypeIds \<Rightarrow> DecodedField \<Rightarrow> value_record" where
  "decoded_to_value_record I f = decoded_value_to_record I (df_value f)"

fun field_type_id :: "TypeIds \<Rightarrow> DecodedValue \<Rightarrow> type_id" where
  "field_type_id I (DU8 v) = u8_type_id I"
| "field_type_id I (DU16 v) = u16_type_id I"
| "field_type_id I (DU32 v) = u32_type_id I"
| "field_type_id I (DU64 v) = u64_type_id I"
| "field_type_id I (DI64 v) = i64_type_id I"
| "field_type_id I (DBool v) = bool_type_id I"
| "field_type_id I (DString v) = string_type_id I"
| "field_type_id I (DPubkey v) = pubkey_type_id I"
| "field_type_id I (DVec v) = bytes_type_id I"
| "field_type_id I (DStruct v) = u64_type_id I"

definition decoded_fields_to_struct_record ::
  "ids \<Rightarrow> string \<Rightarrow> DecodedField list \<Rightarrow> TypeIds \<Rightarrow> trace \<Rightarrow> value_record \<times> trace" where
  "decoded_fields_to_struct_record W account_name fs I t =
     (let (sid, t') = ensure_raw_type_id W
            (StructType account_name (map (\<lambda>f. (df_name f, field_type_id I (df_value f))) fs)) t
      in (StructV (map (decoded_to_value_record I) fs) sid, t'))"

section \<open>Codecs\<close>

text \<open>
  The reference encoder is what Borsh prescribes. \<open>starts d bs\<close>: the decoder stands in front
  of the bytes \<open>bs\<close>. A codec pairs an encoder with a reader that inverts it, wherever it
  stands and whatever follows.
\<close>

definition advance :: "nat \<Rightarrow> BorshDecoder \<Rightarrow> BorshDecoder" where
  "advance n d = d\<lparr>pos := pos d + n\<rparr>"

definition starts :: "BorshDecoder \<Rightarrow> bytes \<Rightarrow> bool" where
  "starts d bs \<longleftrightarrow> get_slice (data d) (pos d) (pos d + length bs) = Some bs"

lemma advance_advance [simp]: "advance m (advance n d) = advance (n + m) d"
  by (simp add: advance_def add.assoc)

lemma advance_0 [simp]: "advance 0 d = d"
  by (simp add: advance_def)

lemma starts_bound: "starts d bs \<Longrightarrow> pos d + length bs \<le> length (data d)"
  by (auto simp: starts_def get_slice_def split: if_splits)

lemma starts_append:
  "starts d (a @ b) \<longleftrightarrow> starts d a \<and> starts (advance (length a) d) b"
proof (cases "pos d + length a + length b \<le> length (data d)")
  case True
  have "take (length a + length b) (drop (pos d) (data d)) =
      take (length a) (drop (pos d) (data d)) @ take (length b) (drop (pos d + length a) (data d))"
    by (simp add: take_add add.commute)
  moreover have "length (take (length a) (drop (pos d) (data d))) = length a" using True by simp
  ultimately show ?thesis using True
    by (auto simp: starts_def get_slice_def advance_def add.assoc)
next
  case False
  then show ?thesis by (auto simp: starts_def get_slice_def advance_def)
qed

locale borsh_codec =
  fixes enc :: "'a \<Rightarrow> bytes"
    and rd :: "'a read"
    and ok :: "'a \<Rightarrow> bool"
  assumes roundtrip: "ok x \<Longrightarrow> starts d (enc x) \<Longrightarrow> rd d = Ok (x, advance (length (enc x)) d)"
begin

lemma many_roundtrip:
  "list_all ok xs \<Longrightarrow> starts d (concat (map enc xs)) \<Longrightarrow>
   read_many (length xs) rd d = Ok (xs, advance (length (concat (map enc xs))) d)"
proof (induction xs arbitrary: d)
  case (Cons x xs)
  then have "starts d (enc x)" "starts (advance (length (enc x)) d) (concat (map enc xs))"
    by (simp_all add: starts_append)
  with Cons roundtrip [of x d] show ?case by simp
qed simp

end

lemma read_bytes_starts:
  "starts d bs \<Longrightarrow> length bs = n \<Longrightarrow> read_bytes n what d = Ok (bs, advance n d)"
  using starts_bound [of d bs] by (simp add: read_bytes_def starts_def advance_def)

lemma fixed_width:
  "starts d (to_le n w) \<Longrightarrow> LENGTH('a) \<le> 8 * n \<Longrightarrow>
   map_read from_le (read_bytes n what) d = Ok (w :: 'a::len word, advance n d)"
  by (simp add: map_read_def read_bytes_starts from_le_to_le)

interpretation u16_codec: borsh_codec "to_le 2" read_u16 "\<lambda>w. True"
  by unfold_locales (simp add: read_u16_def fixed_width)

interpretation u32_codec: borsh_codec "to_le 4" read_u32 "\<lambda>w. True"
  by unfold_locales (simp add: read_u32_def fixed_width)

interpretation u64_codec: borsh_codec "to_le 8" read_u64 "\<lambda>w. True"
  by unfold_locales (simp add: read_u64_def fixed_width)

interpretation i64_codec: borsh_codec "\<lambda>i. to_le 8 (word_of_int i :: u64)" read_i64
    "\<lambda>i. - (2 ^ 63) \<le> i \<and> i < 2 ^ 63"
  by unfold_locales
    (simp add: read_i64_def map_read_def read_bytes_starts signed_of_int signed_take_bit_int_eq_self)

interpretation u8_codec: borsh_codec "\<lambda>b. [b]" read_u8 "\<lambda>b. True"
proof unfold_locales
  fix b d assume s: "starts d [b]"
  then have "pos d < length (data d)" using starts_bound [OF s] by simp
  moreover from this s have "data d ! pos d = b"
    by (auto simp: starts_def get_slice_def take_Suc_conv_app_nth)
  ultimately show "read_u8 d = Ok (b, advance (length [b]) d)"
    by (simp add: read_u8_def advance_def)
qed

definition encode_bool :: "bool \<Rightarrow> bytes" where
  "encode_bool b = [if b then 1 else 0]"

interpretation bool_codec: borsh_codec encode_bool read_bool "\<lambda>b. True"
  by unfold_locales (auto simp: read_bool_def map_read_def encode_bool_def u8_codec.roundtrip)

definition encode_string :: "string \<Rightarrow> bytes" where
  "encode_string s = to_le 4 (of_nat (length s) :: u32) @ bytes_of_str s"

definition borsh_string :: "string \<Rightarrow> bool" where
  "borsh_string s \<longleftrightarrow> utf8_valid (bytes_of_str s) \<and> length s < 2 ^ 32"

interpretation string_codec: borsh_codec encode_string read_string borsh_string
proof unfold_locales
  fix s d assume ok: "borsh_string s" and st: "starts d (encode_string s)"
  have len: "unat (of_nat (length s) :: u32) = length s"
    using ok by (simp add: borsh_string_def unat_of_nat)
  from st have s4: "starts d (to_le 4 (of_nat (length s) :: u32))"
    and rest: "starts (advance 4 d) (bytes_of_str s)"
    by (simp_all add: encode_string_def starts_append)
  then have "get_slice (data d) (pos d + 4) (pos d + (4 + length s)) = Some (bytes_of_str s)"
    by (simp add: starts_def advance_def add.assoc)
  moreover have "pos d + (4 + length s) \<le> length (data d)"
    using starts_bound [OF rest] by (simp add: advance_def)
  ultimately show "read_string d = Ok (s, advance (length (encode_string s)) d)"
    using u32_codec.roundtrip [OF TrueI s4] ok
    by (simp add: read_string_def len borsh_string_def advance_def encode_string_def add.assoc)
qed

interpretation pubkey_codec: borsh_codec "\<lambda>bs. bs" read_pubkey "\<lambda>bs. length bs = 32"
  by unfold_locales (simp add: read_pubkey_def read_bytes_starts)

section \<open>Typed values\<close>

fun encode :: "DecodedValue \<Rightarrow> bytes" and encode_field :: "DecodedField \<Rightarrow> bytes" where
  "encode (DU8 v) = [v]"
| "encode (DU16 v) = to_le 2 v"
| "encode (DU32 v) = to_le 4 v"
| "encode (DU64 v) = to_le 8 v"
| "encode (DI64 v) = to_le 8 (word_of_int v :: u64)"
| "encode (DBool v) = encode_bool v"
| "encode (DString v) = encode_string v"
| "encode (DPubkey bs) = bs"
| "encode (DVec vs) = to_le 4 (of_nat (length vs) :: u32) @ concat (map encode vs)"
| "encode (DStruct fs) = concat (map encode_field fs)"
| "encode_field (Field n t v) = encode v"

fun has_simple_type :: "string \<Rightarrow> DecodedValue \<Rightarrow> bool" where
  "has_simple_type s (DU8 v) \<longleftrightarrow> s = ''u8''"
| "has_simple_type s (DU16 v) \<longleftrightarrow> s = ''u16''"
| "has_simple_type s (DU32 v) \<longleftrightarrow> s = ''u32''"
| "has_simple_type s (DU64 v) \<longleftrightarrow> s = ''u64''"
| "has_simple_type s (DI64 v) \<longleftrightarrow> s = ''i64'' \<and> - (2 ^ 63) \<le> v \<and> v < 2 ^ 63"
| "has_simple_type s (DBool v) \<longleftrightarrow> s = ''bool''"
| "has_simple_type s (DString v) \<longleftrightarrow> s = ''string'' \<and> borsh_string v"
| "has_simple_type s (DPubkey v) \<longleftrightarrow> s = ''publicKey'' \<and> length v = 32"
| "has_simple_type s (DVec v) \<longleftrightarrow> False"
| "has_simple_type s (DStruct v) \<longleftrightarrow> False"

function has_type :: "IdlType \<Rightarrow> DecodedValue \<Rightarrow> bool" where
  "has_type (Simple s) v \<longleftrightarrow> has_simple_type s v"
| "has_type (Compound m) v \<longleftrightarrow>
     (case map_of m ''vec'' of
        None \<Rightarrow> False
      | Some inner \<Rightarrow>
          (case v of DVec vs \<Rightarrow> list_all (has_type inner) vs \<and> length vs < 2 ^ 32 | _ \<Rightarrow> False))"
  by pat_completeness auto
termination by (relation "measure (\<lambda>(t, v). size t)") (auto dest: map_of_size)

lemma simple_roundtrip:
  assumes "has_simple_type s v" "starts d (encode v)"
  shows "read_simple s d = Ok (v, advance (length (encode v)) d)"
proof (cases v)
  case (DU8 x)
  with assms u8_codec.roundtrip [where x = x and d = d] show ?thesis
    by (simp add: read_simple_def map_read_def)
next
  case (DU16 x)
  with assms u16_codec.roundtrip [where x = x and d = d] show ?thesis
    by (simp add: read_simple_def map_read_def)
next
  case (DU32 x)
  with assms u32_codec.roundtrip [where x = x and d = d] show ?thesis
    by (simp add: read_simple_def map_read_def)
next
  case (DU64 x)
  with assms u64_codec.roundtrip [where x = x and d = d] show ?thesis
    by (simp add: read_simple_def map_read_def)
next
  case (DI64 x)
  with assms i64_codec.roundtrip [where x = x and d = d] show ?thesis
    by (simp add: read_simple_def map_read_def)
next
  case (DBool x)
  with assms bool_codec.roundtrip [where x = x and d = d] show ?thesis
    by (simp add: read_simple_def map_read_def)
next
  case (DString x)
  with assms string_codec.roundtrip [where x = x and d = d] show ?thesis
    by (simp add: read_simple_def map_read_def)
next
  case (DPubkey x)
  with assms pubkey_codec.roundtrip [where x = x and d = d] show ?thesis
    by (simp add: read_simple_def map_read_def)
qed (use assms in simp_all)

lemma vec_roundtrip:
  assumes "borsh_codec encode rd ok" "list_all ok vs" "length vs < 2 ^ 32" "starts d (encode (DVec vs))"
  shows "map_read DVec (read_vec rd) d = Ok (DVec vs, advance (length (encode (DVec vs))) d)"
proof -
  have len: "unat (of_nat (length vs) :: u32) = length vs" using assms(3) by (simp add: unat_of_nat)
  from assms(4) have "starts d (to_le 4 (of_nat (length vs) :: u32))"
    and rest: "starts (advance 4 d) (concat (map encode vs))" by (simp_all add: starts_append)
  then have "read_u32 d = Ok (of_nat (length vs), advance 4 d)"
    using u32_codec.roundtrip [where x = "of_nat (length vs)" and d = d] by simp
  moreover have "read_many (length vs) rd (advance 4 d)
      = Ok (vs, advance (length (concat (map encode vs))) (advance 4 d))"
    by (rule borsh_codec.many_roundtrip [OF assms(1,2) rest])
  ultimately show ?thesis by (simp add: map_read_def read_vec_def len)
qed

lemma value_roundtrip: "borsh_codec encode (decode_type ty) (has_type ty)"
proof (induction ty rule: type_name.induct)
  case (1 s)
  show ?case by unfold_locales (simp add: simple_roundtrip)
next
  case (2 m)
  show ?case
  proof (unfold_locales)
    fix v d assume t: "has_type (Compound m) v" and st: "starts d (encode v)"
    from t obtain inner vs where i: "map_of m ''vec'' = Some inner" "v = DVec vs"
      and vs: "list_all (has_type inner) vs" "length vs < 2 ^ 32"
      by (auto split: option.splits DecodedValue.splits)
    with vec_roundtrip [OF "2.IH"(1) [OF i(1)] vs, of d] st
    show "decode_type (Compound m) d = Ok (v, advance (length (encode v)) d)" by simp
  qed
qed

interpretation value_codec: borsh_codec encode "decode_type ty" "has_type ty" for ty
  by (rule value_roundtrip)

section \<open>Reading is exact\<close>

text \<open>The converse contract: whatever a reader accepts is a value of its type, it consumes
  just the length of that value's encoding, stays inside the data, and it never panics.\<close>

locale exact_codec = borsh_codec +
  assumes exact: "rd d = Ok (x, d') \<Longrightarrow>
      ok x \<and> d' = advance (length (enc x)) d \<and> pos d + length (enc x) \<le> length (data d)"
    and no_panic: "rd d \<noteq> Panic"
begin

lemma many_exact:
  "read_many n rd d = Ok (xs, d') \<Longrightarrow> pos d \<le> length (data d) \<Longrightarrow>
   length xs = n \<and> list_all ok xs \<and> d' = advance (length (concat (map enc xs))) d
   \<and> pos d + length (concat (map enc xs)) \<le> length (data d)"
proof (induction n arbitrary: d xs)
  case (Suc n)
  from Suc.prems obtain x d1 ys where r: "rd d = Ok (x, d1)" "read_many n rd d1 = Ok (ys, d')"
    and xs: "xs = x # ys" by (auto simp: result_simps)
  from exact [OF r(1)] have e: "ok x" "d1 = advance (length (enc x)) d"
    "pos d + length (enc x) \<le> length (data d)" by auto
  then have d1: "pos d1 = pos d + length (enc x)" "data d1 = data d"
    by (simp_all add: advance_def)
  with e Suc.IH [OF r(2)] xs show ?case by simp
qed simp

lemma many_no_panic: "read_many n rd d \<noteq> Panic"
  by (induction n arbitrary: d) (auto simp: no_panic result_simps)

end

lemma read_bytes_exact:
  "read_bytes n what d = Ok (bs, d') \<Longrightarrow>
   length bs = n \<and> d' = advance n d \<and> pos d + n \<le> length (data d)"
  by (auto simp: read_bytes_def result_simps advance_def get_slice_def split: if_splits)

lemma read_bytes_no_panic: "read_bytes n what d \<noteq> Panic"
  by (auto simp: read_bytes_def result_simps get_slice_def)

lemma map_read_Ok:
  "map_read f r d = Ok (y, d') \<longleftrightarrow> (\<exists>x. r d = Ok (x, d') \<and> y = f x)"
  by (auto simp: map_read_def result_simps)

lemma map_read_Panic [simp]: "map_read f r d = Panic \<longleftrightarrow> r d = Panic"
  by (auto simp: map_read_def result_simps)

lemma read_u8_exact:
  "read_u8 d = Ok (x, d') \<Longrightarrow> d' = advance 1 d \<and> pos d + 1 \<le> length (data d)"
  by (auto simp: read_u8_def advance_def split: if_splits)

lemma read_u8_no_panic: "read_u8 d \<noteq> Panic"
  by (simp add: read_u8_def)

lemma read_u32_exact:
  "read_u32 d = Ok (x, d') \<Longrightarrow> d' = advance 4 d \<and> pos d + 4 \<le> length (data d)"
  by (auto simp: read_u32_def map_read_Ok dest: read_bytes_exact)

lemma read_u32_no_panic: "read_u32 d \<noteq> Panic"
  by (simp add: read_u32_def read_bytes_no_panic)

lemma read_string_exact:
  "read_string d = Ok (s, d') \<Longrightarrow>
   borsh_string s \<and> d' = advance (4 + length s) d \<and> pos d + (4 + length s) \<le> length (data d)"
proof -
  assume "read_string d = Ok (s, d')"
  then obtain len d1 bs where r: "read_u32 d = Ok (len, d1)"
    and bs: "get_slice (data d1) (pos d1) (pos d1 + unat len) = Some bs"
      "pos d1 + unat len \<le> length (data d1)" "utf8_valid bs" "s = str_of_bytes bs"
      "d' = d1\<lparr>pos := pos d1 + unat len\<rparr>"
    by (auto simp: read_string_def result_simps)
  have "length bs = unat len" using get_slice_length [OF bs(1)] by simp
  moreover have "unat len < 2 ^ 32" using unat_lt [of len] by simp
  ultimately show ?thesis using read_u32_exact [OF r] bs
    by (simp add: borsh_string_def advance_def add.assoc)
qed

lemma read_string_no_panic: "read_string d \<noteq> Panic"
  by (auto simp: read_string_def result_simps read_u32_no_panic get_slice_def)

lemma simple_exact:
  "read_simple s d = Ok (v, d') \<Longrightarrow>
   has_simple_type s v \<and> d' = advance (length (encode v)) d \<and> pos d + length (encode v) \<le> length (data d)"
  using sint_ge [where 'a = 64] sint_lt [where 'a = 64]
  by (auto simp: read_simple_def read_bool_def read_u16_def read_u32_def read_u64_def read_i64_def
      read_pubkey_def map_read_Ok encode_bool_def encode_string_def
      split: if_splits
      dest!: read_bytes_exact read_u8_exact read_string_exact)

lemma simple_no_panic: "read_simple s d \<noteq> Panic"
  by (simp add: read_simple_def read_bool_def read_u16_def read_u32_def read_u64_def read_i64_def
      read_pubkey_def read_bytes_no_panic read_u8_no_panic read_string_no_panic)

lemma value_exact: "exact_codec encode (decode_type ty) (has_type ty)"
proof (induction ty rule: type_name.induct)
  case (1 s)
  show ?case by unfold_locales (auto simp: simple_roundtrip simple_exact simple_no_panic)
next
  case (2 m)
  show ?case
  proof (unfold_locales, goal_cases)
    case (1 d v d')
    then obtain inner vs where i: "map_of m ''vec'' = Some inner"
      and v: "v = DVec vs" "read_vec (decode_type inner) d = Ok (vs, d')"
      by (auto simp: map_read_Ok split: option.splits)
    then obtain len d1 where l: "read_u32 d = Ok (len, d1)"
      "read_many (unat len) (decode_type inner) d1 = Ok (vs, d')"
      by (auto simp: read_vec_def result_simps)
    from read_u32_exact [OF l(1)] have d1: "d1 = advance 4 d" "pos d1 \<le> length (data d1)"
      and "pos d + 4 \<le> length (data d)" by (auto simp: advance_def)
    from exact_codec.many_exact [OF "2.IH"(1) [OF i] l(2) d1(2)] v i d1 unat_lt [of len]
    show ?case by (simp add: advance_def add.assoc)
  next
    case (2 d)
    then show ?case
      by (auto simp: read_vec_def result_simps read_u32_no_panic
          dest: exact_codec.many_no_panic [OF "2.IH"] split: option.splits)
  qed
qed

interpretation value_codec: exact_codec encode "decode_type ty" "has_type ty" for ty
  by (rule value_exact)

section \<open>Base 58 is positional and invertible\<close>

fun digits_value :: "nat list \<Rightarrow> nat" where
  "digits_value [] = 0"
| "digits_value (d # ds) = d + 58 * digits_value ds"

definition be_value :: "bytes \<Rightarrow> nat" where
  "be_value bs = foldl (\<lambda>acc b. acc * 256 + unat b) 0 bs"

text \<open>Digits below 58 with a non-zero leading digit, low digit first.\<close>

definition proper :: "nat list \<Rightarrow> bool" where
  "proper ds \<longleftrightarrow> list_all (\<lambda>d. d < 58) ds \<and> (ds \<noteq> [] \<longrightarrow> last ds \<noteq> 0)"

lemma proper_Nil [simp]: "proper []"
  by (simp add: proper_def)

lemma carry_digits_ok: "digits_value (carry_digits c) = c \<and> proper (carry_digits c)"
proof (induction c rule: carry_digits.induct)
  case (1 c)
  show ?case
  proof (cases "c = 0")
    case True
    then show ?thesis by (simp add: carry_digits.simps)
  next
    case False
    then have e: "carry_digits c = (c mod 58) # carry_digits (c div 58)"
      by (simp add: carry_digits.simps [of c])
    have "carry_digits (c div 58) = [] \<Longrightarrow> c mod 58 \<noteq> 0"
      using False 1 by (metis digits_value.simps(1) div_eq_0_iff mod_less zero_neq_numeral)
    with 1 False show ?thesis by (simp add: e proper_def)
  qed
qed

lemma mul_add_ok:
  "list_all (\<lambda>d. d < 58) ds \<Longrightarrow>
   digits_value (mul_add ds c) = 256 * digits_value ds + c \<and> list_all (\<lambda>d. d < 58) (mul_add ds c)"
proof (induction ds arbitrary: c)
  case Nil
  then show ?case using carry_digits_ok [of c] by (simp add: proper_def)
next
  case (Cons d ds)
  let ?c = "c + d * 256"
  from Cons have "digits_value (mul_add ds (?c div 58)) = 256 * digits_value ds + ?c div 58"
    by simp
  moreover have "58 * (?c div 58) + ?c mod 58 = ?c" by simp
  ultimately show ?case using Cons by (simp add: Let_def algebra_simps)
qed

lemma mul_add_last:
  "proper ds \<Longrightarrow> ds \<noteq> [] \<or> c \<noteq> 0 \<Longrightarrow> mul_add ds c \<noteq> [] \<and> last (mul_add ds c) \<noteq> 0"
proof (induction ds arbitrary: c)
  case Nil
  then show ?case using carry_digits_ok [of c]
    by (cases "carry_digits c = []") (auto simp: proper_def)
next
  case (Cons d ds)
  let ?c = "c + d * 256"
  show ?case
  proof (cases "ds = []")
    case True
    then have "d \<noteq> 0" "d < 58" using Cons.prems by (auto simp: proper_def)
    then have "?c div 58 \<noteq> 0" by simp
    then have "carry_digits (?c div 58) \<noteq> []" "last (carry_digits (?c div 58)) \<noteq> 0"
      using carry_digits_ok [of "?c div 58"] by (auto simp: proper_def)
    with True show ?thesis by (simp add: Let_def)
  next
    case False
    then have "proper ds" using Cons.prems by (simp add: proper_def)
    with Cons.IH [of "?c div 58"] False show ?thesis by (simp add: Let_def)
  qed
qed

lemma bs58_digits_snoc: "bs58_digits (bs @ [b]) = mul_add (bs58_digits bs) (unat b)"
  by (simp add: bs58_digits_def)

lemma bs58_digits_ok: "digits_value (bs58_digits bs) = be_value bs \<and> proper (bs58_digits bs)"
proof (induction bs rule: rev_induct)
  case Nil
  then show ?case by (simp add: bs58_digits_def be_value_def)
next
  case (snoc b bs)
  then have small: "list_all (\<lambda>d. d < 58) (bs58_digits bs)" by (simp add: proper_def)
  have "mul_add [] 0 = []" by (simp add: carry_digits.simps)
  then have "proper (mul_add (bs58_digits bs) (unat b))"
    using mul_add_last [of "bs58_digits bs" "unat b"] mul_add_ok [OF small] snoc
    by (cases "bs58_digits bs = [] \<and> unat b = 0") (auto simp: proper_def)
  with mul_add_ok [OF small] snoc show ?case
    by (simp add: bs58_digits_snoc be_value_def)
qed

text \<open>A reference decoder: the leading ones are zero bytes, the rest is a number.\<close>

definition alphabet_digit :: "char \<Rightarrow> nat" where
  "alphabet_digit c = (case position (\<lambda>x. x = c) ALPHABET of Some i \<Rightarrow> i | None \<Rightarrow> 0)"

fun be_bytes :: "nat \<Rightarrow> bytes" where
  "be_bytes n = (if n = 0 then [] else be_bytes (n div 256) @ [of_nat (n mod 256)])"

declare be_bytes.simps [simp del]

definition bs58_decode :: "string \<Rightarrow> bytes" where
  "bs58_decode s =
     replicate (length (takeWhile (\<lambda>c. c = ALPHABET ! 0) s)) 0
     @ be_bytes (foldl (\<lambda>acc c. acc * 58 + alphabet_digit c) 0 s)"

lemma alphabet_all: "list_all (\<lambda>d. alphabet_digit (ALPHABET ! d) = d) [0..<58]"
  by code_simp

lemma alphabet_digit [simp]: "d < 58 \<Longrightarrow> alphabet_digit (ALPHABET ! d) = d"
  using alphabet_all by (simp add: list_all_iff)

lemma foldl_digits:
  "list_all (\<lambda>d. d < 58) ds \<Longrightarrow>
   foldl (\<lambda>acc c. acc * 58 + alphabet_digit c) 0 (map (\<lambda>d. ALPHABET ! d) (rev ds)) = digits_value ds"
  by (induction ds) auto

lemma foldl_ones: "foldl (\<lambda>acc c. acc * 58 + alphabet_digit c) 0 (replicate z (ALPHABET ! 0)) = 0"
  by (induction z) auto

lemma be_value_zeros: "be_value (replicate z 0 @ bs) = be_value bs"
  by (induction z) (auto simp: be_value_def)

lemma be_bytes_value: "bs = [] \<or> hd bs \<noteq> 0 \<Longrightarrow> be_bytes (be_value bs) = bs"
proof (induction bs rule: rev_induct)
  case Nil
  then show ?case by (simp add: be_value_def be_bytes.simps)
next
  case (snoc b bs)
  have v: "be_value (bs @ [b]) = be_value bs * 256 + unat b" by (simp add: be_value_def)
  have "be_value (bs @ [b]) \<noteq> 0"
  proof (cases bs)
    case Nil
    with snoc.prems show ?thesis by (simp add: be_value_def unat_eq_0)
  next
    case (Cons c cs)
    with snoc have "be_bytes (be_value bs) = bs" by simp
    with Cons have "be_value bs \<noteq> 0" using be_bytes.simps [of 0] by (intro notI) simp
    with v show ?thesis by simp
  qed
  then have "be_bytes (be_value (bs @ [b])) = be_bytes (be_value bs) @ [b]"
    by (subst be_bytes.simps) (simp add: v)
  moreover have "bs = [] \<or> hd bs \<noteq> 0" using snoc.prems by (cases bs) auto
  ultimately show ?case using snoc.IH by simp
qed

lemma takeWhile_ones:
  "cs = [] \<or> hd cs \<noteq> x \<Longrightarrow> length (takeWhile (\<lambda>c. c = x) (replicate z x @ cs)) = z"
  by (induction z) (cases cs, auto)

lemma leading_zeros:
  fixes bs :: bytes
  obtains z rest where "bs = replicate z 0 @ rest" "z = length (takeWhile (\<lambda>b. b = 0) bs)"
    "rest = [] \<or> hd rest \<noteq> 0"
proof -
  let ?z = "takeWhile (\<lambda>b. b = 0) bs" and ?rest = "dropWhile (\<lambda>b. b = 0) bs"
  have "?z = replicate (length ?z) 0"
    by (rule replicate_eqI [symmetric, THEN sym]) (auto dest: set_takeWhileD)
  moreover have "?rest = [] \<or> hd ?rest \<noteq> 0" using hd_dropWhile by blast
  ultimately show thesis using that [of "length ?z" ?rest] takeWhile_dropWhile_id [of "\<lambda>b. b = 0" bs]
    by metis
qed

lemma bs58_decode_encode: "bs58_decode (bs58_encode bs) = bs"
proof (cases "bs = []")
  case True
  then show ?thesis by (simp add: bs58_decode_def bs58_encode_def be_bytes.simps)
next
  case False
  obtain z rest where bs: "bs = replicate z 0 @ rest" and z: "z = length (takeWhile (\<lambda>b. b = 0) bs)"
    and rest: "rest = [] \<or> hd rest \<noteq> 0"
    by (rule leading_zeros)
  let ?ds = "bs58_digits bs"
  let ?cs = "map (\<lambda>d. ALPHABET ! d) (rev ?ds)"
  have ds: "digits_value ?ds = be_value rest" "list_all (\<lambda>d. d < 58) ?ds" "?ds \<noteq> [] \<longrightarrow> last ?ds \<noteq> 0"
    using bs58_digits_ok [of bs] be_value_zeros [of z rest] bs by (simp_all add: proper_def)
  have enc: "bs58_encode bs = replicate z (ALPHABET ! 0) @ ?cs"
    using False z by (simp add: bs58_encode_def)
  have "?cs = [] \<or> hd ?cs \<noteq> ALPHABET ! 0"
  proof (cases "?ds = []")
    case False
    then have "last ?ds < 58" using ds(2) by (simp add: list_all_iff)
    moreover have "hd ?cs = ALPHABET ! last ?ds" using False by (simp add: hd_map hd_rev)
    ultimately show ?thesis using ds(3) False
      by (metis alphabet_digit zero_less_numeral)
  qed simp
  then have "length (takeWhile (\<lambda>c. c = ALPHABET ! 0) (bs58_encode bs)) = z"
    unfolding enc by (rule takeWhile_ones)
  moreover have "foldl (\<lambda>acc c. acc * 58 + alphabet_digit c) 0 (bs58_encode bs) = be_value rest"
    unfolding enc foldl_append foldl_ones using foldl_digits [OF ds(2)] ds(1) by simp
  ultimately show ?thesis using bs rest by (simp add: bs58_decode_def be_bytes_value)
qed

section \<open>Properties\<close>

text \<open>
  C34: base 58. Encoding loses nothing: the reference decoder, which turns leading ones into
  zero bytes and reads the rest as a number in base 58, gives back every byte string, the
  empty one and one of zeroes included.
\<close>

theorem bs58_roundtrip: "bs58_decode (bs58_encode bs) = bs"
  by (rule bs58_decode_encode)

text \<open>
  C16: Borsh decoding inverts Borsh encoding. Wherever the decoder stands in front of the
  encoding of a value of the IDL type, however nested, it reads that value and stands
  right behind its encoding.
\<close>

theorem decode_type_roundtrip:
  assumes "has_type ty v"
  shows "decode_type ty \<lparr>data = before @ encode v @ after, pos = length before\<rparr>
         = Ok (v, \<lparr>data = before @ encode v @ after, pos = length before + length (encode v)\<rparr>)"
proof -
  have "starts \<lparr>data = before @ encode v @ after, pos = length before\<rparr> (encode v)"
    by (simp add: starts_def get_slice_def)
  from value_codec.roundtrip [OF assms this] show ?thesis by (simp add: advance_def)
qed

theorem decode_type_roundtrip_witness:
  "decode_type (Compound [(''vec'', Simple ''bool'')])
     \<lparr>data = [9] @ encode (DVec [DBool True, DBool False]) @ [8], pos = 1\<rparr>
   = Ok (DVec [DBool True, DBool False],
         \<lparr>data = [9] @ encode (DVec [DBool True, DBool False]) @ [8], pos = 7\<rparr>)"
  using decode_type_roundtrip [of "Compound [(''vec'', Simple ''bool'')]" "DVec [DBool True, DBool False]"
      "[9]" "[8]"]
  by (simp add: encode_bool_def)

text \<open>
  C32: decoding is exact. On any input at any position the decoder does not panic, and what
  it accepts is a value of the type, shorter integers in range, strings valid UTF-8 and
  keys 32 bytes long, for which it consumed exactly as many bytes as the value's encoding
  has, all of them inside the data.
\<close>

theorem decode_type_exact:
  "case decode_type ty d of
     Ok (v, d') \<Rightarrow> has_type ty v \<and> data d' = data d \<and> pos d' = pos d + length (encode v)
                  \<and> pos d' \<le> length (data d)
   | Err e \<Rightarrow> True
   | Panic \<Rightarrow> False"
  using value_codec.exact [of ty d] value_codec.no_panic [of ty d]
  by (auto simp: advance_def split: outcome.splits)

lemma decode_fields_roundtrip:
  "list_all2 (\<lambda>f v. has_type (field_type f) v) fs vs \<Longrightarrow> starts d (concat (map encode vs)) \<Longrightarrow>
   decode_fields fs d =
     Ok (map2 (\<lambda>f v. Field (fd_name f) (type_name (field_type f)) v) fs vs,
         advance (length (concat (map encode vs))) d)"
proof (induction fs arbitrary: vs d)
  case (Cons f fs)
  then obtain w ws where vs: "vs = w # ws" and t: "has_type (field_type f) w"
    "list_all2 (\<lambda>f v. has_type (field_type f) v) fs ws"
    by (auto simp: list_all2_Cons1)
  from Cons.prems(2) vs have "starts d (encode w)"
    "starts (advance (length (encode w)) d) (concat (map encode ws))"
    by (simp_all add: starts_append)
  with Cons.IH [OF t(2)] value_codec.roundtrip [OF t(1)] vs show ?case by simp
qed simp

text \<open>
  C33: a whole account. For an IDL whose first account of the name is a struct, the eight
  bytes of the discriminator, whatever they are, followed by the encodings of the fields
  decode to those fields, in order, under their IDL names and type names; bytes behind
  them are ignored.
\<close>

theorem decode_account_roundtrip:
  assumes "find_account idl n = Some a" "body_kind (type_def a) = ''struct''" "length disc = 8"
    and "list_all2 (\<lambda>f v. has_type (field_type f) v) (body_fields (type_def a)) vs"
  shows "decode_account idl n (disc @ concat (map encode vs) @ after)
         = Ok (map2 (\<lambda>f v. Field (fd_name f) (type_name (field_type f)) v) (body_fields (type_def a)) vs)"
proof -
  let ?d = "disc @ concat (map encode vs) @ after"
  have "skip 8 (new_decoder ?d) = Ok \<lparr>data = ?d, pos = 8\<rparr>"
    using assms(3) by (simp add: skip_def new_decoder_def)
  moreover have "starts \<lparr>data = ?d, pos = 8\<rparr> (concat (map encode vs))"
    using assms(3) by (simp add: starts_def get_slice_def)
  ultimately show ?thesis
    using assms decode_fields_roundtrip [OF assms(4)] by (simp add: decode_account_def)
qed

definition sample_idl :: AnchorIdl where
  "sample_idl = \<lparr>idl_version = ''0.1.0'', idl_name = ''counter'',
     accounts = [\<lparr>ac_name = ''Counter'', type_def = \<lparr>body_kind = ''struct'',
        body_fields = [\<lparr>fd_name = ''count'', field_type = Simple ''u64''\<rparr>,
                       \<lparr>fd_name = ''open'', field_type = Simple ''bool''\<rparr>]\<rparr>\<rparr>],
     types = []\<rparr>"

theorem decode_account_roundtrip_witness:
  "decode_account sample_idl ''Counter'' (replicate 8 255 @ to_le 8 (42 :: u64) @ [1, 7])
   = Ok [Field ''count'' ''u64'' (DU64 42), Field ''open'' ''bool'' (DBool True)]"
  using decode_account_roundtrip [of sample_idl "''Counter''" "hd (accounts sample_idl)" "replicate 8 255"
      "[DU64 42, DBool True]" "[7]"]
  by (simp add: sample_idl_def find_account_def encode_bool_def)

end
