(* ===== verification/Source_Files.thy ===== *)
theory Source_Files
  imports Rust_Prelude
begin

text \<open>
  The line-length table of a source file (\<open>read_line_lengths_for_path\<close> of
  \<open>src/recorder.rs\<close>), which every column-aware recorder registers with the trace writer.
  \<open>read\<close> stands for \<open>std::fs::read\<close>; a path is the string it displays as.
\<close>

abbreviation newline :: u8 where "newline \<equiv> 10"

text \<open>\<open>Path::join\<close> with a relative path.\<close>

definition path_join :: "string \<Rightarrow> string \<Rightarrow> string" where
  "path_join a b = (if a = [] \<or> last a = CHR ''/'' then a @ b else a @ ''/'' @ b)"

text \<open>The byte loop, with the length of the current line and the lines so far.\<close>

fun line_lengths_loop :: "bytes \<Rightarrow> u32 \<Rightarrow> u32 list \<Rightarrow> u32 list \<times> u32" where
  "line_lengths_loop [] current acc = (acc, current)"
| "line_lengths_loop (b # bs) current acc =
     (if b = newline then line_lengths_loop bs 0 (acc @ [current])
      else line_lengths_loop bs (saturating_add current 1) acc)"

definition line_lengths :: "bytes \<Rightarrow> u32 list" where
  "line_lengths bs =
     (case line_lengths_loop bs 0 [] of (acc, current) \<Rightarrow>
        if current > 0 \<or> bs = [] \<or> last bs \<noteq> newline then acc @ [current] else acc)"

definition synthetic_path :: "string \<Rightarrow> bool" where
  "synthetic_path p \<longleftrightarrow> p \<noteq> [] \<and> hd p = CHR ''<'' \<and> last p = CHR ''>''"

definition read_line_lengths_for_path :: "(string \<Rightarrow> bytes option) \<Rightarrow> string \<Rightarrow> u32 list" where
  "read_line_lengths_for_path read path =
     (if synthetic_path path then []
      else (case read path of None \<Rightarrow> [] | Some bs \<Rightarrow> line_lengths bs))"

section \<open>The table describes the lines\<close>

text \<open>The reference: the text between newlines, and a last line unless the file ends with a
  newline.\<close>

fun split_lines :: "bytes \<Rightarrow> bytes list" where
  "split_lines [] = [[]]"
| "split_lines (b # bs) =
     (if b = newline then [] # split_lines bs
      else (case split_lines bs of l # ls \<Rightarrow> (b # l) # ls | [] \<Rightarrow> [[b]]))"

definition source_lines :: "bytes \<Rightarrow> bytes list" where
  "source_lines bs =
     (if bs \<noteq> [] \<and> last bs = newline then butlast (split_lines bs) else split_lines bs)"

lemma split_lines_ne [simp]: "split_lines bs \<noteq> []"
  by (induction bs) (auto split: list.splits)

lemma saturating_succ: "unat c + 1 < 2 ^ 32 \<Longrightarrow> unat (saturating_add c 1) = unat c + 1" for c :: u32
  by (simp add: saturating_add_def unat_word_ariths)

lemma loop_split:
  "unat current + length bs < 2 ^ 32 \<Longrightarrow>
   (case line_lengths_loop bs current acc of (acc', current') \<Rightarrow>
      map unat (acc' @ [current'])
      = map unat acc @ (case split_lines bs of l # ls \<Rightarrow> (unat current + length l) # map length ls | [] \<Rightarrow> []))"
proof (induction bs current acc rule: line_lengths_loop.induct)
  case (1 current acc)
  then show ?case by simp
next
  case (2 b bs current acc)
  obtain l ls where s: "split_lines bs = l # ls" by (cases "split_lines bs") auto
  show ?case
  proof (cases "b = newline")
    case True
    with 2 s show ?thesis by (auto split: prod.splits)
  next
    case False
    with 2 s saturating_succ [of current] show ?thesis by (auto split: prod.splits)
  qed
qed

lemma split_lines_single: "split_lines bs = [[]] \<longleftrightarrow> bs = []"
  by (cases bs) (auto split: list.splits)

lemma last_split_lines: "last (split_lines bs) = [] \<longleftrightarrow> bs = [] \<or> last bs = newline"
proof (induction bs)
  case (Cons b bs)
  obtain l ls where "split_lines bs = l # ls" by (cases "split_lines bs") auto
  with Cons split_lines_single [of bs] show ?case by (cases "bs = []"; cases "ls = []") auto
qed simp

lemma unat_current:
  "current > 0 \<longleftrightarrow> unat current \<noteq> 0" for current :: u32
  by (simp add: word_less_nat_alt)

lemma line_lengths_split:
  assumes "length bs < 2 ^ 32"
  shows "map unat (line_lengths bs) = map length (source_lines bs)"
proof -
  obtain acc current where r: "line_lengths_loop bs 0 [] = (acc, current)"
    by (cases "line_lengths_loop bs 0 []")
  have "map unat (acc @ [current]) = map length (split_lines bs)"
    using loop_split [of 0 bs "[]"] assms r by (cases "split_lines bs") (auto split: prod.splits)
  then have all: "map unat acc = map length (butlast (split_lines bs))"
    "unat current = length (last (split_lines bs))"
    by (metis butlast_snoc map_butlast) (metis last_map last_snoc list.map_disc_iff
        \<open>map unat (acc @ [current]) = map length (split_lines bs)\<close> split_lines_ne snoc_eq_iff_butlast)
  have "map length (split_lines bs) = map unat acc @ [unat current]"
    using \<open>map unat (acc @ [current]) = map length (split_lines bs)\<close> by simp
  with all r last_split_lines [of bs] show ?thesis
    by (auto simp: line_lengths_def source_lines_def unat_current)
qed

text \<open>
  C35: the table agrees with the file. For a readable file of less than 2 to the 32 bytes
  whose path is not a synthetic \<open><...>\<close> name, the table has one entry per source line, the
  number of bytes of that line without its newline; otherwise the table is empty. So a
  column \<open>c\<close> with \<open>1 \<le> c \<le> len\<close> always addresses a byte of its own line.
\<close>

theorem line_lengths_table:
  assumes "\<And>bs. read path = Some bs \<Longrightarrow> length bs < 2 ^ 32"
  shows "map unat (read_line_lengths_for_path read path) =
     (if synthetic_path path then []
      else (case read path of None \<Rightarrow> [] | Some bs \<Rightarrow> map length (source_lines bs)))"
  using assms line_lengths_split
  by (auto simp: read_line_lengths_for_path_def split: option.splits)

theorem line_lengths_table_witness:
  "read_line_lengths_for_path (\<lambda>p. Some [97, 98, 10, 10, 99]) ''a.rs'' = [2, 0, 1]"
proof -
  have "map unat (read_line_lengths_for_path (\<lambda>p. Some [97, 98, 10, 10, 99]) ''a.rs'') = map unat [2, 0, 1 :: u32]"
    using line_lengths_table [of "\<lambda>p. Some [97, 98, 10, 10, 99]" "''a.rs''"]
    by (simp add: synthetic_path_def source_lines_def)
  then show ?thesis by (rule map_injective) (rule injI, simp add: word_unat_eq_iff)
qed

end
