(* ===== verification/Tracer.thy ===== *)
theory Tracer
  imports Trace_Writer Source_Files Register_Trace
begin

text \<open>
  \<open>src/tracer_trait.rs\<close>: the \<open>SbpfTracer\<close> interface as a record of its callbacks, the three
  tracers that implement it, and the driver \<open>replay_snapshots\<close>. Creating directories and
  files and the results of the trace writer's own input and output are parameters.
\<close>

section \<open>The trait\<close>

text \<open>A callback changes the tracer; \<open>pubkey\<close>s and memory data are bytes.\<close>

record 't SbpfTracer =
  on_step :: "u64 \<Rightarrow> u64 \<Rightarrow> u64 list \<Rightarrow> 't \<Rightarrow> 't"
  on_syscall :: "string \<Rightarrow> u64 list \<Rightarrow> 't \<Rightarrow> 't"
  on_memory_read :: "u64 \<Rightarrow> nat \<Rightarrow> bytes \<Rightarrow> 't \<Rightarrow> 't"
  on_memory_write :: "u64 \<Rightarrow> nat \<Rightarrow> bytes \<Rightarrow> 't \<Rightarrow> 't"
  on_start :: "u64 \<Rightarrow> 't \<Rightarrow> 't"
  on_exit :: "u64 \<Rightarrow> 't \<Rightarrow> 't"
  on_cpi_call :: "bytes \<Rightarrow> bytes \<Rightarrow> 't \<Rightarrow> 't"
  on_cpi_return :: "bytes \<Rightarrow> u64 \<Rightarrow> 't \<Rightarrow> 't"

text \<open>The default bodies of the trait do nothing; an implementation overrides some.\<close>

definition default_tracer :: "'t SbpfTracer" where
  "default_tracer = \<lparr>on_step = (\<lambda>_ _ _ t. t), on_syscall = (\<lambda>_ _ t. t),
     on_memory_read = (\<lambda>_ _ _ t. t), on_memory_write = (\<lambda>_ _ _ t. t),
     on_start = (\<lambda>_ t. t), on_exit = (\<lambda>_ t. t),
     on_cpi_call = (\<lambda>_ _ t. t), on_cpi_return = (\<lambda>_ _ t. t)\<rparr>"

definition NoOpTracer :: "unit SbpfTracer" where
  "NoOpTracer = default_tracer"

definition replay_snapshots :: "'t SbpfTracer \<Rightarrow> RegisterSnapshot list \<Rightarrow> 't \<Rightarrow> 't" where
  "replay_snapshots T snapshots t =
     (let t1 = (case snapshots of [] \<Rightarrow> t | first # _ \<Rightarrow> on_start T (pc first) t);
          t2 = foldl (\<lambda>t snap. on_step T (pc snap) 0 (registers snap) t) t1 snapshots
      in if snapshots = [] then t2 else on_exit T (registers (last snapshots) ! 0) t2)"

section \<open>Driving a tracer\<close>

text \<open>The contract between the driver and a tracer: what every callback the driver makes keeps,
  holds of the tracer when the driver is done.\<close>

locale driven_tracer =
  fixes T :: "'t SbpfTracer"
    and inv :: "'t \<Rightarrow> bool"
  assumes step_inv: "inv t \<Longrightarrow> inv (on_step T a i regs t)"
    and start_inv: "inv t \<Longrightarrow> inv (on_start T a t)"
    and exit_inv: "inv t \<Longrightarrow> inv (on_exit T v t)"
begin

lemma steps_inv: "inv t \<Longrightarrow> inv (foldl (\<lambda>t snap. on_step T (pc snap) 0 (registers snap) t) t snaps)"
  by (induction snaps arbitrary: t) (simp_all add: step_inv)

lemma replay_inv: "inv t \<Longrightarrow> inv (replay_snapshots T snaps t)"
  using steps_inv [of t snaps] steps_inv [of "on_start T (pc (hd snaps)) t" snaps]
  by (cases snaps) (simp_all add: replay_snapshots_def Let_def start_inv exit_inv)

end

interpretation no_op: driven_tracer NoOpTracer "\<lambda>t. t = t0" for t0
  by unfold_locales (simp_all add: NoOpTracer_def default_tracer_def)

section \<open>Raw register output\<close>

text \<open>\<open>sink\<close> stands for the buffered file: what it holds after one more \<open>write_all\<close>.\<close>

record RegisterTraceTracer =
  out_file :: bytes
  rows_written :: u64

definition register_tracer :: "(bytes \<Rightarrow> bytes \<Rightarrow> bytes) \<Rightarrow> RegisterTraceTracer SbpfTracer" where
  "register_tracer sink = default_tracer\<lparr>on_step :=
     (\<lambda>_ _ regs t.
        let buf = fold (\<lambda>(i, v) buf. splice buf (i * 8) (to_le 8 v)) (List.enumerate 0 regs)
                    (replicate ROW_SIZE 0)
        in t\<lparr>out_file := sink (out_file t) buf, rows_written := rows_written t + 1\<rparr>)\<rparr>"

text \<open>Creating the file and flushing it may fail with the reason of the operating system.\<close>

definition new_register_tracer :: "(string \<Rightarrow> string option) \<Rightarrow> string \<Rightarrow> string + RegisterTraceTracer" where
  "new_register_tracer create output_path =
     (case create output_path of
        Some e \<Rightarrow> Inl (''cannot create regs output file: '' @ e)
      | None \<Rightarrow> Inr \<lparr>out_file = [], rows_written = 0\<rparr>)"

definition finish_register_tracer :: "(bytes \<Rightarrow> string option) \<Rightarrow> RegisterTraceTracer \<Rightarrow> string + u64" where
  "finish_register_tracer flush t =
     (case flush (out_file t) of
        Some e \<Rightarrow> Inl (''flush failed: '' @ e)
      | None \<Rightarrow> Inr (rows_written t))"

section \<open>The CodeTracer tracer\<close>

record CodeTracerTracer =
  writer :: trace
  u64_type :: "type_id option"
  prev_line :: "u32 option"
  prev_column :: "u32 option"
  prev_pc :: "u64 option"
  source_locations :: "u64 \<Rightarrow> (string \<times> u32 \<times> u32 option) option"
  started :: bool
  recorded_syscalls :: "string list"
  tabled_paths :: "string list"

text \<open>Results of the operating system and of the writer, \<open>None\<close> for success.\<close>

record tracer_io =
  io_create_dir :: "string \<Rightarrow> string option"
  io_begin :: "string \<Rightarrow> string option"
  io_finish :: "trace \<Rightarrow> string option"
  io_write_meta :: "trace \<Rightarrow> string option"
  io_close :: "trace \<Rightarrow> string option"
  io_read :: "string \<Rightarrow> bytes option"

definition check_io :: "string option \<Rightarrow> 'a \<Rightarrow> (string, 'a) outcome" where
  "check_io r x = (case r of None \<Rightarrow> Ok x | Some e \<Rightarrow> Err e)"

text \<open>The loop that registers every distinct path once and fills the location map.\<close>

fun register_locations ::
  "(string \<Rightarrow> bytes option) \<Rightarrow> (u64 \<times> string \<times> u32 \<times> u32 option) list
   \<Rightarrow> string list \<Rightarrow> string list \<Rightarrow> (u64 \<Rightarrow> (string \<times> u32 \<times> u32 option) option) \<Rightarrow> trace
   \<Rightarrow> string list \<times> (u64 \<Rightarrow> (string \<times> u32 \<times> u32 option) option) \<times> trace" where
  "register_locations rd [] registered tabled locs t = (tabled, locs, t)"
| "register_locations rd ((a, f, l, c) # rest) registered tabled locs t =
     (if f \<in> set registered then
        register_locations rd rest registered tabled (locs(a \<mapsto> (f, l, c))) t
      else
        (let lengths = read_line_lengths_for_path rd f in
         register_locations rd rest (f # registered) (if lengths = [] then tabled else f # tabled)
           (locs(a \<mapsto> (f, l, c))) (t @ [RegisterPath f (map unat lengths)])))"

definition new_with_columns ::
  "ids \<Rightarrow> tracer_io \<Rightarrow> string \<Rightarrow> string \<Rightarrow> (u64 \<times> string \<times> u32 \<times> u32 option) list
   \<Rightarrow> (string, CodeTracerTracer) outcome" where
  "new_with_columns W io source_path out_dir locations =
     bind_outcome (check_io (io_create_dir io out_dir) ()) (\<lambda>_.
     bind_outcome (check_io (io_begin io (path_join out_dir ''trace.bin'')) ()) (\<lambda>_.
     let lengths = read_line_lengths_for_path (io_read io) source_path;
         t0 = [BeginEvents (path_join out_dir ''trace.bin''), EnableColumnAwareSteps, EnableColumnBreakpoints,
               EnableColumnMotions, RegisterPath source_path (map unat lengths)];
         (tabled, locs, t1) =
           register_locations (io_read io) locations [source_path]
             (if lengths = [] then [] else [source_path]) Map.empty t0;
         (tid, t2) = ensure_type_id W KInt ''u64'' (t1 @ [Start source_path 1]);
         (fid, t3) = ensure_function_id W ''main'' source_path 1 t2
     in Ok \<lparr>writer = t3 @ [Call fid []], u64_type = Some tid, prev_line = None, prev_column = None,
            prev_pc = None, source_locations = locs, started = True, recorded_syscalls = [],
            tabled_paths = tabled\<rparr>))"

definition new_tracer ::
  "ids \<Rightarrow> tracer_io \<Rightarrow> string \<Rightarrow> string \<Rightarrow> (u64 \<times> string \<times> u32) list \<Rightarrow> (string, CodeTracerTracer) outcome" where
  "new_tracer W io source_path out_dir locations =
     new_with_columns W io source_path out_dir (map (\<lambda>(a, f, l). (a, f, l, None)) locations)"

definition finish :: "tracer_io \<Rightarrow> CodeTracerTracer \<Rightarrow> (string, unit) outcome \<times> CodeTracerTracer" where
  "finish io s =
     (let t1 = writer s @ [Return NoneValue]; t2 = t1 @ [FinishEvents];
          t3 = t2 @ [WriteMeta ''codetracer-solana-recorder'']; t4 = t3 @ [Close] in
      case io_finish io t1 of Some e \<Rightarrow> (Err e, s\<lparr>writer := t2\<rparr>) | None \<Rightarrow>
      case io_write_meta io t2 of Some e \<Rightarrow> (Err e, s\<lparr>writer := t3\<rparr>) | None \<Rightarrow>
      case io_close io t3 of Some e \<Rightarrow> (Err e, s\<lparr>writer := t4\<rparr>) | None \<Rightarrow>
      (Ok (), s\<lparr>writer := t4\<rparr>))"

text \<open>The call and return heuristic on the jump from the previous program counter.\<close>

definition jump_events :: "ids \<Rightarrow> u64 option \<Rightarrow> u64 \<Rightarrow> string \<Rightarrow> u32 \<Rightarrow> trace \<Rightarrow> trace" where
  "jump_events W prev a file_str line t =
     (case prev of
        None \<Rightarrow> t
      | Some p \<Rightarrow>
          (let diff = (if a > p then a - p else p - a) in
           if diff > 2 \<and> a > p then
             (let (fid, t') = ensure_function_id W (''fn_at_pc_'' @ dec_word a) file_str (uint line) t
              in t' @ [Call fid []])
           else if diff > 2 \<and> a < p then t @ [Return NoneValue]
           else t))"

definition register_events :: "type_id option \<Rightarrow> u64 list \<Rightarrow> trace" where
  "register_events tid regs =
     (case tid of
        None \<Rightarrow> []
      | Some i \<Rightarrow> map (\<lambda>r. Variable (CHR ''r'' # dec_nat r) (IntV (sint (regs ! r)) i)) [0..<11])"

definition ct_on_step :: "ids \<Rightarrow> u64 \<Rightarrow> u64 list \<Rightarrow> CodeTracerTracer \<Rightarrow> CodeTracerTracer" where
  "ct_on_step W a regs s =
     (if \<not> started s then s else
      case source_locations s a of
        None \<Rightarrow> s
      | Some (file_str, line, col) \<Rightarrow>
          (let t1 = jump_events W (prev_pc s) a file_str line (writer s);
               column = (if file_str \<in> set (tabled_paths s) then col else None);
               line_changed = prev_line s \<noteq> Some line;
               column_changed = column \<noteq> None \<and> prev_column s \<noteq> column;
               fresh = line_changed \<or> column_changed;
               t2 = (if fresh then t1 @ [Step file_str (uint line) (map_option uint column)] else t1)
           in s\<lparr>writer := t2 @ register_events (u64_type s) regs,
                prev_line := if fresh then Some line else prev_line s,
                prev_column := if fresh then column else prev_column s,
                prev_pc := Some a\<rparr>))"

definition starts_with :: "string \<Rightarrow> string \<Rightarrow> bool" where
  "starts_with p s \<longleftrightarrow> take (length p) s = p"

definition ct_on_syscall :: "string \<Rightarrow> CodeTracerTracer \<Rightarrow> CodeTracerTracer" where
  "ct_on_syscall name s =
     (let s1 = s\<lparr>recorded_syscalls := recorded_syscalls s @ [name]\<rparr> in
      if \<not> started s1 then s1
      else s1\<lparr>writer := writer s1 @
             [Special (if starts_with ''sol_log'' name then WriteEvent else TraceLogEvent) name '''']\<rparr>)"

definition code_tracer :: "ids \<Rightarrow> CodeTracerTracer SbpfTracer" where
  "code_tracer W = default_tracer\<lparr>
     on_step := (\<lambda>a _ regs s. ct_on_step W a regs s),
     on_syscall := (\<lambda>name _ s. ct_on_syscall name s)\<rparr>"

section \<open>The raw register file\<close>

lemma fill_rows:
  "(k + length regs) * 8 \<le> length buf \<Longrightarrow>
   fold (\<lambda>(i, v) buf. splice buf (i * 8) (to_le 8 (v :: u64))) (List.enumerate k regs) buf
   = take (k * 8) buf @ regs_row regs @ drop ((k + length regs) * 8) buf"
proof (induction regs arbitrary: k buf)
  case Nil
  then show ?case by (simp add: regs_row_def)
next
  case (Cons v regs)
  let ?buf = "splice buf (k * 8) (to_le 8 v)"
  have len: "length ?buf = length buf" using Cons.prems by simp
  have "(Suc k + length regs) * 8 \<le> length ?buf" using Cons.prems len by simp
  note ih = Cons.IH [OF this]
  have "take (Suc k * 8) ?buf = take (k * 8) buf @ to_le 8 v"
    using Cons.prems by (simp add: splice_def)
  moreover have "drop ((Suc k + length regs) * 8) ?buf = drop ((Suc k + length regs) * 8) buf"
    using Cons.prems by (simp add: splice_def algebra_simps)
  ultimately show ?case using ih by (simp add: regs_row_def)
qed

lemma register_step:
  "length regs = 12 \<Longrightarrow>
   on_step (register_tracer sink) a i regs t
   = t\<lparr>out_file := sink (out_file t) (regs_row regs), rows_written := rows_written t + 1\<rparr>"
  using fill_rows [of 0 regs "replicate 96 0"]
  by (simp add: register_tracer_def default_tracer_def Let_def ROW_SIZE_eq)

text \<open>What the file holds stays there, whatever is written after it.\<close>

interpretation raw: driven_tracer "register_tracer (\<lambda>f b. f @ b)" "\<lambda>t. \<exists>rest. out_file t = held @ rest" for held
  by unfold_locales (auto simp: register_tracer_def default_tracer_def Let_def)

lemma register_steps:
  "\<forall>s\<in>set snaps. length (registers s) = 12 \<Longrightarrow>
   foldl (\<lambda>t snap. on_step (register_tracer (\<lambda>f b. f @ b)) (pc snap) 0 (registers snap) t) t snaps
   = t\<lparr>out_file := out_file t @ regs_data (map registers snaps),
       rows_written := rows_written t + of_nat (length snaps)\<rparr>"
  by (induction snaps arbitrary: t) (simp_all add: register_step regs_data_def)

section \<open>Steps of the CodeTracer tracer\<close>

text \<open>The steps of a trace, as line and column.\<close>

fun steps_of :: "trace \<Rightarrow> (int \<times> int option) list" where
  "steps_of [] = []"
| "steps_of (Step f l c # t) = (l, c) # steps_of t"
| "steps_of (_ # t) = steps_of t"

fun is_step :: "event \<Rightarrow> bool" where
  "is_step (Step f l c) = True"
| "is_step e = False"

lemma steps_append [simp]: "steps_of (t @ u) = steps_of t @ steps_of u"
  by (induction t rule: steps_of.induct) auto

lemma steps_none: "list_all (\<lambda>e. \<not> is_step e) t \<Longrightarrow> steps_of t = []"
  by (induction t rule: steps_of.induct) auto

lemma steps_registers [simp]: "steps_of (register_events tid regs) = []"
  by (rule steps_none) (auto simp: register_events_def list_all_iff split: option.splits)

lemma nest_registers: "nest n (register_events tid regs) = Some n"
  by (rule nest_plain) (auto simp: register_events_def list_all_iff split: option.splits)

lemma pc_at: "pc \<lparr>registers = replicate 11 0 @ [a]\<rparr> = a"
  by (simp add: pc_def nth_append)

lemma steps_jump [simp]: "steps_of (jump_events W p a f l t) = steps_of t"
  by (auto simp: jump_events_def ensure_function_id_def Let_def split: option.splits)

text \<open>The last recorded step is the one the tracer remembers, and no two consecutive steps
  carry the same line and column.\<close>

definition steps_ok :: "CodeTracerTracer \<Rightarrow> bool" where
  "steps_ok s \<longleftrightarrow>
     distinct_adj (steps_of (writer s))
   \<and> (case prev_line s of
        None \<Rightarrow> steps_of (writer s) = [] \<and> prev_column s = None
      | Some l \<Rightarrow> steps_of (writer s) \<noteq> []
                \<and> last (steps_of (writer s)) = (uint l, map_option uint (prev_column s)))"

lemma distinct_adj_snoc:
  "distinct_adj (xs @ [x]) \<longleftrightarrow> distinct_adj xs \<and> (xs = [] \<or> last xs \<noteq> x)"
  by (auto simp: distinct_adj_append_iff)

lemma map_uint_inj: "map_option uint x = map_option uint y \<longleftrightarrow> x = y" for x y :: "u32 option"
  by (cases x; cases y) (auto simp: word_uint_eq_iff)

lemma step_ok: "steps_ok s \<Longrightarrow> steps_ok (ct_on_step W a regs s)"
  by (auto simp: steps_ok_def ct_on_step_def Let_def distinct_adj_snoc map_uint_inj word_uint_eq_iff
      split: option.splits prod.splits if_splits)

lemma syscall_ok: "steps_ok s \<Longrightarrow> steps_ok (ct_on_syscall name s)"
  by (simp add: steps_ok_def ct_on_syscall_def Let_def split: option.splits)

interpretation code: driven_tracer "code_tracer W" steps_ok for W
  by unfold_locales (simp_all add: code_tracer_def default_tracer_def step_ok)

lemma register_locations_steps:
  "register_locations rd ls rgd tab locs t = (tab', locs', t') \<Longrightarrow> steps_of t' = steps_of t"
  by (induction rd ls rgd tab locs t rule: register_locations.induct)
    (auto simp: Let_def split: if_splits)

lemma new_tracer_ok: "new_with_columns W io p d locs = Ok s \<Longrightarrow> steps_ok s"
  by (auto simp: new_with_columns_def result_simps check_io_def Let_def steps_ok_def ensure_type_id_def
      ensure_function_id_def dest!: register_locations_steps split: prod.splits option.splits)

section \<open>Properties\<close>

text \<open>
  The raw register file. Feeding well-formed snapshots to the register tracer, from an
  empty file that takes every write, leaves a file that \<open>parse_regs_file\<close> reads back as
  those snapshots, and counts one row for each.
\<close>

theorem register_tracer_roundtrip:
  assumes "list_all wf_snapshot snaps"
  shows "let t = replay_snapshots (register_tracer (\<lambda>f b. f @ b)) snaps \<lparr>out_file = [], rows_written = 0\<rparr>
         in parse_regs_file (out_file t) = Ok snaps \<and> rows_written t = of_nat (length snaps)"
proof -
  have wf: "\<forall>s\<in>set snaps. length (registers s) = 12"
    using assms by (auto simp: list_all_iff wf_snapshot_def NUM_REGISTERS_def)
  have start: "on_start (register_tracer sink) a t = t" "on_exit (register_tracer sink) a t = t" for sink a t
    by (simp_all add: register_tracer_def default_tracer_def)
  have "parse_regs_file (regs_data (map registers snaps)) = Ok (map (\<lambda>s. \<lparr>registers = registers s\<rparr>) snaps)"
    using parse_regs_data [of "map registers snaps"] wf by (simp add: comp_def)
  then have "parse_regs_file (regs_data (map registers snaps)) = Ok snaps"
    by (simp add: map_idI)
  with register_steps [OF wf] show ?thesis
    by (cases snaps) (simp_all add: replay_snapshots_def Let_def start regs_data_def)
qed

theorem register_tracer_roundtrip_witness:
  "rows_written (replay_snapshots (register_tracer (\<lambda>f b. f @ b))
     [\<lparr>registers = [0, 1, 2, 3, 4, 5, 6, 7, 8, 9, 10, 11]\<rparr>] \<lparr>out_file = [], rows_written = 0\<rparr>) = 1"
  using register_tracer_roundtrip [of "[\<lparr>registers = [0, 1, 2, 3, 4, 5, 6, 7, 8, 9, 10, 11]\<rparr>]"]
  by (simp add: wf_snapshot_def NUM_REGISTERS_def Let_def)

text \<open>
  From creation to \<open>finish\<close>: the number \<open>finish\<close> returns is the number of snapshots the file
  holds (up to its own width), and it fails only when flushing does.
\<close>

theorem register_tracer_finishes:
  assumes "list_all wf_snapshot snaps" "new_register_tracer create p = Inr t0"
    and "t = replay_snapshots (register_tracer (\<lambda>f b. f @ b)) snaps t0"
  shows "case finish_register_tracer flush t of
           Inl e \<Rightarrow> \<exists>why. flush (out_file t) = Some why
         | Inr n \<Rightarrow> \<exists>snaps'. parse_regs_file (out_file t) = Ok snaps' \<and> snaps' = snaps \<and> n = of_nat (length snaps')"
proof -
  have "t0 = \<lparr>out_file = [], rows_written = 0\<rparr>"
    using assms(2) by (auto simp: new_register_tracer_def split: option.splits)
  with register_tracer_roundtrip [OF assms(1)] assms(3) show ?thesis
    by (auto simp: finish_register_tracer_def Let_def split: option.splits)
qed

text \<open>
  C36: no repeated step. However a freshly created CodeTracer tracer is driven through a
  list of snapshots, two steps in a row in its trace never carry the same line and the same
  column.
\<close>

theorem tracer_steps_distinct:
  assumes "new_with_columns W io source_path out_dir locs = Ok s"
  shows "distinct_adj (steps_of (writer (replay_snapshots (code_tracer W) snaps s)))"
  using code.replay_inv [OF new_tracer_ok [OF assms]] by (simp add: steps_ok_def)

definition sample_ids :: ids where
  "sample_ids = \<lparr>type_id_of = (\<lambda>t k n. length t), raw_type_id_of = (\<lambda>t r. length t),
     function_id_of = (\<lambda>t n p l. length t)\<rparr>"

definition sample_io :: tracer_io where
  "sample_io = \<lparr>io_create_dir = (\<lambda>p. None), io_begin = (\<lambda>p. None), io_finish = (\<lambda>t. None),
     io_write_meta = (\<lambda>t. None), io_close = (\<lambda>t. None), io_read = (\<lambda>p. None)\<rparr>"

definition sample_tracer :: CodeTracerTracer where
  "sample_tracer = (case new_with_columns sample_ids sample_io ''a.rs'' ''out''
      [(10, ''a.rs'', 3, Some 1), (4, ''b.rs'', 3, None)] of Ok s \<Rightarrow> s)"

lemma sample_tracer_ok:
  "new_with_columns sample_ids sample_io ''a.rs'' ''out''
     [(10, ''a.rs'', 3, Some 1), (4, ''b.rs'', 3, None)] = Ok sample_tracer"
  by (simp add: sample_tracer_def new_with_columns_def check_io_def sample_io_def Let_def
      split: prod.splits)

theorem tracer_steps_distinct_witness:
  "distinct_adj (steps_of (writer (replay_snapshots (code_tracer sample_ids)
     [\<lparr>registers = replicate 11 0 @ [10]\<rparr>, \<lparr>registers = replicate 11 0 @ [4]\<rparr>] sample_tracer)))"
  by (rule tracer_steps_distinct [OF sample_tracer_ok])

text \<open>
  What the heuristics cost. The tracer compares lines but not files, and takes every
  backward jump of more than two slots for a return. A jump back into another file on the
  same line number therefore records no step there, and it closes the only open call, so
  that the trace, once finished, has a return without a call.
\<close>

theorem tracer_misreads_backward_jump:
  "let t = writer (snd (finish sample_io (replay_snapshots (code_tracer sample_ids)
             [\<lparr>registers = replicate 11 0 @ [10]\<rparr>, \<lparr>registers = replicate 11 0 @ [4]\<rparr>] sample_tracer)))
   in steps_of t = [(3, None)] \<and> nest 0 t = None"
  by (simp add: Let_def finish_def sample_io_def replay_snapshots_def code_tracer_def default_tracer_def
      sample_tracer_def new_with_columns_def check_io_def ct_on_step_def jump_events_def
      ensure_type_id_def ensure_function_id_def read_line_lengths_for_path_def synthetic_path_def
      pc_at nest_append nest_registers)

end
