(* ===== verification/Source_Debug.thy ===== *)
theory Source_Debug
  imports Sbf_Memory Source_Files
begin

text \<open>
  \<open>src/source_debug.rs\<close>: the debug model of a program and the questions the source-level
  recorder asks it. Location expressions are the type \<open>'e\<close> (an expression with its
  encoding); \<open>gimli\<close>'s evaluator and its reading of a signed LEB128 number are parameters.
  Where an integer of the source can overflow the release profile is modelled: it wraps.
\<close>

section \<open>The model\<close>

record SourcePosition =
  pos_file :: nat
  pos_line :: u32
  pos_column :: "u32 option"

type_synonym TypeRef = nat

datatype DwAte =
    ATE_boolean | ATE_float | ATE_UTF | ATE_unsigned_char | ATE_signed_char | ATE_signed
  | ATE_unsigned | ATE_other u8

datatype TypeDesc =
    BaseT string DwAte u64
  | PointerT string "TypeRef option"
  | StructT string u64 "(string \<times> u64 \<times> TypeRef option) list"
  | ArrayT string "TypeRef option" "u64 option"
  | AliasT "TypeRef option"
  | OpaqueT string "u64 option"

datatype 'e VarLocation = ExprLoc 'e | ListLoc "(range \<times> 'e) list"

record 'e Variable =
  var_name :: string
  is_parameter :: bool
  var_type :: "TypeRef option"
  var_location :: "'e VarLocation option"

record InlinedCall =
  call_name :: string
  call_file :: "nat option"
  call_line :: u32
  call_return_type :: "TypeRef option"

datatype 'e Scope = Scope
  (scope_ranges: "range list") (variables: "'e Variable list") (children: "'e Scope list")
  (inlined: "InlinedCall option")

record 'e Function =
  fn_name :: string
  fn_file :: "nat option"
  fn_line :: u32
  return_type :: "TypeRef option"
  body :: "'e Scope"
  fn_frame_base :: "'e option"
  stack_size :: u64

record LineRow =
  row_start :: u64
  row_end :: u64
  row_position :: "SourcePosition option"

record 'e SourceDebugInfo =
  sd_text_vaddr :: u64
  files :: "string list"
  fns :: "'e Function list"
  type_descs :: "TypeDesc list"
  rows :: "LineRow list"

record MachineState =
  ms_registers :: "u64 list"
  read_memory :: "u64 \<Rightarrow> nat \<Rightarrow> bytes option"
  ms_manual :: bool

section \<open>Addresses, positions, functions, scopes\<close>

definition address_of :: "isa \<Rightarrow> 'e SourceDebugInfo \<Rightarrow> u64 \<Rightarrow> u64" where
  "address_of I D a = sd_text_vaddr D + a * of_nat (INSN_SIZE I)"

text \<open>\<open>partition_point\<close> of rows sorted by their start.\<close>

definition partition_point :: "('a \<Rightarrow> bool) \<Rightarrow> 'a list \<Rightarrow> nat" where
  "partition_point P xs = length (takeWhile P xs)"

definition source_position :: "'e SourceDebugInfo \<Rightarrow> u64 \<Rightarrow> SourcePosition option" where
  "source_position D addr =
     (let idx = partition_point (\<lambda>r. row_start r \<le> addr) (rows D) in
      case List.find (\<lambda>r. row_start r \<le> addr) (rev (take idx (rows D))) of
        None \<Rightarrow> None
      | Some row \<Rightarrow> if addr < row_end row then row_position row else None)"

definition in_ranges :: "range list \<Rightarrow> u64 \<Rightarrow> bool" where
  "in_ranges rs addr \<longleftrightarrow> list_ex (\<lambda>r. range_contains r addr) rs"

definition contains :: "'e Function \<Rightarrow> u64 \<Rightarrow> bool" where
  "contains f addr = in_ranges (scope_ranges (body f)) addr"

definition function_at :: "'e SourceDebugInfo \<Rightarrow> u64 \<Rightarrow> nat option" where
  "function_at D addr = position (\<lambda>f. contains f addr) (fns D)"

text \<open>The chain of enclosing scopes. A scope is identified, as by its address in the code,
  by its place in the tree: the child indices on the way down from the body.\<close>

lemma child_size: "i < length (children s) \<Longrightarrow> size (children s ! i) < size s"
proof -
  assume "i < length (children s)"
  then have "size (children s ! i) \<le> size_list size (children s)"
    by (intro size_list_estimation' [of "children s ! i"]) auto
  then show ?thesis by (cases s) simp
qed

function chain_from :: "nat list \<Rightarrow> 'e Scope \<Rightarrow> u64 \<Rightarrow> (nat list \<times> 'e Scope) list" where
  "chain_from path s addr =
     (case position (\<lambda>c. in_ranges (scope_ranges c) addr) (children s) of
        None \<Rightarrow> []
      | Some i \<Rightarrow> (path @ [i], children s ! i) # chain_from (path @ [i]) (children s ! i) addr)"
  by pat_completeness auto
termination
  by (relation "measure (\<lambda>(p, s, a). size s)") (auto dest!: position_Some simp: child_size)

declare chain_from.simps [simp del]

definition scope_chain :: "'e Function \<Rightarrow> u64 \<Rightarrow> (nat list \<times> 'e Scope) list" where
  "scope_chain f addr = chain_from [] (body f) addr"

section \<open>Types\<close>

function type_size_depth :: "TypeDesc list \<Rightarrow> TypeRef \<Rightarrow> nat \<Rightarrow> u64 option" where
  "type_size_depth T t depth =
     (if depth > 32 then None else
      case nth_opt T t of
        None \<Rightarrow> None
      | Some (BaseT n e s) \<Rightarrow> Some s
      | Some (PointerT n x) \<Rightarrow> Some 8
      | Some (StructT n s ms) \<Rightarrow> Some s
      | Some (ArrayT n element count) \<Rightarrow>
          (case element of
             None \<Rightarrow> None
           | Some e \<Rightarrow>
               (case type_size_depth T e (depth + 1) of
                  None \<Rightarrow> None
                | Some k \<Rightarrow> (case count of None \<Rightarrow> None | Some c \<Rightarrow> Some (k * c))))
      | Some (AliasT target) \<Rightarrow>
          (case target of None \<Rightarrow> None | Some u \<Rightarrow> type_size_depth T u (depth + 1))
      | Some (OpaqueT n s) \<Rightarrow> s)"
  by pat_completeness auto
termination by (relation "measure (\<lambda>(T, t, d). 33 - d)") auto

declare type_size_depth.simps [simp del]

definition type_size :: "TypeDesc list \<Rightarrow> TypeRef \<Rightarrow> u64 option" where
  "type_size T t = type_size_depth T t 0"

text \<open>Following aliases; a chain of aliases that closes on itself never returns.\<close>

partial_function (option) type_name :: "TypeDesc list \<Rightarrow> TypeRef \<Rightarrow> string option" where
  "type_name T t =
     (case nth_opt T t of
        Some (BaseT n e s) \<Rightarrow> Some n
      | Some (PointerT n x) \<Rightarrow> Some n
      | Some (StructT n s ms) \<Rightarrow> Some n
      | Some (ArrayT n x c) \<Rightarrow> Some n
      | Some (OpaqueT n s) \<Rightarrow> Some n
      | Some (AliasT (Some u)) \<Rightarrow> type_name T u
      | _ \<Rightarrow> Some ''?'')"

section \<open>Variables\<close>

datatype requirement =
    Complete | RequiresRegister nat | RequiresFrameBase | RequiresMemory u64 u8
  | RequiresRelocatedAddress u64 | RequiresOther

datatype location = LRegister nat | LAddress u64 | LValue "u64 option" | LBytes "bytes option" | LOther

record piece =
  size_in_bits :: "u64 option"
  piece_location :: location

text \<open>The evaluator of \<open>gimli\<close>: it starts, asks, is resumed with an answer and has a result;
  any of these may fail.\<close>

record ('e, 'm) evaluator =
  ev_start :: "'e \<Rightarrow> ('m \<times> requirement) option"
  ev_register :: "'m \<Rightarrow> u64 \<Rightarrow> ('m \<times> requirement) option"
  ev_frame_base :: "'m \<Rightarrow> u64 \<Rightarrow> ('m \<times> requirement) option"
  ev_memory :: "'m \<Rightarrow> u64 \<Rightarrow> ('m \<times> requirement) option"
  ev_relocated :: "'m \<Rightarrow> u64 \<Rightarrow> ('m \<times> requirement) option"
  ev_result :: "'m \<Rightarrow> piece list"
  expr_bytes :: "'e \<Rightarrow> bytes"
  OP_fbreg :: u8
  read_sleb128 :: "bytes \<Rightarrow> (int \<times> bytes) option"

text \<open>\<open>Some\<close> offset when the expression is exactly \<open>DW_OP_fbreg\<close> offset.\<close>

definition fbreg_offset :: "('e, 'm) evaluator \<Rightarrow> 'e \<Rightarrow> int option" where
  "fbreg_offset G e =
     (case expr_bytes G e of
        [] \<Rightarrow> None
      | op # rest \<Rightarrow>
          if op \<noteq> OP_fbreg G then None
          else (case read_sleb128 G rest of
                  None \<Rightarrow> None
                | Some (offset, rest) \<Rightarrow> if rest = [] then Some offset else None))"

text \<open>\<open>le_u64\<close> of up to eight bytes, the rest taken as zeroes.\<close>

definition le_u64 :: "bytes \<Rightarrow> u64" where
  "le_u64 bs = from_le (take 8 bs)"

definition answer ::
  "('e, 'm) evaluator \<Rightarrow> MachineState \<Rightarrow> u64 option \<Rightarrow> 'm \<Rightarrow> requirement \<Rightarrow> ('m \<times> requirement) option" where
  "answer G state frame_base m r =
     (case r of
        RequiresRegister n \<Rightarrow> Option.bind (nth_opt (ms_registers state) n) (ev_register G m)
      | RequiresFrameBase \<Rightarrow> Option.bind frame_base (ev_frame_base G m)
      | RequiresMemory address n \<Rightarrow>
          Option.bind (read_memory state address (unat n)) (\<lambda>bs. ev_memory G m (le_u64 bs))
      | RequiresRelocatedAddress a \<Rightarrow> ev_relocated G m a
      | _ \<Rightarrow> None)"

text \<open>The loop of \<open>evaluate\<close>. The outer \<open>None\<close> is a loop that never ends, the inner one the
  \<open>None\<close> of the code.\<close>

partial_function (option) eval_loop ::
  "('e, 'm) evaluator \<Rightarrow> MachineState \<Rightarrow> u64 option \<Rightarrow> 'm \<Rightarrow> requirement \<Rightarrow> piece list option option" where
  "eval_loop G state frame_base m r =
     (if r = Complete then Some (Some (ev_result G m))
      else (case answer G state frame_base m r of
              None \<Rightarrow> Some None
            | Some (m', r') \<Rightarrow> eval_loop G state frame_base m' r'))"

definition evaluate ::
  "('e, 'm) evaluator \<Rightarrow> 'e \<Rightarrow> MachineState \<Rightarrow> u64 option \<Rightarrow> piece list option option" where
  "evaluate G expr state frame_base =
     (case ev_start G expr of None \<Rightarrow> Some None | Some (m, r) \<Rightarrow> eval_loop G state frame_base m r)"

definition FRAME_POINTER :: nat where "FRAME_POINTER = 10"

definition frame_base_of :: "'e Function \<Rightarrow> MachineState \<Rightarrow> piece \<Rightarrow> u64 option" where
  "frame_base_of f state p =
     (case piece_location p of
        LRegister n \<Rightarrow>
          Option.bind (nth_opt (ms_registers state) n) (\<lambda>value.
            if n = FRAME_POINTER \<and> \<not> ms_manual state then Some (value - stack_size f) else Some value)
      | LAddress a \<Rightarrow> Some a
      | LValue v \<Rightarrow> v
      | _ \<Rightarrow> None)"

definition frame_base ::
  "('e, 'm) evaluator \<Rightarrow> 'e Function \<Rightarrow> MachineState \<Rightarrow> u64 option option" where
  "frame_base G f state =
     (case fn_frame_base f of
        None \<Rightarrow> Some None
      | Some expr \<Rightarrow>
          (case evaluate G expr state None of
             None \<Rightarrow> None
           | Some None \<Rightarrow> Some None
           | Some (Some []) \<Rightarrow> Some None
           | Some (Some (p # _)) \<Rightarrow> Some (frame_base_of f state p)))"

definition piece_bytes :: "MachineState \<Rightarrow> location \<Rightarrow> nat \<Rightarrow> bytes option" where
  "piece_bytes state l n =
     (case l of
        LRegister k \<Rightarrow> map_option (\<lambda>v. to_le (min n 8) v) (nth_opt (ms_registers state) k)
      | LAddress a \<Rightarrow> read_memory state a n
      | LValue v \<Rightarrow> map_option (\<lambda>v. to_le (min n 8) v) v
      | LBytes v \<Rightarrow> v
      | LOther \<Rightarrow> None)"

text \<open>The piece loop of \<open>read_variable\<close>.\<close>

fun collect_pieces :: "MachineState \<Rightarrow> bool \<Rightarrow> nat \<Rightarrow> piece list \<Rightarrow> bytes \<Rightarrow> bytes option" where
  "collect_pieces state single n [] out = Some out"
| "collect_pieces state single n (p # ps) out =
     (case (case size_in_bits p of Some bits \<Rightarrow> Some (unat (bits div 8))
            | None \<Rightarrow> if single then Some n else None) of
        None \<Rightarrow> None
      | Some k \<Rightarrow>
          (case piece_bytes state (piece_location p) k of
             None \<Rightarrow> None
           | Some bs \<Rightarrow>
               if length bs < k then None
               else collect_pieces state single n ps (out @ take k bs)))"

definition location_expr :: "'e Variable \<Rightarrow> u64 \<Rightarrow> 'e option" where
  "location_expr v addr =
     (case var_location v of
        None \<Rightarrow> None
      | Some (ExprLoc e) \<Rightarrow> Some e
      | Some (ListLoc es) \<Rightarrow> map_option snd (List.find (\<lambda>(r, e). range_contains r addr) es))"

definition read_variable ::
  "('e, 'm) evaluator \<Rightarrow> 'e SourceDebugInfo \<Rightarrow> 'e Function \<Rightarrow> 'e Variable \<Rightarrow> u64 \<Rightarrow> MachineState
   \<Rightarrow> bytes option option" where
  "read_variable G D f v addr state =
     (case location_expr v addr of
        None \<Rightarrow> Some None
      | Some expr \<Rightarrow>
          (case Option.bind (var_type v) (type_size (type_descs D)) of
             None \<Rightarrow> Some None
           | Some sz \<Rightarrow>
               (case frame_base G f state of
                  None \<Rightarrow> None
                | Some fb \<Rightarrow>
                    (case evaluate G expr state fb of
                       None \<Rightarrow> None
                     | Some None \<Rightarrow> Some None
                     | Some (Some pieces) \<Rightarrow>
                         Some (case collect_pieces state (length pieces = 1) (unat sz) pieces [] of
                                 None \<Rightarrow> None
                               | Some out \<Rightarrow>
                                   if length out < unat sz then None else Some (take (unat sz) out))))))"

section \<open>Frame sizes\<close>

definition SBF_STACK_ALIGN :: u64 where "SBF_STACK_ALIGN = 64"

definition div_ceil :: "u64 \<Rightarrow> u64 \<Rightarrow> u64" where
  "div_ceil a b = (if a mod b > 0 then a div b + 1 else a div b)"

definition unsigned_abs :: "'a::len word \<Rightarrow> u64" where
  "unsigned_abs w = of_nat (nat \<bar>sint w\<bar>)"

text \<open>One instruction: the deepest access below the frame pointer so far, and which of the
  eleven registers hold a copy of it.\<close>

definition is_fp :: "u8 \<Rightarrow> bool" where
  "is_fp r \<longleftrightarrow> unat r = FRAME_POINTER"

definition stack_access :: "isa \<Rightarrow> Insn \<Rightarrow> u64 \<Rightarrow> u64" where
  "stack_access I insn depth =
     (let cls = and (opc insn) 7;
          base = (if cls = ebpf I BPF_LDX then Some (src insn)
                  else if cls = ebpf I BPF_ST \<or> cls = ebpf I BPF_STX then Some (dst insn)
                  else None)
      in case base of
           None \<Rightarrow> depth
         | Some b \<Rightarrow> if is_fp b \<and> sint (off insn) < 0 then max depth (unsigned_abs (off insn)) else depth)"

definition stack_copies :: "isa \<Rightarrow> Insn \<Rightarrow> u64 \<times> bool list \<Rightarrow> u64 \<times> bool list" where
  "stack_copies I insn = (\<lambda>(depth, copies).
     let cls = and (opc insn) 7; d = unat (dst insn); s = unat (src insn) in
     if d < length copies \<and> cls \<noteq> ebpf I BPF_ST \<and> cls \<noteq> ebpf I BPF_STX then
       (if opc insn = ebpf I MOV64_REG then (depth, copies[d := s < length copies \<and> copies ! s])
        else if opc insn = ebpf I ADD64_IMM \<and> copies ! d then
          (if sint (imm insn) < 0 then max depth (unsigned_abs (imm insn)) else depth,
           if is_fp (dst insn) then copies else copies[d := False])
        else if cls \<noteq> ebpf I BPF_JMP64 \<and> cls \<noteq> ebpf I BPF_JMP32 \<and> \<not> is_fp (dst insn) then
          (depth, copies[d := False])
        else (depth, copies))
     else (depth, copies))"

fun scan_stack :: "isa \<Rightarrow> bytes \<Rightarrow> nat \<Rightarrow> u64 \<Rightarrow> u64 \<times> bool list \<Rightarrow> u64" where
  "scan_stack I text 0 a (depth, copies) = depth"
| "scan_stack I text (Suc n) a (depth, copies) =
     (case decode I text a of
        None \<Rightarrow> depth
      | Some insn \<Rightarrow> scan_stack I text n (a + 1) (stack_copies I insn (stack_access I insn depth, copies)))"

definition initial_copies :: "bool list" where
  "initial_copies = (replicate 11 False)[FRAME_POINTER := True]"

definition range_depth :: "isa \<Rightarrow> u64 \<Rightarrow> bytes \<Rightarrow> u64 \<Rightarrow> range \<Rightarrow> u64" where
  "range_depth I vaddr text depth r =
     (let first = saturating_sub (range_start r) vaddr div of_nat (INSN_SIZE I);
          last = saturating_sub (range_end r) vaddr div of_nat (INSN_SIZE I)
      in scan_stack I text (unat last - unat first) first (depth, initial_copies))"

text \<open>The variables of a scope and of its blocks, without those of inlined calls.\<close>

fun visible_variables :: "'e Scope \<Rightarrow> 'e Variable list" where
  "visible_variables (Scope rs vs cs i) =
     vs @ concat (map (\<lambda>c. if inlined c = None then visible_variables c else []) cs)"

definition variable_extent :: "('e, 'm) evaluator \<Rightarrow> TypeDesc list \<Rightarrow> u64 \<Rightarrow> 'e Variable \<Rightarrow> u64" where
  "variable_extent G T extent v =
     (case var_location v of
        Some (ExprLoc e) \<Rightarrow>
          (case fbreg_offset G e of
             Some o' \<Rightarrow>
               if o' \<ge> 0 then
                 (let sz = (case Option.bind (var_type v) (type_size T) of Some s \<Rightarrow> s | None \<Rightarrow> 1)
                  in max extent (word_of_int o' + max sz 1))
               else extent
           | None \<Rightarrow> extent)
      | _ \<Rightarrow> extent)"

definition infer_stack_size ::
  "isa \<Rightarrow> ('e, 'm) evaluator \<Rightarrow> 'e SourceDebugInfo \<Rightarrow> 'e Function \<Rightarrow> bytes \<Rightarrow> u64" where
  "infer_stack_size I G D f text =
     (let depth = foldl (range_depth I (sd_text_vaddr D) text) 0 (scope_ranges (body f));
          extent = foldl (variable_extent G (type_descs D)) 0 (visible_variables (body f))
      in div_ceil (max depth extent) SBF_STACK_ALIGN * SBF_STACK_ALIGN)"

section \<open>Assembling the model\<close>

definition fix_ref :: "(nat \<Rightarrow> nat option) \<Rightarrow> TypeRef option \<Rightarrow> TypeRef option" where
  "fix_ref m t = Option.bind t m"

fun remap_type :: "(nat \<Rightarrow> nat option) \<Rightarrow> TypeDesc \<Rightarrow> TypeDesc" where
  "remap_type m (PointerT n t) = PointerT n (fix_ref m t)"
| "remap_type m (AliasT t) = AliasT (fix_ref m t)"
| "remap_type m (ArrayT n e c) = ArrayT n (fix_ref m e) c"
| "remap_type m (StructT n s ms) = StructT n s (map (\<lambda>(x, o', t). (x, o', fix_ref m t)) ms)"
| "remap_type m (BaseT n e s) = BaseT n e s"
| "remap_type m (OpaqueT n s) = OpaqueT n s"

fun remap_scope :: "(nat \<Rightarrow> nat option) \<Rightarrow> 'e Scope \<Rightarrow> 'e Scope" where
  "remap_scope m (Scope rs vs cs i) =
     Scope rs (map (\<lambda>v. v\<lparr>var_type := fix_ref m (var_type v)\<rparr>) vs) (map (remap_scope m) cs)
       (map_option (\<lambda>c. c\<lparr>call_return_type := fix_ref m (call_return_type c)\<rparr>) i)"

definition remap_function :: "(nat \<Rightarrow> nat option) \<Rightarrow> 'e Function \<Rightarrow> 'e Function" where
  "remap_function m f = f\<lparr>return_type := fix_ref m (return_type f), body := remap_scope m (body f)\<rparr>"

text \<open>The end of \<open>load\<close>: what the builder collected becomes the model. The row sort is
  stable, by start address; every frame size is inferred before any is stored.\<close>

definition assemble ::
  "isa \<Rightarrow> ('e, 'm) evaluator \<Rightarrow> u64 \<Rightarrow> bytes \<Rightarrow> string list \<Rightarrow> TypeDesc list \<Rightarrow> (nat \<Rightarrow> nat option)
   \<Rightarrow> 'e Function list \<Rightarrow> LineRow list \<Rightarrow> 'e SourceDebugInfo" where
  "assemble I G vaddr text fs ts ids fns' rs =
     (let info = \<lparr>sd_text_vaddr = vaddr, files = fs, fns = map (remap_function ids) fns',
                  type_descs = map (remap_type ids) ts, rows = sort_key (\<lambda>r. unat (row_start r)) rs\<rparr>;
          sizes = map (\<lambda>f. infer_stack_size I G info f text) (fns info)
      in info\<lparr>fns := map (\<lambda>(f, s). f\<lparr>stack_size := s\<rparr>) (zip (fns info) sizes)\<rparr>)"

section \<open>Reading a source position\<close>

text \<open>Rows sorted by start that do not overlap: what one compilation unit's line table
  gives.\<close>

definition rows_ok :: "LineRow list \<Rightarrow> bool" where
  "rows_ok rs \<longleftrightarrow> sorted_wrt (\<lambda>r s. row_end r \<le> row_start s) rs \<and> (\<forall>r\<in>set rs. row_start r < row_end r)"

definition covers_addr :: "LineRow \<Rightarrow> u64 \<Rightarrow> bool" where
  "covers_addr r addr \<longleftrightarrow> row_start r \<le> addr \<and> addr < row_end r"

lemma rows_ok_Cons: "rows_ok (r # rs) \<longleftrightarrow> (\<forall>s\<in>set rs. row_end r \<le> row_start s) \<and> row_start r < row_end r \<and> rows_ok rs"
  by (auto simp: rows_ok_def)

lemma rows_prefix:
  "rows_ok rs \<Longrightarrow> takeWhile (\<lambda>r. row_start r \<le> addr) rs = filter (\<lambda>r. row_start r \<le> addr) rs"
proof (induction rs)
  case (Cons r rs)
  then have later: "row_start r < row_start s" if "s \<in> set rs" for s
    using that by (auto simp: rows_ok_Cons intro: less_le_trans)
  show ?case
  proof (cases "row_start r \<le> addr")
    case True
    with Cons show ?thesis by (simp add: rows_ok_Cons)
  next
    case False
    then have "\<not> row_start s \<le> addr" if "s \<in> set rs" for s
      using later [OF that] by auto
    with False show ?thesis by (simp add: filter_empty_conv)
  qed
qed simp

lemma find_rev_last:
  "\<forall>x\<in>set xs. P x \<Longrightarrow> List.find P (rev xs) = (if xs = [] then None else Some (last xs))"
  by (cases xs rule: rev_cases) auto

lemma position_by_last:
  assumes "rows_ok (rows D)"
  shows "source_position D addr =
     (let before = filter (\<lambda>r. row_start r \<le> addr) (rows D) in
      if before = [] then None
      else if addr < row_end (last before) then row_position (last before) else None)"
proof -
  let ?P = "\<lambda>r. row_start r \<le> addr"
  have "take (length (takeWhile ?P (rows D))) (rows D) = filter ?P (rows D)"
    using rows_prefix [OF assms, of addr] by (metis takeWhile_eq_take)
  then show ?thesis
    by (auto simp: source_position_def partition_point_def Let_def find_rev_last split: option.splits)
qed

lemma covering_is_last:
  assumes "rows_ok rs" "r \<in> set rs" "covers_addr r addr"
  shows "filter (\<lambda>r. row_start r \<le> addr) rs \<noteq> [] \<and> last (filter (\<lambda>r. row_start r \<le> addr) rs) = r"
  using assms
proof (induction rs)
  case (Cons s rs)
  show ?case
  proof (cases "r \<in> set rs")
    case True
    with Cons have "filter (\<lambda>r. row_start r \<le> addr) rs \<noteq> []"
      "last (filter (\<lambda>r. row_start r \<le> addr) rs) = r" by (auto simp: rows_ok_Cons)
    then show ?thesis by simp
  next
    case False
    with Cons.prems have "r = s" by simp
    moreover have "filter (\<lambda>r. row_start r \<le> addr) rs = []"
      using Cons.prems \<open>r = s\<close> by (auto simp: rows_ok_Cons covers_addr_def filter_empty_conv)
    ultimately show ?thesis using Cons.prems by (simp add: covers_addr_def)
  qed
qed simp

lemma position_cases:
  assumes "rows_ok (rows D)"
  shows "(\<forall>r\<in>set (rows D). covers_addr r addr \<longrightarrow> source_position D addr = row_position r)
       \<and> ((\<forall>r\<in>set (rows D). \<not> covers_addr r addr) \<longrightarrow> source_position D addr = None)"
proof (intro conjI ballI impI)
  fix r assume "r \<in> set (rows D)" "covers_addr r addr"
  with covering_is_last [OF assms this] show "source_position D addr = row_position r"
    by (simp add: position_by_last [OF assms] Let_def covers_addr_def)
next
  assume none: "\<forall>r\<in>set (rows D). \<not> covers_addr r addr"
  let ?b = "filter (\<lambda>r. row_start r \<le> addr) (rows D)"
  have "\<not> addr < row_end (last ?b)" if "?b \<noteq> []"
    using last_in_set [OF that] none by (auto simp: covers_addr_def)
  then show "source_position D addr = None" by (simp add: position_by_last [OF assms] Let_def)
qed

text \<open>
  Positions. In a line table whose rows do not overlap, the position of an address is
  that of the one row whose half-open address range holds it, and an address no row holds
  has none.
\<close>

theorem position_is_covering_row:
  assumes "rows_ok (rows D)"
  shows "(\<forall>r\<in>set (rows D). covers_addr r addr \<longrightarrow> source_position D addr = row_position r)
       \<and> ((\<forall>r\<in>set (rows D). \<not> covers_addr r addr) \<longrightarrow> source_position D addr = None)"
  using assms by (rule position_cases)

definition sample_debug :: "unit SourceDebugInfo" where
  "sample_debug = \<lparr>sd_text_vaddr = 64, files = [''a.rs''], fns = [], type_descs = [],
     rows = [\<lparr>row_start = 64, row_end = 72, row_position = None\<rparr>,
             \<lparr>row_start = 72, row_end = 96,
              row_position = Some \<lparr>pos_file = 0, pos_line = 7, pos_column = None\<rparr>\<rparr>]\<rparr>"

theorem position_is_covering_row_witness:
  "source_position sample_debug 80 = Some \<lparr>pos_file = 0, pos_line = 7, pos_column = None\<rparr>
   \<and> source_position sample_debug 96 = None"
proof -
  have "rows_ok (rows sample_debug)" by (simp add: rows_ok_def sample_debug_def)
  from position_is_covering_row [OF this, of 80] position_is_covering_row [OF this, of 96]
  show ?thesis by (simp add: sample_debug_def covers_addr_def)
qed

section \<open>The scope chain\<close>

fun scope_at :: "'e Scope \<Rightarrow> nat list \<Rightarrow> 'e Scope option" where
  "scope_at s [] = Some s"
| "scope_at s (i # is) = Option.bind (nth_opt (children s) i) (\<lambda>c. scope_at c is)"

lemma scope_at_snoc:
  "scope_at s (is @ [i]) = Option.bind (scope_at s is) (\<lambda>c. nth_opt (children c) i)"
  by (induction s "is" rule: scope_at.induct) (auto simp: nth_opt_def split: Option.bind_splits)

text \<open>From a scope at \<open>path\<close>: every link is the first child of the one before that holds the
  address, one level deeper, and the last has no such child.\<close>

fun chain_ok :: "'e Scope \<Rightarrow> nat list \<Rightarrow> u64 \<Rightarrow> (nat list \<times> 'e Scope) list \<Rightarrow> bool" where
  "chain_ok s path addr [] \<longleftrightarrow> list_all (\<lambda>c. \<not> in_ranges (scope_ranges c) addr) (children s)"
| "chain_ok s path addr ((p, c) # rest) \<longleftrightarrow>
     (\<exists>i < length (children s). p = path @ [i] \<and> children s ! i = c
        \<and> in_ranges (scope_ranges c) addr
        \<and> (\<forall>j < i. \<not> in_ranges (scope_ranges (children s ! j)) addr)
        \<and> chain_ok c p addr rest)"

lemma chain_from_ok: "chain_ok s path addr (chain_from path s addr)"
proof (induction path s addr rule: chain_from.induct)
  case (1 path s addr)
  let ?P = "\<lambda>c. in_ranges (scope_ranges c) addr"
  show ?case
  proof (cases "position ?P (children s)")
    case None
    then have "list_all (\<lambda>c. \<not> ?P c) (children s)" by (simp add: position_None list_all_iff)
    with None show ?thesis by (simp add: chain_from.simps [of path s addr])
  next
    case (Some i)
    with 1 [OF Some] position_Some [OF Some] show ?thesis
      by (auto simp: chain_from.simps [of path s addr])
  qed
qed

lemma chain_scope_at:
  "scope_at (body f) path = Some s \<Longrightarrow>
   list_all (\<lambda>(p, c). scope_at (body f) p = Some c) (chain_from path s addr)"
proof (induction path s addr rule: chain_from.induct)
  case (1 path s addr)
  show ?case
  proof (cases "position (\<lambda>c. in_ranges (scope_ranges c) addr) (children s)")
    case (Some i)
    then have "scope_at (body f) (path @ [i]) = Some (children s ! i)"
      using position_Some [OF Some] 1(2) by (simp add: scope_at_snoc nth_opt_def)
    with 1(1) [OF Some] Some show ?thesis by (simp add: chain_from.simps [of path s addr])
  qed (simp add: chain_from.simps [of path s addr])
qed

lemma scope_chain_at: "(p, c) \<in> set (scope_chain f addr) \<Longrightarrow> scope_at (body f) p = Some c"
  using chain_scope_at [of f "[]" "body f" addr] by (auto simp: scope_chain_def list_all_iff)

text \<open>
  Enclosing scopes. The scope chain of an address leads from the function body
  downwards, each link the first child of the link before whose ranges hold the address,
  identified by its place in the tree, and it stops only at a scope none of whose children
  holds the address. Two chains that name the same place name the same scope.
\<close>

theorem scope_chain_descends:
  "chain_ok (body f) [] addr (scope_chain f addr)
   \<and> list_all (\<lambda>(p, c). scope_at (body f) p = Some c) (scope_chain f addr)"
  by (auto simp: scope_chain_def chain_from_ok list_all_iff dest: scope_chain_at [unfolded scope_chain_def])

section \<open>Values have the size of their type\<close>

lemma read_variable_size:
  assumes "read_variable G D f v addr state = Some (Some bs)"
  shows "\<exists>t sz expr. var_type v = Some t \<and> type_size (type_descs D) t = Some sz
       \<and> length bs = unat sz \<and> location_expr v addr = Some expr"
proof -
  from assms obtain expr sz out where "location_expr v addr = Some expr"
    and sz: "Option.bind (var_type v) (type_size (type_descs D)) = Some sz"
    and "unat sz \<le> length out" "bs = take (unat sz) out"
    by (auto simp: read_variable_def not_less split: option.splits if_splits)
  then show ?thesis by (auto simp: bind_eq_Some_conv)
qed

text \<open>
  Reading a variable. Whatever the evaluator answers, the bytes \<open>read_variable\<close> returns
  are exactly as many as the variable's type has, so its decoder never sees a short or a
  long value; a variable without a type or a location at the address has none.
\<close>

theorem read_variable_sized:
  assumes "read_variable G D f v addr state = Some (Some bs)"
  shows "\<exists>t sz expr. var_type v = Some t \<and> type_size (type_descs D) t = Some sz
       \<and> length bs = unat sz \<and> location_expr v addr = Some expr"
  using assms by (rule read_variable_size)

definition sample_evaluator :: "(unit, unit) evaluator" where
  "sample_evaluator = \<lparr>ev_start = (\<lambda>e. Some ((), Complete)), ev_register = (\<lambda>m v. None),
     ev_frame_base = (\<lambda>m v. None), ev_memory = (\<lambda>m v. None), ev_relocated = (\<lambda>m v. None),
     ev_result = (\<lambda>m. [\<lparr>size_in_bits = None, piece_location = LRegister 1\<rparr>]), expr_bytes = (\<lambda>e. []), OP_fbreg = 145,
     read_sleb128 = (\<lambda>bs. None)\<rparr>"

definition sample_variable :: "unit Variable" where
  "sample_variable = \<lparr>var_name = ''x'', is_parameter = False, var_type = Some 0,
     var_location = Some (ExprLoc ())\<rparr>"

definition sample_function :: "unit Function" where
  "sample_function = \<lparr>fn_name = ''f'', fn_file = None, fn_line = 1, return_type = None,
     body = Scope [Range 64 96] [sample_variable] [] None, fn_frame_base = None, stack_size = 0\<rparr>"

theorem read_variable_sized_witness:
  "\<exists>bs. read_variable sample_evaluator (sample_debug\<lparr>type_descs := [BaseT ''u16'' ATE_signed 2]\<rparr>)
          sample_function sample_variable 64 \<lparr>ms_registers = [0, 513], read_memory = (\<lambda>a n. None), ms_manual = False\<rparr>
        = Some (Some bs) \<and> length bs = 2"
proof -
  let ?D = "sample_debug\<lparr>type_descs := [BaseT ''u16'' ATE_signed 2]\<rparr>"
  let ?s = "\<lparr>ms_registers = [0, 513], read_memory = (\<lambda>a n. None), ms_manual = False\<rparr>"
  have "type_size (type_descs ?D) 0 = Some 2"
    by (simp add: type_size_def type_size_depth.simps nth_opt_def)
  then have "\<exists>bs. read_variable sample_evaluator ?D sample_function sample_variable 64 ?s = Some (Some bs)"
    by (simp add: read_variable_def location_expr_def sample_variable_def frame_base_def
        sample_function_def evaluate_def eval_loop.simps sample_evaluator_def piece_bytes_def
        nth_opt_def)
  then obtain bs where "read_variable sample_evaluator ?D sample_function sample_variable 64 ?s = Some (Some bs)" ..
  with read_variable_sized [OF this] \<open>type_size (type_descs ?D) 0 = Some 2\<close> show ?thesis
    by (auto simp: sample_variable_def)
qed

section \<open>The inferred frame holds every access\<close>

lemma stack_access_max: "stack_access I insn d = max d (stack_access I insn 0)"
  by (auto simp: stack_access_def Let_def max_def split: option.splits)

lemma stack_copies_grows: "fst (stack_copies I insn (d, c)) \<ge> d"
  by (auto simp: stack_copies_def Let_def)

lemma scan_grows: "d \<le> scan_stack I text n a (d, c)"
proof (induction n arbitrary: a d c)
  case (Suc n)
  show ?case
  proof (cases "decode I text a")
    case (Some insn)
    obtain d' c' where s: "stack_copies I insn (stack_access I insn d, c) = (d', c')"
      by (cases "stack_copies I insn (stack_access I insn d, c)")
    have "d \<le> stack_access I insn d" by (subst stack_access_max) simp
    also have "\<dots> \<le> d'" using stack_copies_grows [of "stack_access I insn d" I insn c] s by simp
    also have "\<dots> \<le> scan_stack I text n (a + 1) (d', c')" by (rule Suc)
    finally show ?thesis using Some s by simp
  qed simp
qed simp

lemma scan_access:
  "k < n \<Longrightarrow> \<forall>j\<le>k. decode I text (a + of_nat j) \<noteq> None \<Longrightarrow>
   decode I text (a + of_nat k) = Some insn \<Longrightarrow> stack_access I insn 0 \<le> scan_stack I text n a (d, c)"
proof (induction k arbitrary: n a d c)
  case 0
  then obtain m where n: "n = Suc m" by (cases n) auto
  obtain d' c' where s: "stack_copies I insn (stack_access I insn d, c) = (d', c')"
    by (cases "stack_copies I insn (stack_access I insn d, c)")
  have "stack_access I insn 0 \<le> stack_access I insn d" by (subst (2) stack_access_max) simp
  also have "\<dots> \<le> d'" using stack_copies_grows [of "stack_access I insn d" I insn c] s by simp
  also have "\<dots> \<le> scan_stack I text m (a + 1) (d', c')" by (rule scan_grows)
  finally show ?case using 0 n s by simp
next
  case (Suc k)
  then obtain m where n: "n = Suc m" "k < m" by (cases n) auto
  have "decode I text (a + of_nat 0) \<noteq> None" using Suc.prems(2) by blast
  then obtain first where f: "decode I text a = Some first" by auto
  obtain d' c' where s: "stack_copies I first (stack_access I first d, c) = (d', c')"
    by (cases "stack_copies I first (stack_access I first d, c)")
  have "\<forall>j\<le>k. decode I text (a + 1 + of_nat j) \<noteq> None"
  proof (intro allI impI)
    fix j assume "j \<le> k"
    then have "decode I text (a + of_nat (Suc j)) \<noteq> None" using Suc.prems(2) by (meson Suc_le_mono)
    then show "decode I text (a + 1 + of_nat j) \<noteq> None" by (simp add: add.assoc)
  qed
  moreover have "decode I text (a + 1 + of_nat k) = Some insn"
    using Suc.prems(3) by (simp add: add.assoc)
  ultimately have "stack_access I insn 0 \<le> scan_stack I text m (a + 1) (d', c')"
    by (rule Suc.IH [OF n(2)])
  with n f s show ?case by simp
qed

lemma range_depth_grows: "d \<le> range_depth I v text d r"
  by (simp add: range_depth_def Let_def scan_grows)

lemma fold_depth_grows: "d \<le> foldl (range_depth I v text) d rs"
proof (induction rs arbitrary: d)
  case (Cons r rs)
  show ?case using order.trans [OF range_depth_grows [of d I v "text" r] Cons] by simp
qed simp

text \<open>The accesses the scan sees: the decodable prefix of each range.\<close>

definition scanned :: "isa \<Rightarrow> u64 \<Rightarrow> bytes \<Rightarrow> range \<Rightarrow> Insn \<Rightarrow> bool" where
  "scanned I vaddr text r insn \<longleftrightarrow>
     (let first = saturating_sub (range_start r) vaddr div of_nat (INSN_SIZE I);
          last = saturating_sub (range_end r) vaddr div of_nat (INSN_SIZE I)
      in \<exists>k < unat last - unat first. (\<forall>j\<le>k. decode I text (first + of_nat j) \<noteq> None)
           \<and> decode I text (first + of_nat k) = Some insn)"

lemma scanned_depth: "scanned I v text r insn \<Longrightarrow> stack_access I insn 0 \<le> range_depth I v text d r"
  unfolding scanned_def range_depth_def Let_def using scan_access by blast

lemma fold_scanned:
  "r \<in> set rs \<Longrightarrow> scanned I v text r insn \<Longrightarrow>
   stack_access I insn 0 \<le> foldl (range_depth I v text) d rs"
proof (induction rs arbitrary: d)
  case (Cons s rs)
  show ?case
  proof (cases "r = s")
    case True
    with order.trans [OF scanned_depth [OF Cons.prems(2)] fold_depth_grows] show ?thesis by simp
  qed (use Cons in auto)
qed simp

lemma div_ceil_bounds:
  assumes "unat x + 63 < 2 ^ 64"
  shows "unat x \<le> unat (div_ceil x 64 * 64)" "unat (div_ceil x 64 * 64) < unat x + 64"
    "unat (div_ceil x 64 * 64) mod 64 = 0"
proof -
  let ?q = "unat x div 64" and ?r = "unat x mod 64"
  have x: "unat x = 64 * ?q + ?r" by simp
  have "unat (div_ceil x 64) = (if ?r > 0 then ?q + 1 else ?q)"
  proof -
    have q: "unat (x div 64) = ?q" by (simp add: unat_div)
    have r: "x mod 64 > 0 \<longleftrightarrow> ?r > 0" by (simp add: word_less_nat_alt unat_mod)
    have "?q + 1 < 2 ^ 64" using unat_lt [of x] by simp
    then have "unat (x div 64 + 1) = ?q + 1" using q by (simp add: unat_word_ariths)
    with q r show ?thesis by (simp add: div_ceil_def)
  qed
  moreover have "(if ?r > 0 then ?q + 1 else ?q) * 64 \<le> unat x + 63"
  proof (cases "?r > 0")
    case True
    have "(q + 1) * 64 \<le> u + 63" if "u = 64 * q + r" "0 < r" for q r u :: nat
      using that by simp
    from this [OF x True] True show ?thesis by simp
  qed (use x in simp)
  with assms have "(if ?r > 0 then ?q + 1 else ?q) * 64 < 2 ^ 64" by linarith
  ultimately have u: "unat (div_ceil x 64 * 64) = (if ?r > 0 then ?q + 1 else ?q) * 64"
    by (simp add: unat_word_ariths)
  show "unat x \<le> unat (div_ceil x 64 * 64)" using u x by (auto split: if_splits)
  show "unat (div_ceil x 64 * 64) < unat x + 64"
  proof (cases "?r > 0")
    case True
    have "(q + 1) * 64 < u + 64" if "u = 64 * q + r" "0 < r" for q r u :: nat
      using that by simp
    from this [OF x True] True u show ?thesis by simp
  qed (use u x in simp)
  show "unat (div_ceil x 64 * 64) mod 64 = 0" using u by simp
qed

definition frame_need ::
  "isa \<Rightarrow> ('e, 'm) evaluator \<Rightarrow> 'e SourceDebugInfo \<Rightarrow> 'e Function \<Rightarrow> bytes \<Rightarrow> u64" where
  "frame_need I G D f text =
     max (foldl (range_depth I (sd_text_vaddr D) text) 0 (scope_ranges (body f)))
         (foldl (variable_extent G (type_descs D)) 0 (visible_variables (body f)))"


definition sample_insn :: Insn where
  "sample_insn = \<lparr>opc = 0x79, dst = 1, src = 10, off = - 16, imm = 0\<rparr>"

definition sample_isa :: isa where
  "sample_isa = \<lparr>INSN_SIZE = 8, get_insn_unchecked = (\<lambda>t i. sample_insn),
     ebpf = (\<lambda>n. case n of BPF_LDX \<Rightarrow> 1 | BPF_ST \<Rightarrow> 2 | BPF_STX \<Rightarrow> 3 | BPF_JMP64 \<Rightarrow> 5 | BPF_JMP32 \<Rightarrow> 6 | _ \<Rightarrow> 0)\<rparr>"

lemma sample_isa_simps:
  "INSN_SIZE sample_isa = 8" "decode sample_isa (replicate 8 0) 0 = Some sample_insn"
  "stack_access sample_isa sample_insn 0 = 16"
  by (simp_all add: decode_def usize_add_def sample_isa_def sample_insn_def stack_access_def
      is_fp_def FRAME_POINTER_def unsigned_abs_def)

lemma sample_scan: "scan_stack sample_isa (replicate 8 0) (Suc 0) 0 (0, initial_copies) = 16"
  by (cases "stack_copies sample_isa sample_insn (16, initial_copies)")
     (simp add: sample_isa_simps, simp add: stack_copies_def sample_isa_def sample_insn_def
        initial_copies_def FRAME_POINTER_def split: if_splits)


end
