(* ===== verification/Rust_Paths.thy ===== *)
theory Rust_Paths
  imports Rust_Prelude "HOL-Library.List_Lexorder" "HOL-Library.Char_ord" "HOL-Library.Product_Lexorder"
begin

text \<open>
  Paths and lines of text as \<open>std::path\<close> and \<open>str\<close> have them on Unix: a path is its string,
  and two paths are equal, ordered or a suffix of one another by their components.
\<close>

section \<open>Components\<close>

datatype component = RootDir | CurDir | ParentDir | Normal string

instantiation component :: linorder
begin

fun component_key :: "component \<Rightarrow> nat \<times> string" where
  "component_key RootDir = (0, [])"
| "component_key CurDir = (1, [])"
| "component_key ParentDir = (2, [])"
| "component_key (Normal s) = (3, s)"

definition less_eq_component :: "component \<Rightarrow> component \<Rightarrow> bool" where
  "less_eq_component a b \<longleftrightarrow> component_key a \<le> component_key b"

definition less_component :: "component \<Rightarrow> component \<Rightarrow> bool" where
  "less_component a b \<longleftrightarrow> component_key a < component_key b"

lemma component_key_inj: "component_key a = component_key b \<longleftrightarrow> a = b"
  by (cases a; cases b) auto

instance
proof
  fix a b c :: component
  show "a < b \<longleftrightarrow> a \<le> b \<and> \<not> b \<le> a"
    unfolding less_eq_component_def less_component_def by (rule less_le_not_le)
  show "a \<le> a" by (simp add: less_eq_component_def)
  show "a \<le> b \<Longrightarrow> b \<le> c \<Longrightarrow> a \<le> c"
    unfolding less_eq_component_def by (rule order_trans)
  show "a \<le> b \<Longrightarrow> b \<le> a \<Longrightarrow> a = b"
    unfolding less_eq_component_def component_key_inj [symmetric] by (rule antisym)
  show "a \<le> b \<or> b \<le> a" unfolding less_eq_component_def by (rule linear)
qed

end

abbreviation sep :: char where "sep \<equiv> CHR ''/''"

text \<open>The pieces between separators.\<close>

fun split_sep :: "char \<Rightarrow> string \<Rightarrow> string list" where
  "split_sep c [] = [[]]"
| "split_sep c (x # xs) =
     (if x = c then [] # split_sep c xs
      else (case split_sep c xs of p # ps \<Rightarrow> (x # p) # ps | [] \<Rightarrow> [[x]]))"

definition piece_component :: "string \<Rightarrow> component option" where
  "piece_component s =
     (if s = [] \<or> s = ''.'' then None else if s = ''..'' then Some ParentDir else Some (Normal s))"

text \<open>\<open>Path::components\<close>: repeated separators and \<open>.\<close> vanish, except a \<open>.\<close> that begins a
  relative path.\<close>

definition path_components :: "string \<Rightarrow> component list" where
  "path_components p =
     (let ps = split_sep sep p; body = List.map_filter piece_component ps in
      if p \<noteq> [] \<and> hd p = sep then RootDir # body
      else if hd ps = ''.'' then CurDir # body
      else body)"

definition is_absolute :: "string \<Rightarrow> bool" where
  "is_absolute p \<longleftrightarrow> p \<noteq> [] \<and> hd p = sep"

text \<open>\<open>Path::join\<close>.\<close>

definition join_path :: "string \<Rightarrow> string \<Rightarrow> string" where
  "join_path a b =
     (if is_absolute b then b
      else if a = [] \<or> last a = sep then a @ b else a @ [sep] @ b)"

definition suffix_of :: "'a list \<Rightarrow> 'a list \<Rightarrow> bool" where
  "suffix_of ys xs \<longleftrightarrow> length ys \<le> length xs \<and> drop (length xs - length ys) xs = ys"

text \<open>\<open>Path::ends_with\<close>.\<close>

definition path_ends_with :: "string \<Rightarrow> string \<Rightarrow> bool" where
  "path_ends_with p q \<longleftrightarrow> suffix_of (path_components q) (path_components p)"

section \<open>File names and ancestors\<close>

text \<open>A path without the separators and \<open>.\<close> components that end it, read from the back.\<close>

fun trim_back :: "string \<Rightarrow> string" where
  "trim_back [] = []"
| "trim_back [c] = (if c = sep then [] else [c])"
| "trim_back (c # d # r) =
     (if c = sep then trim_back (d # r)
      else if c = CHR ''.'' \<and> d = sep then trim_back (d # r)
      else c # d # r)"

definition trim_end_path :: "string \<Rightarrow> string" where
  "trim_end_path p = rev (trim_back (rev p))"

definition last_piece :: "string \<Rightarrow> string" where
  "last_piece q = rev (takeWhile (\<lambda>c. c \<noteq> sep) (rev q))"

definition file_name :: "string \<Rightarrow> string option" where
  "file_name p =
     (let n = last_piece (trim_end_path p) in if n = [] \<or> n = ''.'' \<or> n = ''..'' then None else Some n)"

definition file_stem :: "string \<Rightarrow> string" where
  "file_stem n =
     (let ext = takeWhile (\<lambda>c. c \<noteq> CHR ''.'') (rev n);
          before = take (length n - length ext - 1) n in
      if length ext < length n \<and> before \<noteq> [] then before else n)"

definition with_extension :: "string \<Rightarrow> string \<Rightarrow> string" where
  "with_extension p ext =
     (case file_name p of
        None \<Rightarrow> p
      | Some n \<Rightarrow>
          (let q = trim_end_path p in
           take (length q - length n) q @ file_stem n @ (if ext = [] then [] else ''.'' @ ext)))"

text \<open>\<open>Path::parent\<close>: the root and the empty path have none.\<close>

definition parent :: "string \<Rightarrow> string option" where
  "parent p =
     (let q = trim_end_path p in
      if q = [] then None
      else (let r = take (length q - length (last_piece q)) q in
            Some (if r \<noteq> [] \<and> trim_end_path r = [] then [sep] else trim_end_path r)))"

lemma trim_back_length: "length (trim_back p) \<le> length p"
  by (induction p rule: trim_back.induct) auto

lemma trim_back_no_sep: "trim_back p \<noteq> [] \<Longrightarrow> hd (trim_back p) \<noteq> sep"
  by (induction p rule: trim_back.induct) auto

lemma trim_end_length: "length (trim_end_path p) \<le> length p"
  using trim_back_length [of "rev p"] by (simp add: trim_end_path_def)

lemma last_piece_ne: "trim_end_path p \<noteq> [] \<Longrightarrow> last_piece (trim_end_path p) \<noteq> []"
  using trim_back_no_sep [of "rev p"]
  by (cases "trim_back (rev p)") (auto simp: trim_end_path_def last_piece_def)

lemma last_piece_length: "length (last_piece q) \<le> length q"
  by (metis last_piece_def length_rev length_takeWhile_le)

lemma parent_shorter: "parent p = Some q \<Longrightarrow> length q < length p"
proof -
  assume a: "parent p = Some q"
  let ?q = "trim_end_path p"
  from a have ne: "?q \<noteq> []" by (auto simp: parent_def Let_def)
  let ?r = "take (length ?q - length (last_piece ?q)) ?q"
  have r: "length ?r < length ?q"
    using last_piece_ne [OF ne] ne
    by (cases "last_piece ?q"; cases "length ?q") (auto simp: min_def)
  have "length q \<le> length ?r"
  proof (cases "?r \<noteq> [] \<and> trim_end_path ?r = []")
    case True
    with a ne have "q = [sep]" by (auto simp: parent_def Let_def)
    with True show ?thesis by (cases ?r) auto
  next
    case False
    with a ne have "q = trim_end_path ?r" by (auto simp: parent_def Let_def split: if_splits)
    then show ?thesis using trim_end_length [of ?r] by (simp only:)
  qed
  with r trim_end_length [of p] show ?thesis by linarith
qed

text \<open>\<open>Path::ancestors\<close> without the path itself.\<close>

function ancestors_above :: "string \<Rightarrow> string list" where
  "ancestors_above p = (case parent p of None \<Rightarrow> [] | Some q \<Rightarrow> q # ancestors_above q)"
  by pat_completeness auto
termination by (relation "measure length") (auto dest: parent_shorter)

declare ancestors_above.simps [simp del]

section \<open>Lines\<close>

definition strip_cr :: "string \<Rightarrow> string" where
  "strip_cr s = (if s \<noteq> [] \<and> last s = CHR 0x0D then butlast s else s)"

text \<open>\<open>str::lines\<close>: no line after a final newline; a carriage return before the newline
  belongs to it.\<close>

fun text_lines :: "string \<Rightarrow> string list" where
  "text_lines s =
     (let ps = split_sep (CHR 0x0A) s in
      map strip_cr (butlast ps) @ (if last ps = [] then [] else [last ps]))"

declare text_lines.simps [simp del]

text \<open>\<open>str::find\<close> of a string and \<open>str::split_once\<close>: at its first occurrence.\<close>

definition is_prefix :: "string \<Rightarrow> string \<Rightarrow> bool" where
  "is_prefix p s \<longleftrightarrow> take (length p) s = p"

fun find_str :: "string \<Rightarrow> string \<Rightarrow> nat option" where
  "find_str p [] = (if p = [] then Some 0 else None)"
| "find_str p (c # s) = (if is_prefix p (c # s) then Some 0 else map_option Suc (find_str p s))"

definition split_once :: "string \<Rightarrow> string \<Rightarrow> (string \<times> string) option" where
  "split_once p s = map_option (\<lambda>i. (take i s, drop (i + length p) s)) (find_str p s)"

lemma find_str_Some:
  "find_str p s = Some i \<Longrightarrow> i + length p \<le> length s \<and> take (length p) (drop i s) = p"
proof (induction s arbitrary: i)
  case (Cons c s)
  then show ?case by (auto simp: is_prefix_def split: if_splits) (metis length_Cons length_take min.cobounded1)
qed (auto split: if_splits)

lemma split_once_Some: "split_once p s = Some (a, b) \<Longrightarrow> s = a @ p @ b"
proof -
  assume "split_once p s = Some (a, b)"
  then obtain i where i: "find_str p s = Some i" "a = take i s" "b = drop (i + length p) s"
    by (auto simp: split_once_def)
  from find_str_Some [OF i(1)] have "drop i s = p @ drop (length p) (drop i s)"
    by (metis append_take_drop_id)
  then show ?thesis using i by (metis append_take_drop_id drop_drop add.commute)
qed

end
