(* ===== verification/Path_Resolver.thy ===== *)
theory Path_Resolver
  imports Rust_Paths
begin

text \<open>
  \<open>PathResolver\<close> of \<open>src/source_debug.rs\<close>: from the paths of the line table to files of
  this machine. The file system is the record \<open>fs\<close>.
\<close>

record fs =
  fs_exists :: "string \<Rightarrow> bool"
  fs_is_file :: "string \<Rightarrow> bool"
  fs_read_to_string :: "string \<Rightarrow> string option"

section \<open>Dep-info files\<close>

definition flush_path :: "string \<Rightarrow> string list \<Rightarrow> string list" where
  "flush_path current out = (if current = [] then out else out @ [current])"

text \<open>The character loop over the dependencies of one line.\<close>

fun dep_loop :: "string \<Rightarrow> string \<Rightarrow> string list \<Rightarrow> string list" where
  "dep_loop [] current out = flush_path current out"
| "dep_loop [c] current out =
     (if c = CHR '' '' then flush_path current out else flush_path (current @ [c]) out)"
| "dep_loop (c # d # s) current out =
     (if c = CHR 0x5C \<and> d = CHR '' '' then dep_loop s (current @ [CHR '' '']) out
      else if c = CHR '' '' then dep_loop (d # s) [] (flush_path current out)
      else dep_loop (d # s) (current @ [c]) out)"

definition dep_line :: "string list \<Rightarrow> string \<Rightarrow> string list" where
  "dep_line out line =
     (case split_once '': '' line of None \<Rightarrow> out | Some (_, deps) \<Rightarrow> dep_loop deps [] out)"

text \<open>\<open>sort\<close> and \<open>dedup\<close> go by the components of the paths.\<close>

fun dedup_paths :: "string list \<Rightarrow> string list" where
  "dedup_paths (p # q # ps) =
     (if path_components p = path_components q then dedup_paths (p # ps) else p # dedup_paths (q # ps))"
| "dedup_paths ps = ps"

definition parse_dep_info :: "fs \<Rightarrow> string \<Rightarrow> string list" where
  "parse_dep_info F path =
     (case fs_read_to_string F path of
        None \<Rightarrow> []
      | Some content \<Rightarrow>
          dedup_paths (sort_key path_components
            (filter is_absolute (foldl dep_line [] (text_lines content)))))"

section \<open>The resolver\<close>

record PathResolver =
  dep_info_sources :: "string list"
  crate_dirs :: "string list"

definition new_resolver :: "fs \<Rightarrow> string \<Rightarrow> PathResolver" where
  "new_resolver F elf_path =
     (let dep_info = with_extension elf_path ''d'' in
      \<lparr>dep_info_sources = (if fs_exists F dep_info then parse_dep_info F dep_info else []),
       crate_dirs = filter (\<lambda>a. fs_is_file F (join_path a ''Cargo.toml'')) (ancestors_above elf_path)\<rparr>)"

definition resolve_in_crates :: "fs \<Rightarrow> string list \<Rightarrow> string \<Rightarrow> string" where
  "resolve_in_crates F dirs path =
     (case List.find (\<lambda>dir. fs_is_file F (join_path dir path)) dirs of
        Some dir \<Rightarrow> join_path dir path
      | None \<Rightarrow> path)"

definition resolve_path :: "fs \<Rightarrow> PathResolver \<Rightarrow> string \<Rightarrow> string option \<Rightarrow> string" where
  "resolve_path F R path comp_dir =
     (if is_absolute path then path
      else (case comp_dir of
              Some dir \<Rightarrow>
                if dir \<noteq> [] then join_path dir path
                else (case filter (\<lambda>s. path_ends_with s path) (dep_info_sources R) of
                        [found] \<Rightarrow> found
                      | _ \<Rightarrow> resolve_in_crates F (crate_dirs R) path)
            | None \<Rightarrow>
                (case filter (\<lambda>s. path_ends_with s path) (dep_info_sources R) of
                   [found] \<Rightarrow> found
                 | _ \<Rightarrow> resolve_in_crates F (crate_dirs R) path)))"

section \<open>The sources of a dep-info file\<close>

lemma set_dedup: "set (dedup_paths ps) \<subseteq> set ps"
  by (induction ps rule: dedup_paths.induct) auto

lemma dedup_hd: "ps \<noteq> [] \<Longrightarrow> dedup_paths ps \<noteq> [] \<and> hd (dedup_paths ps) = hd ps"
  by (induction ps rule: dedup_paths.induct) auto

lemma dedup_covers: "path_components ` set (dedup_paths ps) = path_components ` set ps"
  by (induction ps rule: dedup_paths.induct) auto

lemma dedup_sorted:
  "sorted (map path_components ps) \<Longrightarrow> sorted_wrt (<) (map path_components (dedup_paths ps))"
proof (induction ps rule: dedup_paths.induct)
  case (1 p q ps)
  show ?case
  proof (cases "path_components p = path_components q")
    case False
    then have lt: "path_components p < path_components q" using 1(3) by (auto simp: less_le)
    have "path_components p < path_components x" if "x \<in> set (dedup_paths (q # ps))" for x
    proof -
      from that set_dedup [of "q # ps"] have "x \<in> set (q # ps)" by blast
      with 1(3) have "path_components q \<le> path_components x" by auto
      with lt show ?thesis by (rule less_le_trans)
    qed
    with 1(2) [OF False] 1(3) False show ?thesis by simp
  qed (use 1 in simp)
qed auto

text \<open>A Makefile line that lists paths: every space in a path escaped.\<close>

fun escape_spaces :: "string \<Rightarrow> string" where
  "escape_spaces [] = []"
| "escape_spaces (c # s) = (if c = CHR '' '' then [CHR 0x5C, CHR '' ''] else [c]) @ escape_spaces s"

definition makefile_deps :: "string list \<Rightarrow> string" where
  "makefile_deps ps = concat (map (\<lambda>p. CHR '' '' # escape_spaces p) ps)"

text \<open>A path that a dep-info file can carry: not empty, no backslash.\<close>

definition listable :: "string \<Rightarrow> bool" where
  "listable p \<longleftrightarrow> p \<noteq> [] \<and> CHR 0x5C \<notin> set p"

lemma dep_loop_plain: "c \<noteq> CHR 0x5C \<Longrightarrow> c \<noteq> CHR '' '' \<Longrightarrow> dep_loop (c # s) cur out = dep_loop s (cur @ [c]) out"
  by (cases s) auto

lemma dep_loop_space: "dep_loop (CHR '' '' # s) cur out = dep_loop s [] (flush_path cur out)"
  by (cases s) (auto simp: flush_path_def)

lemma dep_loop_escaped:
  "CHR 0x5C \<notin> set p \<Longrightarrow> dep_loop (escape_spaces p @ s) cur out = dep_loop s (cur @ p) out"
proof (induction p arbitrary: cur)
  case (Cons c p)
  show ?case
  proof (cases "c = CHR '' ''")
    case False
    with Cons dep_loop_plain [of c "escape_spaces p @ s" cur out] show ?thesis
      by (simp add: eq_commute [of c])
  qed (use Cons in simp)
qed simp

lemma dep_loop_list:
  "\<forall>p\<in>set ps. listable p \<Longrightarrow> dep_loop (makefile_deps ps) cur out = flush_path cur out @ ps"
proof (induction ps arbitrary: cur out)
  case (Cons p ps)
  then have "CHR 0x5C \<notin> set p" "p \<noteq> []" by (auto simp: listable_def)
  then have "dep_loop (makefile_deps (p # ps)) cur out = dep_loop (makefile_deps ps) p (flush_path cur out)"
    by (simp add: makefile_deps_def dep_loop_space dep_loop_escaped)
  also have "\<dots> = flush_path p (flush_path cur out) @ ps" using Cons by simp
  finally show ?case using \<open>p \<noteq> []\<close> by (simp add: flush_path_def)
qed (simp add: makefile_deps_def)

text \<open>
  C38: dep-info. The dependencies of a Makefile line, written with every space of a path
  escaped, are read back as exactly the list of paths that was written, whatever was read
  before; and the sources of a file come out absolute, in strictly increasing component
  order (so without duplicates), one for each absolute path any line names.
\<close>

theorem dep_info_roundtrip:
  assumes "\<forall>p\<in>set ps. listable p"
  shows "dep_loop (makefile_deps ps) [] out = out @ ps
       \<and> sorted_wrt (<) (map path_components (parse_dep_info F path))
       \<and> list_all is_absolute (parse_dep_info F path)
       \<and> (\<forall>content. fs_read_to_string F path = Some content \<longrightarrow>
            path_components ` set (parse_dep_info F path)
            = path_components ` {p \<in> set (foldl dep_line [] (text_lines content)). is_absolute p})"
proof -
  have "set (parse_dep_info F path) \<subseteq> {p. is_absolute p}"
    using set_dedup by (fastforce simp: parse_dep_info_def split: option.splits)
  then have "list_all is_absolute (parse_dep_info F path)" by (auto simp: list_all_iff)
  moreover have "sorted_wrt (<) (map path_components (parse_dep_info F path))"
    by (simp add: parse_dep_info_def dedup_sorted split: option.splits)
  moreover have "dep_loop (makefile_deps ps) [] out = out @ ps"
    using dep_loop_list [OF assms, of "[]" out] by (simp add: flush_path_def)
  ultimately show ?thesis by (simp add: parse_dep_info_def dedup_covers)
qed

theorem dep_info_roundtrip_witness:
  "dep_loop (makefile_deps [''/a b.rs'', ''/c.rs'']) [] [] = [''/a b.rs'', ''/c.rs'']"
proof -
  have "\<forall>p\<in>set [''/a b.rs'', ''/c.rs'']. listable p" by (simp add: listable_def)
  from dep_info_roundtrip [OF this, of "[]"] show ?thesis by simp
qed

section \<open>Resolving\<close>

lemma split_sep_ne [simp]: "split_sep c a \<noteq> []"
  by (cases a) (auto split: list.splits)

lemma split_sep_join: "split_sep c (a @ c # b) = split_sep c a @ split_sep c b"
  by (induction a) (auto split: list.splits simp: split_sep_ne)

lemma map_filter_append: "List.map_filter f (xs @ ys) = List.map_filter f xs @ List.map_filter f ys"
  by (simp add: List.map_filter_def)

lemma absolute_components:
  "is_absolute p \<Longrightarrow> path_components p = RootDir # List.map_filter piece_component (split_sep sep p)"
  by (simp add: is_absolute_def path_components_def Let_def)

lemma relative_components:
  "\<not> is_absolute p \<Longrightarrow> hd (split_sep sep p) \<noteq> ''.'' \<Longrightarrow>
   path_components p = List.map_filter piece_component (split_sep sep p)"
  by (simp add: is_absolute_def path_components_def Let_def)

lemma join_components:
  assumes "is_absolute d" "\<not> is_absolute p" "hd (split_sep sep p) \<noteq> ''.''"
  shows "path_components (join_path d p) = path_components d @ path_components p"
proof -
  have abs: "is_absolute (join_path d p)"
    using assms(1,2) by (auto simp: join_path_def is_absolute_def)
  have "List.map_filter piece_component (split_sep sep (join_path d p))
      = List.map_filter piece_component (split_sep sep d) @ List.map_filter piece_component (split_sep sep p)"
  proof (cases "last d = sep")
    case True
    with assms(1) have d: "d = butlast d @ [sep]" by (metis append_butlast_last_id is_absolute_def)
    have j: "join_path d p = butlast d @ sep # p"
      using True assms(2) d by (metis append.assoc append_Cons append_Nil join_path_def)
    have "split_sep sep d = split_sep sep (butlast d) @ [[]]"
      using d split_sep_join [of sep "butlast d" "[]"] by (simp only: split_sep.simps)
    then show ?thesis unfolding j split_sep_join
      by (simp add: map_filter_append) (simp add: List.map_filter_def piece_component_def)
  next
    case False
    with assms(1,2) have j: "join_path d p = d @ sep # p" by (simp add: join_path_def is_absolute_def)
    show ?thesis unfolding j split_sep_join by (rule map_filter_append)
  qed
  then show ?thesis
    using absolute_components [OF abs] absolute_components [OF assms(1)] relative_components [OF assms(2,3)]
    by simp
qed

lemma suffix_of_append: "suffix_of ys (xs @ ys)"
  by (simp add: suffix_of_def)

lemma unique_filter:
  fixes f :: "'a \<Rightarrow> 'b::linorder"
  assumes "sorted_wrt (<) (map f xs)" "x \<in> set xs" "P x" "\<forall>y\<in>set xs. P y \<longrightarrow> f y = f x"
  shows "filter P xs = [x]"
  using assms
proof (induction xs)
  case (Cons y ys)
  show ?case
  proof (cases "x \<in> set ys")
    case True
    with Cons.prems(1) have lt: "f y < f x" by simp
    have "\<not> P y"
    proof
      assume "P y"
      then have "f y = f x" using Cons.prems(4) by simp
      with lt show False by simp
    qed
    have "sorted_wrt (<) (map f ys)" using Cons.prems(1) by simp
    moreover have "\<forall>z\<in>set ys. P z \<longrightarrow> f z = f x" using Cons.prems(4) by (meson list.set_intros(2))
    ultimately have "filter P ys = [x]" using Cons.IH True Cons.prems(3) by blast
    with \<open>\<not> P y\<close> show ?thesis by simp
  next
    case False
    with Cons.prems have "x = y" by simp
    have "\<not> P z" if z: "z \<in> set ys" for z
    proof
      assume "P z"
      with Cons.prems(4) z have "f z = f x" by simp
      moreover have "f x < f z" using Cons.prems(1) z \<open>x = y\<close> by simp
      ultimately show False by simp
    qed
    with \<open>x = y\<close> Cons.prems(3) show ?thesis by (simp add: filter_empty_conv)
  qed
qed simp

text \<open>
  Recovering the build's directory. When the compiler's directory was removed from the
  debug information, a relative line-table path resolves to the file of that directory as
  soon as the dep-info next to the ELF names it and names no other file that ends in the
  same path - whatever else the dep-info lists, in whatever order and however often.
\<close>

theorem resolve_recovers:
  assumes d: "is_absolute d" and p: "\<not> is_absolute p" "hd (split_sep sep p) \<noteq> ''.''"
    and info: "fs_exists F (with_extension elf ''d'')"
      "fs_read_to_string F (with_extension elf ''d'') = Some content"
    and named: "join_path d p \<in> set (foldl dep_line [] (text_lines content))"
    and only: "\<forall>s \<in> set (foldl dep_line [] (text_lines content)).
                 path_ends_with s p \<longrightarrow> path_components s = path_components (join_path d p)"
    and comp_dir: "comp_dir = None \<or> comp_dir = Some []"
  shows "path_components (resolve_path F (new_resolver F elf) p comp_dir) = path_components (join_path d p)"
proof -
  let ?S = "parse_dep_info F (with_extension elf ''d'')" and ?j = "join_path d p"
  let ?all = "set (foldl dep_line [] (text_lines content))"
  have S: "dep_info_sources (new_resolver F elf) = ?S" using info by (simp add: new_resolver_def)
  have sub: "set ?S \<subseteq> ?all" using info set_dedup by (fastforce simp: parse_dep_info_def)
  have "is_absolute ?j" using d p(1) by (auto simp: join_path_def is_absolute_def)
  with named have "path_components ?j \<in> path_components ` set ?S"
    using info by (auto simp: parse_dep_info_def dedup_covers)
  then obtain s where s: "s \<in> set ?S" "path_components s = path_components ?j" by auto
  then have "path_ends_with s p"
    by (simp add: path_ends_with_def join_components [OF d p] suffix_of_append)
  moreover have "sorted_wrt (<) (map path_components ?S)"
    by (simp add: parse_dep_info_def dedup_sorted split: option.splits)
  ultimately have "filter (\<lambda>s. path_ends_with s p) ?S = [s]"
    using only sub s by (intro unique_filter [where f = path_components]) auto
  with p(1) comp_dir s show ?thesis by (auto simp: resolve_path_def S)
qed

definition sample_fs :: fs where
  "sample_fs = \<lparr>fs_exists = (\<lambda>p. p = ''/o/x.d''), fs_is_file = (\<lambda>p. False),
     fs_read_to_string = (\<lambda>p. if p = ''/o/x.d'' then Some ''x: /q/b.rs /c/s/l.rs'' else None)\<rparr>"

theorem resolve_recovers_witness:
  "path_components (resolve_path sample_fs (new_resolver sample_fs ''/o/x.so'') ''s/l.rs'' None)
   = [RootDir, Normal ''c'', Normal ''s'', Normal ''l.rs'']"
proof -
  have ext: "with_extension ''/o/x.so'' ''d'' = ''/o/x.d''" by code_simp
  have list: "foldl dep_line [] (text_lines ''x: /q/b.rs /c/s/l.rs'') = [''/q/b.rs'', ''/c/s/l.rs'']"
    by code_simp
  have join: "join_path ''/c'' ''s/l.rs'' = ''/c/s/l.rs''" by code_simp
  have comps: "path_components ''/c/s/l.rs'' = [RootDir, Normal ''c'', Normal ''s'', Normal ''l.rs'']"
    by code_simp
  have not_other: "\<not> path_ends_with ''/q/b.rs'' ''s/l.rs''" by code_simp
  have "path_components (resolve_path sample_fs (new_resolver sample_fs ''/o/x.so'') ''s/l.rs'' None)
      = path_components (join_path ''/c'' ''s/l.rs'')"
    by (rule resolve_recovers [where content = "''x: /q/b.rs /c/s/l.rs''"])
       (use not_other in \<open>simp_all add: is_absolute_def sample_fs_def ext list join comps del: path_ends_with_def\<close>)
  then show ?thesis unfolding join comps .
qed

end
