(* ===== verification/Debug_Builder.thy ===== *)
theory Debug_Builder
  imports Source_Debug Path_Resolver
begin

text \<open>
  \<open>Builder\<close> of \<open>src/source_debug.rs\<close>: from the units of the DWARF data to the model of
  \<open>Source_Debug\<close>. What \<open>gimli\<close> reads of a unit is a tree of entries and the record
  \<open>unit_reader\<close> of its queries; an iteration that fails after some items is the list of those
  items with the error. An error of \<open>gimli\<close> is its message, and ends \<open>load\<close>.
\<close>

section \<open>What gimli reads\<close>

datatype dw_tag =
    TAG_subprogram | TAG_variable | TAG_formal_parameter | TAG_lexical_block
  | TAG_inlined_subroutine | TAG_base_type | TAG_pointer_type | TAG_reference_type | TAG_typedef
  | TAG_const_type | TAG_volatile_type | TAG_array_type | TAG_structure_type | TAG_union_type
  | TAG_enumeration_type | TAG_subroutine_type | TAG_subrange_type | TAG_member
  | TAG_variant_part | TAG_other nat

datatype dw_at =
    AT_name | AT_linkage_name | AT_decl_line | AT_decl_file | AT_type | AT_byte_size | AT_encoding
  | AT_count | AT_upper_bound | AT_data_member_location | AT_frame_base | AT_location
  | AT_abstract_origin | AT_specification

datatype 'e attr_value =
  Exprloc 'e | UnitRef nat | DebugInfoRef nat | FileIndex u64 | EncodingV DwAte | OtherAttr nat

text \<open>An entry with its children, and the error that ends their iteration, if one does.\<close>

datatype 'n node = Node (node_entry: 'n) (node_children: "'n node list") (node_failure: "string option")

text \<open>A file entry of a line program: its name and its directory, where they can be read.\<close>

record line_header =
  header_file :: "u64 \<Rightarrow> (string option \<times> string option) option"

record line_row =
  lr_address :: u64
  lr_end_sequence :: bool
  lr_file_index :: u64
  lr_line :: "u64 option"
  lr_column :: "u64 option"

record ('n, 'e) unit_reader =
  rd_tag :: "'n \<Rightarrow> dw_tag"
  rd_offset :: "'n \<Rightarrow> nat"
  rd_attr :: "'n \<Rightarrow> dw_at \<Rightarrow> string + 'e attr_value option"
  rd_entry :: "nat \<Rightarrow> 'n option"
  rd_ranges :: "'n \<Rightarrow> string + range list"
  rd_locations :: "'e attr_value \<Rightarrow> string + (range \<times> 'e) list option"
  rd_string :: "'e attr_value \<Rightarrow> string option"
  rd_udata :: "'e attr_value \<Rightarrow> u64 option"
  rd_info_offset :: "nat \<Rightarrow> nat option"
  rd_comp_dir :: "string option"
  rd_header :: "line_header option"
  rd_rows :: "line_row list"
  rd_rows_failure :: "string option"
  rd_root :: "string + 'n node"

section \<open>The builder\<close>

record 'e Builder =
  b_files :: "string list"
  b_file_ids :: "component list \<Rightarrow> nat option"
  b_types :: "TypeDesc list"
  b_type_ids :: "nat \<Rightarrow> TypeRef option"
  b_functions :: "'e Function list"
  b_rows :: "LineRow list"

definition new_builder :: "'e Builder" where
  "new_builder = \<lparr>b_files = [], b_file_ids = Map.empty, b_types = [], b_type_ids = Map.empty,
     b_functions = [], b_rows = []\<rparr>"

type_synonym file_map = "u64 \<Rightarrow> nat option"
type_synonym 'e build = "'e Builder \<times> file_map"

text \<open>The identifier of a resolved path: paths equal by their components share one.\<close>

definition intern_file :: "string \<Rightarrow> 'e Builder \<Rightarrow> nat \<times> 'e Builder" where
  "intern_file resolved B =
     (case b_file_ids B (path_components resolved) of
        Some i \<Rightarrow> (i, B)
      | None \<Rightarrow>
          (length (b_files B),
           B\<lparr>b_files := b_files B @ [resolved],
             b_file_ids := (b_file_ids B)(path_components resolved \<mapsto> length (b_files B))\<rparr>))"

definition file_id ::
  "(string \<Rightarrow> string option \<Rightarrow> string) \<Rightarrow> line_header \<Rightarrow> u64 \<Rightarrow> string option \<Rightarrow> 'e build
   \<Rightarrow> nat option \<times> 'e build" where
  "file_id resolve h index comp_dir = (\<lambda>(B, fm).
     case fm index of
       Some i \<Rightarrow> (Some i, B, fm)
     | None \<Rightarrow>
         (case header_file h index of
            Some (Some name, dir) \<Rightarrow>
              (let joined = join_path (case dir of Some d \<Rightarrow> d | None \<Rightarrow> []) name;
                   (i, B') = intern_file (resolve joined comp_dir) B
               in (Some i, B', fm(index \<mapsto> i)))
          | _ \<Rightarrow> (None, B, fm)))"

section \<open>Line rows\<close>

definition row_of :: "nat option \<Rightarrow> line_row \<Rightarrow> SourcePosition option" where
  "row_of file row =
     (case (file, lr_line row) of
        (Some f, Some line) \<Rightarrow>
          Some \<lparr>pos_file = f, pos_line = ucast line, pos_column = map_option ucast (lr_column row)\<rparr>
      | _ \<Rightarrow> None)"

definition close_row :: "(u64 \<times> SourcePosition option) option \<Rightarrow> u64 \<Rightarrow> 'e Builder \<Rightarrow> 'e Builder" where
  "close_row current addr B =
     (case current of
        Some (start, p) \<Rightarrow>
          if addr > start
          then B\<lparr>b_rows := b_rows B @ [\<lparr>row_start = start, row_end = addr, row_position = p\<rparr>]\<rparr>
          else B
      | None \<Rightarrow> B)"

fun line_rows ::
  "(string \<Rightarrow> string option \<Rightarrow> string) \<Rightarrow> line_header \<Rightarrow> string option
   \<Rightarrow> (u64 \<times> SourcePosition option) option \<Rightarrow> line_row list \<Rightarrow> 'e build \<Rightarrow> 'e build" where
  "line_rows resolve h comp_dir current [] st = st"
| "line_rows resolve h comp_dir current (row # rest) (B, fm) =
     (let B = close_row current (lr_address row) B in
      if lr_end_sequence row then line_rows resolve h comp_dir None rest (B, fm)
      else (let (file, st) = file_id resolve h (lr_file_index row) comp_dir (B, fm) in
            line_rows resolve h comp_dir (Some (lr_address row, row_of file row)) rest st))"

section \<open>Attributes\<close>

definition attr_ok :: "('n, 'e) unit_reader \<Rightarrow> 'n \<Rightarrow> dw_at \<Rightarrow> 'e attr_value option" where
  "attr_ok U n a = (case rd_attr U n a of Inr v \<Rightarrow> v | Inl e \<Rightarrow> None)"

definition origin_ref :: "('n, 'e) unit_reader \<Rightarrow> 'n \<Rightarrow> nat option" where
  "origin_ref U n =
     find_map (\<lambda>a. case attr_ok U n a of Some (UnitRef o') \<Rightarrow> Some o' | _ \<Rightarrow> None)
       [AT_abstract_origin, AT_specification]"

text \<open>At most four origins are followed.\<close>

fun attr_hops :: "('n, 'e) unit_reader \<Rightarrow> dw_at \<Rightarrow> nat \<Rightarrow> nat option \<Rightarrow> 'e attr_value option" where
  "attr_hops U a 0 next = None"
| "attr_hops U a (Suc k) next =
     (case Option.bind next (rd_entry U) of
        None \<Rightarrow> None
      | Some e \<Rightarrow> (case attr_ok U e a of Some v \<Rightarrow> Some v | None \<Rightarrow> attr_hops U a k (origin_ref U e)))"

lemma attr_hops_None [simp]: "attr_hops U a k None = None"
  by (cases k) simp_all

definition attr :: "('n, 'e) unit_reader \<Rightarrow> 'n \<Rightarrow> dw_at \<Rightarrow> 'e attr_value option" where
  "attr U n a = (case attr_ok U n a of Some v \<Rightarrow> Some v | None \<Rightarrow> attr_hops U a 4 (origin_ref U n))"

definition name_of :: "('n, 'e) unit_reader \<Rightarrow> 'n \<Rightarrow> string option" where
  "name_of U n =
     Option.bind (case attr U n AT_name of Some v \<Rightarrow> Some v | None \<Rightarrow> attr U n AT_linkage_name) (rd_string U)"

definition unwrap_or :: "'a option \<Rightarrow> 'a \<Rightarrow> 'a" where
  "unwrap_or x d = (case x of Some v \<Rightarrow> v | None \<Rightarrow> d)"

definition decl ::
  "(string \<Rightarrow> string option \<Rightarrow> string) \<Rightarrow> ('n, 'e) unit_reader \<Rightarrow> 'n \<Rightarrow> 'e build
   \<Rightarrow> (nat option \<times> u32) \<times> 'e build" where
  "decl resolve U n st =
     (let line = ucast (unwrap_or (Option.bind (attr U n AT_decl_line) (rd_udata U)) 0);
          file = (case (attr U n AT_decl_file, rd_header U) of
                    (Some (FileIndex i), Some h) \<Rightarrow> file_id resolve h i (rd_comp_dir U) st
                  | (Some v, Some h) \<Rightarrow>
                      (case rd_udata U v of
                         Some i \<Rightarrow> file_id resolve h i (rd_comp_dir U) st
                       | None \<Rightarrow> (None, st))
                  | _ \<Rightarrow> (None, st))
      in ((fst file, line), snd file))"

definition unit_ref_offset :: "('n, 'e) unit_reader \<Rightarrow> nat \<Rightarrow> nat" where
  "unit_ref_offset U o' = unwrap_or (rd_info_offset U o') o'"

definition die_offset :: "('n, 'e) unit_reader \<Rightarrow> 'n \<Rightarrow> nat" where
  "die_offset U n = unit_ref_offset U (rd_offset U n)"

definition type_attr :: "('n, 'e) unit_reader \<Rightarrow> 'n \<Rightarrow> nat option" where
  "type_attr U n =
     (case attr U n AT_type of
        Some (UnitRef o') \<Rightarrow> Some (unit_ref_offset U o')
      | Some (DebugInfoRef o') \<Rightarrow> Some o'
      | _ \<Rightarrow> None)"

definition ranges :: "('n, 'e) unit_reader \<Rightarrow> 'n \<Rightarrow> string + range list" where
  "ranges U n =
     (case rd_ranges U n of
        Inl e \<Rightarrow> Inl e
      | Inr rs \<Rightarrow> Inr (filter (\<lambda>r. range_end r > range_start r) rs))"

definition is_type_tag :: "dw_tag \<Rightarrow> bool" where
  "is_type_tag t \<longleftrightarrow> t \<in> {TAG_base_type, TAG_pointer_type, TAG_reference_type, TAG_typedef,
     TAG_const_type, TAG_volatile_type, TAG_array_type, TAG_structure_type, TAG_union_type,
     TAG_enumeration_type, TAG_subroutine_type}"

section \<open>Types\<close>

definition udata_at :: "('n, 'e) unit_reader \<Rightarrow> 'n \<Rightarrow> dw_at \<Rightarrow> string + u64 option" where
  "udata_at U n a =
     (case rd_attr U n a of Inl e \<Rightarrow> Inl e | Inr v \<Rightarrow> Inr (Option.bind v (rd_udata U)))"

definition subrange_count :: "('n, 'e) unit_reader \<Rightarrow> 'n \<Rightarrow> string + u64 option" where
  "subrange_count U n =
     (case udata_at U n AT_count of
        Inl e \<Rightarrow> Inl e
      | Inr (Some c) \<Rightarrow> Inr (Some c)
      | Inr None \<Rightarrow> Inr (map_option (\<lambda>u. u + 1) (Option.bind (attr_ok U n AT_upper_bound) (rd_udata U))))"

text \<open>The first subrange among the children.\<close>

fun array_count :: "('n, 'e) unit_reader \<Rightarrow> 'n node list \<Rightarrow> string option \<Rightarrow> string + u64 option" where
  "array_count U [] failure = (case failure of Some e \<Rightarrow> Inl e | None \<Rightarrow> Inr None)"
| "array_count U (c # cs) failure =
     (if rd_tag U (node_entry c) = TAG_subrange_type then subrange_count U (node_entry c)
      else array_count U cs failure)"

fun struct_members ::
  "('n, 'e) unit_reader \<Rightarrow> 'n node list \<Rightarrow> string option \<Rightarrow> (string \<times> u64 \<times> nat option) list \<times> bool
   \<Rightarrow> string + (string \<times> u64 \<times> nat option) list \<times> bool" where
  "struct_members U [] failure (ms, variants) = (case failure of Some e \<Rightarrow> Inl e | None \<Rightarrow> Inr (ms, variants))"
| "struct_members U (c # cs) failure (ms, variants) =
     (let n = node_entry c in
      if rd_tag U n = TAG_member then
        (case udata_at U n AT_data_member_location of
           Inl e \<Rightarrow> Inl e
         | Inr o' \<Rightarrow>
             struct_members U cs failure
               (ms @ [(unwrap_or (name_of U n) [], unwrap_or o' 0, type_attr U n)], variants))
      else struct_members U cs failure (ms, variants \<or> rd_tag U n = TAG_variant_part))"

definition base_encoding :: "('n, 'e) unit_reader \<Rightarrow> 'n \<Rightarrow> string + DwAte" where
  "base_encoding U n =
     (case rd_attr U n AT_encoding of
        Inl e \<Rightarrow> Inl e
      | Inr (Some (EncodingV x)) \<Rightarrow> Inr x
      | Inr _ \<Rightarrow> Inr ATE_unsigned)"

definition type_desc :: "('n, 'e) unit_reader \<Rightarrow> 'n node \<Rightarrow> string + TypeDesc" where
  "type_desc U node =
     (let n = node_entry node; name = unwrap_or (name_of U n) []; target = type_attr U n in
      case udata_at U n AT_byte_size of
        Inl e \<Rightarrow> Inl e
      | Inr sz \<Rightarrow>
          (case rd_tag U n of
             TAG_base_type \<Rightarrow>
               (case base_encoding U n of Inl e \<Rightarrow> Inl e | Inr x \<Rightarrow> Inr (BaseT name x (unwrap_or sz 0)))
           | TAG_pointer_type \<Rightarrow> Inr (PointerT name target)
           | TAG_reference_type \<Rightarrow> Inr (PointerT name target)
           | TAG_typedef \<Rightarrow> Inr (AliasT target)
           | TAG_const_type \<Rightarrow> Inr (AliasT target)
           | TAG_volatile_type \<Rightarrow> Inr (AliasT target)
           | TAG_array_type \<Rightarrow>
               (case array_count U (node_children node) (node_failure node) of
                  Inl e \<Rightarrow> Inl e
                | Inr count \<Rightarrow> Inr (ArrayT name target count))
           | TAG_structure_type \<Rightarrow>
               (case struct_members U (node_children node) (node_failure node) ([], False) of
                  Inl e \<Rightarrow> Inl e
                | Inr (ms, variants) \<Rightarrow>
                    Inr (if variants then OpaqueT name sz else StructT name (unwrap_or sz 0) ms))
           | _ \<Rightarrow> Inr (OpaqueT name sz)))"

definition push_type :: "('n, 'e) unit_reader \<Rightarrow> 'n node \<Rightarrow> 'e build \<Rightarrow> string + 'e build" where
  "push_type U node = (\<lambda>(B, fm).
     case type_desc U node of
       Inl e \<Rightarrow> Inl e
     | Inr desc \<Rightarrow>
         Inr (B\<lparr>b_types := b_types B @ [desc],
                b_type_ids := (b_type_ids B)(die_offset U (node_entry node) \<mapsto> length (b_types B))\<rparr>, fm))"

section \<open>Functions and scopes\<close>

definition var_location_of :: "('n, 'e) unit_reader \<Rightarrow> 'n \<Rightarrow> string + 'e VarLocation option" where
  "var_location_of U n =
     (case rd_attr U n AT_location of
        Inl e \<Rightarrow> Inl e
      | Inr None \<Rightarrow> Inr None
      | Inr (Some (Exprloc x)) \<Rightarrow> Inr (Some (ExprLoc x))
      | Inr (Some v) \<Rightarrow>
          (case rd_locations U v of
             Inl e \<Rightarrow> Inl e
           | Inr None \<Rightarrow> Inr None
           | Inr (Some es) \<Rightarrow> Inr (Some (ListLoc es))))"

definition inlined_of ::
  "(string \<Rightarrow> string option \<Rightarrow> string) \<Rightarrow> ('n, 'e) unit_reader \<Rightarrow> 'n \<Rightarrow> 'e build
   \<Rightarrow> InlinedCall option \<times> 'e build" where
  "inlined_of resolve U n st =
     (if rd_tag U n = TAG_inlined_subroutine then
        (let ((file, line), st') = decl resolve U n st in
         (Some \<lparr>call_name = unwrap_or (name_of U n) ''<inlined>'', call_file = file,
                call_line = line, call_return_type = type_attr U n\<rparr>, st'))
      else (None, st))"

text \<open>A block without code of its own leaves its variables and blocks to the enclosing
  scope.\<close>

definition add_scope :: "'e Scope \<Rightarrow> 'e Scope \<Rightarrow> 'e Scope" where
  "add_scope inner sc =
     (if scope_ranges inner = []
      then Scope (scope_ranges sc) (variables sc @ variables inner) (children sc @ children inner) (inlined sc)
      else Scope (scope_ranges sc) (variables sc) (children sc @ [inner]) (inlined sc))"

definition add_variable :: "'e Variable \<Rightarrow> 'e Scope \<Rightarrow> 'e Scope" where
  "add_variable v sc = Scope (scope_ranges sc) (variables sc @ [v]) (children sc) (inlined sc)"

text \<open>The entries below a function, block or inlined call.\<close>

fun scope_child ::
    "(string \<Rightarrow> string option \<Rightarrow> string) \<Rightarrow> ('n, 'e) unit_reader \<Rightarrow> 'n node \<Rightarrow> 'e Scope \<times> 'e build
     \<Rightarrow> string + 'e Scope \<times> 'e build"
  and scope_children ::
    "(string \<Rightarrow> string option \<Rightarrow> string) \<Rightarrow> ('n, 'e) unit_reader \<Rightarrow> 'n node list \<Rightarrow> string option
     \<Rightarrow> 'e Scope \<times> 'e build \<Rightarrow> string + 'e Scope \<times> 'e build" where
  "scope_child resolve U (Node n cs failure) (sc, st) =
     (if rd_tag U n = TAG_variable \<or> rd_tag U n = TAG_formal_parameter then
        (case name_of U n of
           None \<Rightarrow> Inr (sc, st)
         | Some name \<Rightarrow>
             (case var_location_of U n of
                Inl e \<Rightarrow> Inl e
              | Inr l \<Rightarrow>
                  Inr (add_variable \<lparr>var_name = name, is_parameter = rd_tag U n = TAG_formal_parameter,
                         var_type = type_attr U n, var_location = l\<rparr> sc, st)))
      else if rd_tag U n = TAG_lexical_block \<or> rd_tag U n = TAG_inlined_subroutine then
        (case ranges U n of
           Inl e \<Rightarrow> Inl e
         | Inr rs \<Rightarrow>
             (let (call, st) = inlined_of resolve U n st in
              case scope_children resolve U cs failure (Scope rs [] [] call, st) of
                Inl e \<Rightarrow> Inl e
              | Inr (inner, st) \<Rightarrow> Inr (add_scope inner sc, st)))
      else if is_type_tag (rd_tag U n) then
        (case push_type U (Node n cs failure) st of Inl e \<Rightarrow> Inl e | Inr st \<Rightarrow> Inr (sc, st))
      else Inr (sc, st))"
| "scope_children resolve U [] failure s = (case failure of Some e \<Rightarrow> Inl e | None \<Rightarrow> Inr s)"
| "scope_children resolve U (c # cs) failure s =
     (case scope_child resolve U c s of Inl e \<Rightarrow> Inl e | Inr s \<Rightarrow> scope_children resolve U cs failure s)"

definition frame_base_attr :: "('n, 'e) unit_reader \<Rightarrow> 'n \<Rightarrow> string + 'e option" where
  "frame_base_attr U n =
     (case rd_attr U n AT_frame_base of
        Inl e \<Rightarrow> Inl e
      | Inr (Some (Exprloc x)) \<Rightarrow> Inr (Some x)
      | Inr _ \<Rightarrow> Inr None)"

definition push_function :: "'e Function \<Rightarrow> 'e build \<Rightarrow> 'e build" where
  "push_function f = (\<lambda>(B, fm). (B\<lparr>b_functions := b_functions B @ [f]\<rparr>, fm))"

definition subprogram ::
  "(string \<Rightarrow> string option \<Rightarrow> string) \<Rightarrow> ('n, 'e) unit_reader \<Rightarrow> 'n node \<Rightarrow> range list \<Rightarrow> 'e build
   \<Rightarrow> string + 'e build" where
  "subprogram resolve U node rs st =
     (let n = node_entry node; ((file, line), st) = decl resolve U n st in
      case frame_base_attr U n of
        Inl e \<Rightarrow> Inl e
      | Inr fb \<Rightarrow>
          (case scope_children resolve U (node_children node) (node_failure node) (Scope rs [] [] None, st) of
             Inl e \<Rightarrow> Inl e
           | Inr (sc, st) \<Rightarrow>
               Inr (push_function
                 \<lparr>fn_name = unwrap_or (name_of U n) ''<anonymous>'', fn_file = file, fn_line = line,
                  return_type = type_attr U n, body = sc, fn_frame_base = fb, stack_size = 0\<rparr> st)))"

fun walk ::
    "(string \<Rightarrow> string option \<Rightarrow> string) \<Rightarrow> ('n, 'e) unit_reader \<Rightarrow> 'n node \<Rightarrow> 'e build \<Rightarrow> string + 'e build"
  and walk_children ::
    "(string \<Rightarrow> string option \<Rightarrow> string) \<Rightarrow> ('n, 'e) unit_reader \<Rightarrow> 'n node list \<Rightarrow> string option \<Rightarrow> 'e build
     \<Rightarrow> string + 'e build" where
  "walk resolve U (Node n cs failure) st =
     (if rd_tag U n = TAG_subprogram then
        (case ranges U n of
           Inl e \<Rightarrow> Inl e
         | Inr rs \<Rightarrow>
             if rs \<noteq> [] then subprogram resolve U (Node n cs failure) rs st
             else walk_children resolve U cs failure st)
      else if is_type_tag (rd_tag U n) then push_type U (Node n cs failure) st
      else walk_children resolve U cs failure st)"
| "walk_children resolve U [] failure st = (case failure of Some e \<Rightarrow> Inl e | None \<Rightarrow> Inr st)"
| "walk_children resolve U (c # cs) failure st =
     (case walk resolve U c st of Inl e \<Rightarrow> Inl e | Inr st \<Rightarrow> walk_children resolve U cs failure st)"

section \<open>Units\<close>

definition unit_line_rows ::
  "(string \<Rightarrow> string option \<Rightarrow> string) \<Rightarrow> ('n, 'e) unit_reader \<Rightarrow> 'e Builder \<Rightarrow> string + 'e build" where
  "unit_line_rows resolve U B =
     (case rd_header U of
        None \<Rightarrow> Inr (B, Map.empty)
      | Some h \<Rightarrow>
          (let st = line_rows resolve h (rd_comp_dir U) None (rd_rows U) (B, Map.empty) in
           case rd_rows_failure U of Some e \<Rightarrow> Inl e | None \<Rightarrow> Inr st))"

definition build_unit ::
  "(string \<Rightarrow> string option \<Rightarrow> string) \<Rightarrow> ('n, 'e) unit_reader \<Rightarrow> 'e Builder \<Rightarrow> string + 'e Builder" where
  "build_unit resolve U B =
     (case unit_line_rows resolve U B of
        Inl e \<Rightarrow> Inl e
      | Inr st \<Rightarrow>
          (case rd_root U of
             Inl e \<Rightarrow> Inl e
           | Inr root \<Rightarrow> (case walk resolve U root st of Inl e \<Rightarrow> Inl e | Inr (B, fm) \<Rightarrow> Inr B)))"

text \<open>The units of a program, each readable or not, and an error that ends their
  iteration.\<close>

fun build_units ::
  "(string \<Rightarrow> string option \<Rightarrow> string) \<Rightarrow> (string + ('n, 'e) unit_reader) list \<Rightarrow> string option
   \<Rightarrow> 'e Builder \<Rightarrow> string + 'e Builder" where
  "build_units resolve [] failure B = (case failure of Some e \<Rightarrow> Inl (''DWARF units: '' @ e) | None \<Rightarrow> Inr B)"
| "build_units resolve (u # us) failure B =
     (case u of
        Inl e \<Rightarrow> Inl (''DWARF unit: '' @ e)
      | Inr U \<Rightarrow>
          (case build_unit resolve U B of
             Inl e \<Rightarrow> Inl (''DWARF unit contents: '' @ e)
           | Inr B' \<Rightarrow> build_units resolve us failure B'))"

definition load_debug ::
  "isa \<Rightarrow> ('e, 'm) evaluator \<Rightarrow> fs \<Rightarrow> string \<Rightarrow> u64 \<Rightarrow> bytes
   \<Rightarrow> (string + ('n, 'e) unit_reader) list \<Rightarrow> string option \<Rightarrow> string + 'e SourceDebugInfo" where
  "load_debug I G F elf_path vaddr text us failure =
     (case build_units (resolve_path F (new_resolver F elf_path)) us failure new_builder of
        Inl e \<Rightarrow> Inl e
      | Inr B \<Rightarrow>
          Inr (assemble I G vaddr text (b_files B) (b_types B) (b_type_ids B) (b_functions B) (b_rows B)))"

end
