(* ===== verification/Debug_Model.thy ===== *)
theory Debug_Model
  imports Debug_Builder
begin

text \<open>
  What \<open>SourceDebugInfo::load\<close> guarantees of the model it returns: every file index, type
  reference and range in it is usable, so the recorder may index without a check. The
  builder's invariant is kept by every step of the walk; remapping closes the type
  references.
\<close>

section \<open>Well-formed models\<close>

definition file_in :: "nat \<Rightarrow> nat option \<Rightarrow> bool" where
  "file_in m i \<longleftrightarrow> (case i of None \<Rightarrow> True | Some k \<Rightarrow> k < m)"

text \<open>A scope whose blocks all have code, and whose inlined calls name existing files.\<close>

fun open_scope :: "nat \<Rightarrow> 'e Scope \<Rightarrow> bool" where
  "open_scope m (Scope rs vs cs i) \<longleftrightarrow>
     (\<forall>r\<in>set rs. range_start r < range_end r)
   \<and> (\<forall>c\<in>set cs. scope_ranges c \<noteq> [] \<and> open_scope m c)
   \<and> (case i of None \<Rightarrow> True | Some c \<Rightarrow> file_in m (call_file c))"

definition function_ok :: "nat \<Rightarrow> 'e Function \<Rightarrow> bool" where
  "function_ok m f \<longleftrightarrow> file_in m (fn_file f) \<and> scope_ranges (body f) \<noteq> [] \<and> open_scope m (body f)"

definition row_ok :: "nat \<Rightarrow> LineRow \<Rightarrow> bool" where
  "row_ok m r \<longleftrightarrow> row_start r < row_end r \<and> (case row_position r of None \<Rightarrow> True | Some p \<Rightarrow> pos_file p < m)"

fun desc_refs :: "TypeDesc \<Rightarrow> TypeRef option list" where
  "desc_refs (PointerT n t) = [t]"
| "desc_refs (StructT n s ms) = map (\<lambda>(x, o', t). t) ms"
| "desc_refs (ArrayT n t c) = [t]"
| "desc_refs (AliasT t) = [t]"
| "desc_refs d = []"

fun scope_refs :: "'e Scope \<Rightarrow> TypeRef option list" where
  "scope_refs (Scope rs vs cs i) =
     map var_type vs @ concat (map scope_refs cs) @ (case i of None \<Rightarrow> [] | Some c \<Rightarrow> [call_return_type c])"

definition wf_debug :: "'e SourceDebugInfo \<Rightarrow> bool" where
  "wf_debug D \<longleftrightarrow>
     (let m = length (files D); k = length (type_descs D) in
      distinct (map path_components (files D))
    \<and> list_all (row_ok m) (rows D) \<and> sorted (map row_start (rows D))
    \<and> list_all (function_ok m) (fns D)
    \<and> (\<forall>d\<in>set (type_descs D). list_all (file_in k) (desc_refs d))
    \<and> (\<forall>f\<in>set (fns D). file_in k (return_type f) \<and> list_all (file_in k) (scope_refs (body f))))"

section \<open>The invariant of the builder\<close>

definition files_ok :: "'e Builder \<Rightarrow> bool" where
  "files_ok B \<longleftrightarrow>
     (\<forall>k i. b_file_ids B k = Some i \<longleftrightarrow> i < length (b_files B) \<and> path_components (b_files B ! i) = k)"

definition builder_ok :: "'e Builder \<Rightarrow> bool" where
  "builder_ok B \<longleftrightarrow>
     (let m = length (b_files B) in
      files_ok B \<and> list_all (row_ok m) (b_rows B) \<and> list_all (function_ok m) (b_functions B)
    \<and> (\<forall>o' t. b_type_ids B o' = Some t \<longrightarrow> t < length (b_types B)))"

definition build_ok :: "'e build \<Rightarrow> bool" where
  "build_ok = (\<lambda>(B, fm). builder_ok B \<and> (\<forall>j i. fm j = Some i \<longrightarrow> i < length (b_files B)))"

definition n_files :: "'e build \<Rightarrow> nat" where
  "n_files st = length (b_files (fst st))"

text \<open>A step that adds files at most, and leaves the rows alone.\<close>

definition extends :: "'e build \<Rightarrow> 'e build \<Rightarrow> bool" where
  "extends st st' \<longleftrightarrow>
     b_rows (fst st') = b_rows (fst st) \<and> (\<exists>ps. b_files (fst st') = b_files (fst st) @ ps)"

lemma extends_refl [simp, intro]: "extends st st"
  by (simp add: extends_def)

lemma extends_trans: "extends a b \<Longrightarrow> extends b c \<Longrightarrow> extends a c"
  by (auto simp: extends_def)

lemma extends_le: "extends st st' \<Longrightarrow> n_files st \<le> n_files st'"
  by (auto simp: extends_def n_files_def)

named_theorems build_simps

lemma file_in_simps [build_simps]: "file_in m None" "file_in m (Some i) \<longleftrightarrow> i < m"
  by (simp_all add: file_in_def)

lemma file_in_mono: "file_in m i \<Longrightarrow> m \<le> m' \<Longrightarrow> file_in m' i"
  by (auto simp: file_in_def split: option.splits)

lemma row_ok_mono: "row_ok m r \<Longrightarrow> m \<le> m' \<Longrightarrow> row_ok m' r"
  by (auto simp: row_ok_def split: option.splits)

lemma open_scope_mono: "open_scope m s \<Longrightarrow> m \<le> m' \<Longrightarrow> open_scope m' s"
  by (induction s) (auto dest: file_in_mono split: option.splits)

lemma function_ok_mono: "function_ok m f \<Longrightarrow> m \<le> m' \<Longrightarrow> function_ok m' f"
  by (auto simp: function_ok_def intro: file_in_mono open_scope_mono)

text \<open>The builder only grows: what held of the files so far still holds.\<close>

lemma builder_ok_grow:
  assumes "builder_ok B" "files_ok B'" "length (b_files B) \<le> length (b_files B')"
    and "b_rows B' = b_rows B" "b_functions B' = b_functions B" "b_types B' = b_types B" "b_type_ids B' = b_type_ids B"
  shows "builder_ok B'"
  using assms by (auto simp: builder_ok_def Let_def list_all_iff intro: row_ok_mono function_ok_mono)

lemma files_ok_snoc:
  assumes "files_ok B" "b_file_ids B (path_components p) = None"
  shows "files_ok (B\<lparr>b_files := b_files B @ [p],
           b_file_ids := (b_file_ids B)(path_components p \<mapsto> length (b_files B))\<rparr>)"
proof -
  have old: "b_file_ids B k = Some i \<longleftrightarrow> i < length (b_files B) \<and> path_components (b_files B ! i) = k" for k i
    using assms(1) by (simp add: files_ok_def)
  show ?thesis
    using old [of "path_components p"] assms(2)
    by (auto simp: files_ok_def old nth_append less_Suc_eq split: if_splits)
qed

interpretation source_files: memo_table "\<lambda>B p. b_file_ids B (path_components p)" intern_file
  by unfold_locales (auto simp: intern_file_def map_le_def split: option.splits)

lemma intern_ok:
  assumes "builder_ok B" "intern_file p B = (i, B')"
  shows "builder_ok B' \<and> i < length (b_files B') \<and> extends (B, fm) (B', fm')"
proof (cases "b_file_ids B (path_components p)")
  case None
  have f: "files_ok B" using assms(1) by (simp add: builder_ok_def Let_def)
  from assms(2) None have B': "i = length (b_files B)" "B' = B\<lparr>b_files := b_files B @ [p],
      b_file_ids := (b_file_ids B)(path_components p \<mapsto> length (b_files B))\<rparr>"
    by (auto simp: intern_file_def)
  have "builder_ok B'" unfolding B'
    by (rule builder_ok_grow [OF assms(1) files_ok_snoc [OF f None]]) simp_all
  then show ?thesis by (simp add: B' extends_def)
next
  case (Some j)
  with assms have "i = j" "B' = B" by (simp_all add: intern_file_def)
  moreover have "files_ok B" using assms(1) by (simp add: builder_ok_def Let_def)
  then have "j < length (b_files B)" using Some by (simp add: files_ok_def)
  ultimately show ?thesis using assms(1) by (simp add: extends_def)
qed

lemma file_id_ok:
  assumes "build_ok st" "file_id resolve h j cd st = (i, st')"
  shows "build_ok st' \<and> file_in (n_files st') i \<and> extends st st'"
proof -
  obtain B fm where st: "st = (B, fm)" by (cases st)
  have ok: "builder_ok B" and fm: "\<And>j i. fm j = Some i \<Longrightarrow> i < length (b_files B)"
    using assms(1) by (auto simp: st build_ok_def)
  show ?thesis
  proof (cases "fm j = None \<and> (\<exists>name dir. header_file h j = Some (Some name, dir))")
    case False
    with assms(2) have "st' = st \<and> i = fm j"
      by (auto simp: st file_id_def split: option.splits)
    with assms(1) fm show ?thesis by (cases "fm j") (auto simp: st n_files_def file_in_def)
  next
    case True
    then obtain name dir where h: "fm j = None" "header_file h j = Some (Some name, dir)" by blast
    obtain k B' where int: "intern_file (resolve (join_path (case dir of Some d \<Rightarrow> d | None \<Rightarrow> []) name) cd) B = (k, B')"
      by fastforce
    have "i = Some k" "st' = (B', fm(j \<mapsto> k))"
      using assms(2) h int by (auto simp: st file_id_def)
    moreover note new = intern_ok [OF ok int, of fm "fm(j \<mapsto> k)"]
    have "i' < length (b_files B')" if "(fm(j \<mapsto> k)) j' = Some i'" for j' i'
      using that new fm [of j' i'] by (auto simp: extends_def split: if_splits)
    ultimately show ?thesis using new by (auto simp: st build_ok_def n_files_def file_in_def)
  qed
qed

section \<open>Every step keeps it\<close>

lemma close_row_ok:
  assumes "builder_ok B" "\<And>start p. current = Some (start, Some p) \<Longrightarrow> pos_file p < length (b_files B)"
  shows "builder_ok (close_row current addr B) \<and> b_files (close_row current addr B) = b_files B"
  using assms
  by (auto simp: close_row_def builder_ok_def files_ok_def row_ok_def Let_def split: option.splits)

lemma build_ok_close:
  assumes "build_ok (B, fm)" "\<And>start p. current = Some (start, Some p) \<Longrightarrow> pos_file p < length (b_files B)"
  shows "build_ok (close_row current addr B, fm) \<and> n_files (close_row current addr B, fm) = n_files (B, fm)"
  using close_row_ok [OF _ assms(2)] assms(1) by (simp add: build_ok_def n_files_def)

lemma line_rows_ok:
  "build_ok st \<Longrightarrow> (\<And>start p. current = Some (start, Some p) \<Longrightarrow> pos_file p < n_files st) \<Longrightarrow>
   build_ok (line_rows resolve h cd current rs st) \<and> n_files st \<le> n_files (line_rows resolve h cd current rs st)"
proof (induction rs arbitrary: current st)
  case (Cons row rs)
  obtain B fm where st: "st = (B, fm)" by (cases st)
  let ?C = "(close_row current (lr_address row) B, fm)"
  have C: "build_ok ?C" "n_files ?C = n_files st"
    using build_ok_close [of B fm current "lr_address row"] Cons.prems by (auto simp: st n_files_def)
  show ?case
  proof (cases "lr_end_sequence row")
    case True
    with Cons.IH [OF C(1), of None] C(2) show ?thesis by (simp add: st)
  next
    case False
    obtain i st' where f: "file_id resolve h (lr_file_index row) cd ?C = (i, st')" by (rule prod.exhaust)
    note ok = file_id_ok [OF C(1) f]
    have "pos_file p < n_files st'" if "row_of i row = Some p" for p
      using that ok by (auto simp: row_of_def file_in_def split: option.splits)
    with Cons.IH [of st' "Some (lr_address row, row_of i row)"] ok extends_le [of ?C st'] C(2) f False
    show ?thesis by (simp add: st)
  qed
qed simp

lemma decl_ok:
  assumes "build_ok st" "decl resolve U n st = ((i, line), st')"
  shows "build_ok st' \<and> file_in (n_files st') i \<and> extends st st'"
proof -
  consider "i = None" "st' = st"
    | h j where "file_id resolve h j (rd_comp_dir U) st = (i, st')"
    using assms(2) by (auto simp: decl_def Let_def prod_eq_iff split: option.splits attr_value.splits)
  then show ?thesis
  proof cases
    case 1
    with assms(1) show ?thesis by (simp add: file_in_def)
  next
    case 2
    from file_id_ok [OF assms(1) this] show ?thesis .
  qed
qed

lemma push_type_ok:
  "build_ok st \<Longrightarrow> push_type U node st = Inr st' \<Longrightarrow> build_ok st' \<and> extends st st'"
  by (cases st)
     (auto simp: push_type_def extends_def build_ok_def builder_ok_def files_ok_def n_files_def Let_def
        less_Suc_eq split: sum.splits if_splits)

lemma inlined_of_ok:
  assumes "build_ok st" "inlined_of resolve U n st = (c, st')"
  shows "build_ok st' \<and> extends st st' \<and> (\<forall>x. c = Some x \<longrightarrow> file_in (n_files st') (call_file x))"
proof -
  obtain i line s where d: "decl resolve U n st = ((i, line), s)" by (metis prod.exhaust)
  show ?thesis using assms decl_ok [OF assms(1) d] d by (auto simp: inlined_of_def split: if_splits)
qed

lemma ranges_ok: "ranges U n = Inr rs \<Longrightarrow> \<forall>r\<in>set rs. range_start r < range_end r"
  by (auto simp: ranges_def split: sum.splits)

lemma add_variable_ok [simp]: "open_scope m (add_variable v sc) = open_scope m sc"
  by (cases sc) (simp add: add_variable_def)

lemma add_scope_ok: "open_scope m inner \<Longrightarrow> open_scope m sc \<Longrightarrow> open_scope m (add_scope inner sc)"
  by (cases sc; cases inner) (auto simp: add_scope_def)

lemma ranges_kept [simp]:
  "scope_ranges (add_variable v sc) = scope_ranges sc" "scope_ranges (add_scope inner sc) = scope_ranges sc"
  by (simp_all add: add_variable_def add_scope_def)

definition scope_step_ok :: "'e Scope \<times> 'e build \<Rightarrow> 'e Scope \<times> 'e build \<Rightarrow> bool" where
  "scope_step_ok s s' \<longleftrightarrow>
     (case (s, s') of ((sc, st), (sc', st')) \<Rightarrow>
        build_ok st' \<and> extends st st' \<and> open_scope (n_files st') sc' \<and> scope_ranges sc' = scope_ranges sc)"

lemma scope_step_trans: "scope_step_ok a b \<Longrightarrow> scope_step_ok b c \<Longrightarrow> scope_step_ok a c"
  by (auto simp: scope_step_ok_def split: prod.splits intro: extends_trans)

lemma block_closed_ok:
  assumes "extends st st1" "scope_step_ok (block, st1) (inner, st2)" "open_scope (n_files st) sc"
  shows "scope_step_ok (sc, st) (add_scope inner sc, st2)"
proof -
  have ok: "build_ok st2" "extends st st2" "open_scope (n_files st2) inner"
    using assms(1,2) by (auto simp: scope_step_ok_def intro: extends_trans)
  then have "open_scope (n_files st2) sc" using open_scope_mono [OF assms(3) extends_le] by blast
  with ok show ?thesis by (auto simp: scope_step_ok_def intro: add_scope_ok)
qed

lemma scope_walk_ok:
  "build_ok (snd s) \<Longrightarrow> open_scope (n_files (snd s)) (fst s) \<Longrightarrow>
     scope_child resolve U node s = Inr s' \<Longrightarrow> scope_step_ok s s'"
  "build_ok (snd s) \<Longrightarrow> open_scope (n_files (snd s)) (fst s) \<Longrightarrow>
     scope_children resolve U nodes failure s = Inr s' \<Longrightarrow> scope_step_ok s s'"
proof (induction resolve U node s and resolve U nodes failure s arbitrary: s' and s'
    rule: scope_child_scope_children.induct)
  case (1 resolve U n cs failure sc st)
  let ?t = "rd_tag U n"
  consider (var) "?t = TAG_variable \<or> ?t = TAG_formal_parameter"
    | (block) "?t = TAG_lexical_block \<or> ?t = TAG_inlined_subroutine"
    | (type) "is_type_tag ?t" "\<not> (?t = TAG_variable \<or> ?t = TAG_formal_parameter)"
             "\<not> (?t = TAG_lexical_block \<or> ?t = TAG_inlined_subroutine)"
    | (other) "\<not> is_type_tag ?t" "\<not> (?t = TAG_variable \<or> ?t = TAG_formal_parameter)"
             "\<not> (?t = TAG_lexical_block \<or> ?t = TAG_inlined_subroutine)"
    by blast
  then show ?case
  proof cases
    case var
    with 1 show ?thesis by (auto simp: scope_step_ok_def split: option.splits sum.splits)
  next
    case block
    then have nv: "\<not> (?t = TAG_variable \<or> ?t = TAG_formal_parameter)" by auto
    obtain rs where rs: "ranges U n = Inr rs"
      using 1(4) block nv by (auto split: sum.splits)
    obtain c st1 where i: "inlined_of resolve U n st = (c, st1)" by (rule prod.exhaust)
    from 1(4) block nv rs i obtain inner st2
      where in2: "scope_children resolve U cs failure (Scope rs [] [] c, st1) = Inr (inner, st2)"
      and s': "s' = (add_scope inner sc, st2)"
      by (auto split: sum.splits)
    have ok1: "build_ok st1" "extends st st1" "open_scope (n_files st1) (Scope rs [] [] c)"
      using inlined_of_ok [OF _ i] 1(2) ranges_ok [OF rs] by (auto split: option.splits)
    from 1(1) [OF nv block rs i [symmetric] refl] have "scope_step_ok (Scope rs [] [] c, st1) (inner, st2)"
      using ok1 in2 by simp
    then show ?thesis using block_closed_ok [OF ok1(2)] 1(3) by (simp add: s')
  next
    case type
    with 1(4) obtain st1 where "push_type U (Node n cs failure) st = Inr st1" "s' = (sc, st1)"
      by (auto split: sum.splits)
    with push_type_ok [OF _ this(1)] 1(2,3) show ?thesis
      by (auto simp: scope_step_ok_def intro: open_scope_mono extends_le)
  next
    case other
    with 1 show ?thesis by (auto simp: scope_step_ok_def)
  qed
next
  case (2 resolve U failure s)
  then show ?case by (auto simp: scope_step_ok_def split: option.splits prod.splits)
next
  case (3 resolve U c cs failure s)
  obtain s1 where s1: "scope_child resolve U c s = Inr s1" using 3(5) by (auto split: sum.splits)
  have a: "scope_step_ok s s1" using 3(1) [OF 3(3,4) s1] .
  have "scope_step_ok s1 s'"
    using 3(2) [OF s1, of s'] a 3(5) s1 by (auto simp: scope_step_ok_def split: prod.splits)
  with a show ?case by (rule scope_step_trans)
qed

lemma push_function_ok:
  "build_ok st \<Longrightarrow> function_ok (n_files st) f \<Longrightarrow>
   build_ok (push_function f st) \<and> extends st (push_function f st)"
  by (cases st) (auto simp: push_function_def extends_def build_ok_def builder_ok_def files_ok_def n_files_def Let_def)

lemma subprogram_ok:
  assumes "build_ok st" "rs \<noteq> []" "ranges U (node_entry node) = Inr rs"
    and "subprogram resolve U node rs st = Inr st'"
  shows "build_ok st' \<and> extends st st'"
proof -
  let ?n = "node_entry node"
  obtain i line st1 where d: "decl resolve U ?n st = ((i, line), st1)" by (metis prod.exhaust)
  note ok1 = decl_ok [OF assms(1) d]
  from assms(4) d obtain fb sc st2 where
    sc: "scope_children resolve U (node_children node) (node_failure node) (Scope rs [] [] None, st1) = Inr (sc, st2)"
    and st': "st' = push_function
      \<lparr>fn_name = unwrap_or (name_of U ?n) ''<anonymous>'', fn_file = i, fn_line = line,
       return_type = type_attr U ?n, body = sc, fn_frame_base = fb, stack_size = 0\<rparr> st2"
    by (auto simp: subprogram_def Let_def split: sum.splits)
  have "scope_step_ok (Scope rs [] [] None, st1) (sc, st2)"
    using scope_walk_ok(2) [OF _ _ sc] ok1 ranges_ok [OF assms(3)] by simp
  then have ok2: "build_ok st2" "extends st1 st2" "open_scope (n_files st2) sc" "scope_ranges sc = rs"
    by (auto simp: scope_step_ok_def)
  have "file_in (n_files st2) i" using ok1 extends_le [OF ok2(2)] file_in_mono by blast
  then show ?thesis
    unfolding st' using push_function_ok [OF ok2(1)] ok1 ok2 assms(2)
    by (auto simp: function_ok_def intro: extends_trans)
qed

lemma walk_ok:
  "build_ok st \<Longrightarrow> walk resolve U node st = Inr st' \<Longrightarrow> build_ok st' \<and> extends st st'"
  "build_ok st \<Longrightarrow> walk_children resolve U nodes failure st = Inr st' \<Longrightarrow>
     build_ok st' \<and> extends st st'"
proof (induction resolve U node st and resolve U nodes failure st arbitrary: st' and st'
    rule: walk_walk_children.induct)
  case (1 resolve U n cs failure st)
  show ?case
  proof (cases "rd_tag U n = TAG_subprogram")
    case True
    with 1(4) obtain rs where rs: "ranges U n = Inr rs" by (auto split: sum.splits)
    show ?thesis
    proof (cases "rs = []")
      case True
      with \<open>rd_tag U n = TAG_subprogram\<close> rs 1 show ?thesis by simp
    next
      case False
      with \<open>rd_tag U n = TAG_subprogram\<close> rs 1(4)
      have "subprogram resolve U (Node n cs failure) rs st = Inr st'" by simp
      with subprogram_ok [OF 1(3) False _ this] rs show ?thesis by simp
    qed
  next
    case False
    show ?thesis
    proof (cases "is_type_tag (rd_tag U n)")
      case True
      with False 1(4) have "push_type U (Node n cs failure) st = Inr st'" by simp
      from push_type_ok [OF 1(3) this] show ?thesis by simp
    next
      case not_type: False
      with False 1 show ?thesis by simp
    qed
  qed
next
  case (3 resolve U c cs failure st)
  obtain st1 where st1: "walk resolve U c st = Inr st1" using 3(4) by (auto split: sum.splits)
  have a: "build_ok st1 \<and> extends st st1" using 3(1) [OF 3(3) st1] .
  have "build_ok st' \<and> extends st1 st'"
    using 3(2) [OF st1, of st'] a 3(4) st1 by simp
  with a show ?case by (auto intro: extends_trans)
qed (auto split: option.splits)

lemma unit_ok: "builder_ok B \<Longrightarrow> build_unit resolve U B = Inr B' \<Longrightarrow> builder_ok B'"
proof -
  assume ok: "builder_ok B" and b: "build_unit resolve U B = Inr B'"
  have start: "build_ok (B, Map.empty)" using ok by (simp add: build_ok_def)
  from b obtain st root st' where u: "unit_line_rows resolve U B = Inr st"
    and w: "walk resolve U root st = Inr st'" "B' = fst st'"
    by (auto simp: build_unit_def split: sum.splits)
  have "build_ok st"
    using u start line_rows_ok [OF start, of None]
    by (auto simp: unit_line_rows_def Let_def split: option.splits)
  from walk_ok(1) [OF this w(1)] w(2) show ?thesis by (auto simp: build_ok_def split: prod.splits)
qed

lemma units_ok: "builder_ok B \<Longrightarrow> build_units resolve us failure B = Inr B' \<Longrightarrow> builder_ok B'"
  by (induction resolve us failure B rule: build_units.induct)
     (auto split: option.splits sum.splits dest: unit_ok)

section \<open>Remapping closes the references\<close>

lemma fix_ref_in: "(\<And>o' t. m o' = Some t \<Longrightarrow> t < k) \<Longrightarrow> file_in k (fix_ref m r)"
  by (cases r) (auto simp: fix_ref_def file_in_def split: option.splits)

lemma remap_type_refs:
  "(\<And>o' t. m o' = Some t \<Longrightarrow> t < k) \<Longrightarrow> list_all (file_in k) (desc_refs (remap_type m d))"
  by (cases d) (auto simp: list_all_iff intro: fix_ref_in)

lemma remap_scope_refs:
  "(\<And>o' t. m o' = Some t \<Longrightarrow> t < k) \<Longrightarrow> list_all (file_in k) (scope_refs (remap_scope m s))"
  by (induction s) (auto simp: list_all_iff split: option.splits intro: fix_ref_in)

lemma remap_scope_open [simp]:
  "scope_ranges (remap_scope m s) = scope_ranges s" "open_scope n (remap_scope m s) = open_scope n s"
proof (induction s)
  case (Scope rs vs cs i)
  { case 1 show ?case by simp }
  { case 2 with Scope show ?case by (auto split: option.splits) }
qed

lemma remap_function_ok:
  "(\<And>o' t. m o' = Some t \<Longrightarrow> t < k) \<Longrightarrow> function_ok n f \<Longrightarrow>
   function_ok n (remap_function m f) \<and> file_in k (return_type (remap_function m f))
   \<and> list_all (file_in k) (scope_refs (body (remap_function m f)))"
  by (auto simp: remap_function_def function_ok_def intro: fix_ref_in remap_scope_refs)

lemma load_debug_wf:
  assumes "load_debug I G F elf_path vaddr text us failure = Inr D"
  shows "wf_debug D"
proof -
  obtain B where B: "build_units (resolve_path F (new_resolver F elf_path)) us failure new_builder = Inr B"
    and D: "D = assemble I G vaddr text (b_files B) (b_types B) (b_type_ids B) (b_functions B) (b_rows B)"
    using assms by (auto simp: load_debug_def split: sum.splits)
  have "builder_ok new_builder" by (simp add: builder_ok_def new_builder_def files_ok_def)
  from units_ok [OF this B] have ok: "builder_ok B" .
  let ?m = "length (b_files B)" and ?k = "length (b_types B)" and ?ids = "b_type_ids B"
  have ids: "\<And>o' t. ?ids o' = Some t \<Longrightarrow> t < ?k" using ok by (simp add: builder_ok_def Let_def)
  have file_eq: "files D = b_files B" and types: "type_descs D = map (remap_type ?ids) (b_types B)"
    and rows_eq: "rows D = sort_key (\<lambda>r. unat (row_start r)) (b_rows B)"
    by (simp_all add: D assemble_def Let_def)
  have fns_sub: "\<exists>g\<in>set (b_functions B). \<exists>s. f = (remap_function ?ids g)\<lparr>stack_size := s\<rparr>" if "f \<in> set (fns D)" for f
  proof -
    from that obtain x y where "f = x\<lparr>stack_size := y\<rparr>" "x \<in> remap_function ?ids ` set (b_functions B)"
      by (auto simp: D assemble_def Let_def dest!: set_zip_leftD)
    then show ?thesis by auto
  qed
  have "distinct (map path_components (b_files B))"
    using ok by (auto simp: builder_ok_def files_ok_def Let_def distinct_conv_nth) (metis option.inject)
  moreover have "list_all (row_ok ?m) (rows D)"
    using ok by (simp add: builder_ok_def Let_def rows_eq list_all_iff)
  moreover have "sorted (map row_start (rows D))"
    using sorted_sort_key [of "\<lambda>r. unat (row_start r)" "b_rows B"]
    by (simp add: rows_eq sorted_wrt_map word_le_nat_alt)
  moreover have "function_ok ?m f \<and> file_in ?k (return_type f) \<and> list_all (file_in ?k) (scope_refs (body f))"
    if f: "f \<in> set (fns D)" for f
  proof -
    obtain g s where g: "g \<in> set (b_functions B)" "f = (remap_function ?ids g)\<lparr>stack_size := s\<rparr>"
      using fns_sub [OF f] by blast
    have "function_ok ?m g" using ok g(1) by (simp add: builder_ok_def Let_def list_all_iff)
    from remap_function_ok [OF ids this] g(2) show ?thesis by (simp add: function_ok_def)
  qed
  ultimately show ?thesis
    by (auto simp: wf_debug_def Let_def file_eq types list_all_iff
        intro: remap_type_refs [OF ids, unfolded list_all_iff, rule_format])
qed

text \<open>
  A loaded model is well formed. Whatever units the DWARF data holds and however their
  entries are nested or their attributes fail, a model that \<open>load\<close> returns names no source
  file twice (by components), its rows are sorted, not empty and point to existing files,
  every function and block has code, and every declaration file and every type reference -
  of members, elements, targets, variables and return values - is an index that exists.
\<close>

theorem load_debug_well_formed:
  assumes "load_debug I G F elf_path vaddr text us failure = Inr D"
  shows "wf_debug D"
  using assms by (rule load_debug_wf)

definition sample_reader :: "(nat, unit) unit_reader" where
  "sample_reader = \<lparr>rd_tag = (\<lambda>n. if n = 0 then TAG_subprogram else if n = 1 then TAG_variable else TAG_base_type),
     rd_offset = (\<lambda>n. n), rd_attr = (\<lambda>n a. if a = AT_type then Inr (Some (UnitRef 2)) else if a = AT_name then Inr (Some (OtherAttr n)) else Inr None),
     rd_entry = (\<lambda>o'. None), rd_ranges = (\<lambda>n. Inr [Range 64 96]), rd_locations = (\<lambda>v. Inr None),
     rd_string = (\<lambda>v. Some ''x''), rd_udata = (\<lambda>v. None), rd_info_offset = (\<lambda>o'. Some o'),
     rd_comp_dir = Some ''/c'', rd_header = None, rd_rows = [], rd_rows_failure = None,
     rd_root = Inr (Node 0 [Node 2 [] None, Node 1 [] None] None)\<rparr>"

definition sample_units :: "(string + (nat, unit) unit_reader) list" where
  "sample_units = [Inr sample_reader]"

text \<open>What evaluates \<open>load\<close> on concrete readers.\<close>

lemmas load_eval = load_debug_def build_unit_def unit_line_rows_def ranges_def subprogram_def decl_def attr_def
  attr_ok_def origin_ref_def Let_def unwrap_or_def frame_base_attr_def push_type_def type_desc_def udata_at_def
  is_type_tag_def base_encoding_def name_of_def var_location_of_def new_builder_def push_function_def assemble_def

lemma sample_loaded:
  "\<exists>D. load_debug sample_isa sample_evaluator sample_fs ''/o/x.so'' 64 [] sample_units None = Inr D
     \<and> length (fns D) = 1 \<and> type_descs D = [BaseT ''x'' ATE_unsigned 0]"
  by (simp add: load_eval sample_units_def sample_reader_def)

theorem load_debug_well_formed_witness:
  "\<exists>D. load_debug sample_isa sample_evaluator sample_fs ''/o/x.so'' 64 [] sample_units None = Inr D
     \<and> length (fns D) = 1 \<and> wf_debug D"
  using sample_loaded load_debug_well_formed by blast

end
