(* ===== verification/Line_Table.thy ===== *)
theory Line_Table
  imports Debug_Model
begin

text \<open>
  From the line-number program to positions: a reference that reads the position of an
  address straight off the rows of the program, and the proof that the range table the
  builder makes, searched the way \<open>position\<close> searches it, agrees with it.
\<close>

type_synonym spec_position = "component list \<times> u32 \<times> u32 option"

definition dir_name :: "(string option \<times> string option) option \<Rightarrow> string option" where
  "dir_name e =
     (case e of
        Some (Some name, dir) \<Rightarrow> Some (join_path (case dir of Some d \<Rightarrow> d | None \<Rightarrow> []) name)
      | _ \<Rightarrow> None)"

text \<open>The position a row of the program describes: the resolved file, by its components,
  the line and the column.\<close>

definition row_spec ::
  "(string \<Rightarrow> string option \<Rightarrow> string) \<Rightarrow> line_header \<Rightarrow> string option \<Rightarrow> line_row \<Rightarrow> spec_position option" where
  "row_spec resolve h cd r =
     (case (dir_name (header_file h (lr_file_index r)), lr_line r) of
        (Some p, Some line) \<Rightarrow>
          Some (path_components (resolve p cd), ucast line, map_option ucast (lr_column r))
      | _ \<Rightarrow> None)"

text \<open>The reference: the last row at or before the address decides, unless it ends a
  sequence or is the last of all.\<close>

fun line_at :: "(line_row \<Rightarrow> 'p option) \<Rightarrow> line_row list \<Rightarrow> u64 \<Rightarrow> 'p option" where
  "line_at f (r # s # rs) addr =
     (if lr_address s \<le> addr then line_at f (s # rs) addr
      else if lr_address r \<le> addr \<and> \<not> lr_end_sequence r then f r else None)"
| "line_at f rs addr = None"

section \<open>The rows the builder makes\<close>

fun row_ranges :: "(line_row \<Rightarrow> 'p) \<Rightarrow> line_row list \<Rightarrow> (u64 \<times> u64 \<times> 'p) list" where
  "row_ranges f (r # s # rs) =
     (if \<not> lr_end_sequence r \<and> lr_address s > lr_address r
      then (lr_address r, lr_address s, f r) # row_ranges f (s # rs) else row_ranges f (s # rs))"
| "row_ranges f rs = []"

definition position_spec :: "string list \<Rightarrow> SourcePosition \<Rightarrow> spec_position" where
  "position_spec fs p = (path_components (fs ! pos_file p), pos_line p, pos_column p)"

definition row_view :: "string list \<Rightarrow> LineRow \<Rightarrow> u64 \<times> u64 \<times> spec_position option" where
  "row_view fs r = (row_start r, row_end r, map_option (position_spec fs) (row_position r))"

text \<open>The file map of a unit agrees with its header.\<close>

definition map_agrees ::
  "(string \<Rightarrow> string option \<Rightarrow> string) \<Rightarrow> line_header \<Rightarrow> string option \<Rightarrow> 'e build \<Rightarrow> bool" where
  "map_agrees resolve h cd = (\<lambda>(B, fm).
     \<forall>j i. fm j = Some i \<longrightarrow> i < length (b_files B)
       \<and> map_option (\<lambda>p. path_components (resolve p cd)) (dir_name (header_file h j))
         = Some (path_components (b_files B ! i)))"

lemma intern_prefix: "intern_file p B = (i, B') \<Longrightarrow> \<exists>ps. b_files B' = b_files B @ ps \<and> b_rows B' = b_rows B"
  by (auto simp: intern_file_def split: option.splits)

lemma intern_components:
  assumes "builder_ok B" "intern_file p B = (i, B')"
  shows "path_components (b_files B' ! i) = path_components p"
proof (cases "b_file_ids B (path_components p)")
  case (Some j)
  with assms show ?thesis
    by (auto simp: intern_file_def builder_ok_def files_ok_def Let_def)
qed (use assms in \<open>auto simp: intern_file_def\<close>)

lemma file_id_spec:
  assumes "build_ok st" "map_agrees resolve h cd st" "file_id resolve h j cd st = (i, st')"
  shows "build_ok st'" "map_agrees resolve h cd st'" "\<exists>ps. b_files (fst st') = b_files (fst st) @ ps"
    "b_rows (fst st') = b_rows (fst st)"
    "file_in (n_files st') i"
    "map_option (\<lambda>k. path_components (b_files (fst st') ! k)) i
     = map_option (\<lambda>p. path_components (resolve p cd)) (dir_name (header_file h j))"
proof -
  obtain B fm where st: "st = (B, fm)" by (cases st)
  show "build_ok st'" "file_in (n_files st') i" using file_id_ok [OF assms(1,3)] by simp_all
  have "map_agrees resolve h cd st' \<and> (\<exists>ps. b_files (fst st') = b_files (fst st) @ ps)
     \<and> b_rows (fst st') = b_rows (fst st)
     \<and> map_option (\<lambda>k. path_components (b_files (fst st') ! k)) i
       = map_option (\<lambda>p. path_components (resolve p cd)) (dir_name (header_file h j))"
  proof (cases "fm j")
    case (Some k)
    with assms(3) have r: "i = Some k" "st' = st" by (auto simp: st file_id_def)
    from assms(2) Some have "map_option (\<lambda>p. path_components (resolve p cd)) (dir_name (header_file h j))
        = Some (path_components (b_files B ! k))"
      unfolding st map_agrees_def by blast
    with assms(2) r show ?thesis by (auto simp: st)
  next
    case None
    show ?thesis
    proof (cases "dir_name (header_file h j)")
      case no_name: None
      with assms(2,3) \<open>fm j = None\<close> show ?thesis
        by (auto simp: st file_id_def dir_name_def split: option.splits)
    next
      case (Some p)
      obtain k B' where int: "intern_file (resolve p cd) B = (k, B')" by (rule prod.exhaust)
      from Some \<open>fm j = None\<close> int assms(3) have r: "i = Some k" "st' = (B', fm(j \<mapsto> k))"
        by (auto simp: st file_id_def dir_name_def split: option.splits)
      have ok: "builder_ok B" using assms(1) by (simp add: st build_ok_def)
      obtain ps where ps: "b_files B' = b_files B @ ps" "b_rows B' = b_rows B"
        using intern_prefix [OF int] by blast
      note k = intern_ok [OF ok int] intern_components [OF ok int]
      have "map_agrees resolve h cd st'"
        using assms(2) k Some ps(1) by (auto simp: st r map_agrees_def nth_append intro: trans_less_add1)
      with k ps Some show ?thesis by (simp add: r st)
    qed
  qed
  then show "map_agrees resolve h cd st'" "\<exists>ps. b_files (fst st') = b_files (fst st) @ ps"
    "b_rows (fst st') = b_rows (fst st)"
    "map_option (\<lambda>k. path_components (b_files (fst st') ! k)) i
     = map_option (\<lambda>p. path_components (resolve p cd)) (dir_name (header_file h j))" by blast+
qed

lemma row_of_spec:
  assumes "map_option (\<lambda>k. path_components (fs ! k)) i
     = map_option (\<lambda>p. path_components (resolve p cd)) (dir_name (header_file h (lr_file_index r)))"
  shows "map_option (position_spec fs) (row_of i r) = row_spec resolve h cd r"
  using assms
  by (cases i; cases "dir_name (header_file h (lr_file_index r))")
     (auto simp: row_of_def row_spec_def position_spec_def split: option.splits)

lemma row_view_prefix: "row_ok (length fs) r \<Longrightarrow> row_view (fs @ ps) r = row_view fs r"
  by (auto simp: row_ok_def row_view_def position_spec_def nth_append split: option.splits)

definition pending_ok ::
  "(line_row \<Rightarrow> spec_position option) \<Rightarrow> (u64 \<times> SourcePosition option) option \<Rightarrow> line_row list \<Rightarrow> 'e build \<Rightarrow> bool" where
  "pending_ok f current pre st \<longleftrightarrow>
     (case current of
        None \<Rightarrow> pre = [] \<or> (\<exists>c. pre = [c] \<and> lr_end_sequence c)
      | Some (a, p) \<Rightarrow> \<exists>c. pre = [c] \<and> a = lr_address c \<and> \<not> lr_end_sequence c
          \<and> map_option (position_spec (b_files (fst st))) p = f c
          \<and> (\<forall>q. p = Some q \<longrightarrow> pos_file q < n_files st))"

definition views :: "'e build \<Rightarrow> (u64 \<times> u64 \<times> spec_position option) list" where
  "views st = map (row_view (b_files (fst st))) (b_rows (fst st))"

lemma views_prefix:
  assumes "build_ok st" "b_files (fst st') = b_files (fst st) @ ps" "b_rows (fst st') = b_rows (fst st)"
  shows "views st' = views st"
  using assms row_view_prefix
  by (auto simp: views_def build_ok_def builder_ok_def Let_def list_all_iff split: prod.splits)

lemma views_close:
  assumes "pending_ok f current pre (B, fm)"
  shows "views (close_row current (lr_address row) B, fm) @ row_ranges f (row # rs)
       = views (B, fm) @ row_ranges f (pre @ row # rs)"
  using assms
  by (auto simp: pending_ok_def views_def close_row_def row_view_def split: option.splits)

lemma line_rows_spec:
  "build_ok st \<Longrightarrow> map_agrees resolve h cd st \<Longrightarrow> pending_ok (row_spec resolve h cd) current pre st \<Longrightarrow>
   views (line_rows resolve h cd current rs st)
   = views st @ row_ranges (row_spec resolve h cd) (pre @ rs)"
proof (induction rs arbitrary: current pre st)
  case Nil
  then show ?case by (auto simp: pending_ok_def split: option.splits)
next
  case (Cons row rs)
  let ?f = "row_spec resolve h cd"
  obtain B fm where st: "st = (B, fm)" by (cases st)
  let ?C = "(close_row current (lr_address row) B, fm)"
  have cur: "\<And>start p. current = Some (start, Some p) \<Longrightarrow> pos_file p < length (b_files B)"
    using Cons.prems(3) by (auto simp: pending_ok_def n_files_def st)
  have C: "build_ok ?C" using build_ok_close [of B fm current "lr_address row"] Cons.prems(1) cur by (simp add: st)
  have files_C: "b_files (fst ?C) = b_files B"
    using close_row_ok [of B current "lr_address row"] Cons.prems(1) cur by (simp add: st build_ok_def)
  have agrees: "map_agrees resolve h cd ?C"
    using Cons.prems(2) files_C by (simp add: st map_agrees_def)
  note close = views_close [of ?f current pre B fm row rs, OF Cons.prems(3) [unfolded st]]
  show ?case
  proof (cases "lr_end_sequence row")
    case True
    then have "views (line_rows resolve h cd None rs ?C) = views ?C @ row_ranges ?f (row # rs)"
      using Cons.IH [OF C agrees, of None "[row]"] by (simp add: pending_ok_def)
    with True close show ?thesis by (simp add: st)
  next
    case False
    obtain i st' where f: "file_id resolve h (lr_file_index row) cd ?C = (i, st')" by (rule prod.exhaust)
    note spec = file_id_spec [OF C agrees f]
    obtain ps where ps: "b_files (fst st') = b_files (fst ?C) @ ps" using spec(3) by blast
    have "\<forall>q. row_of i row = Some q \<longrightarrow> pos_file q < n_files st'"
      using spec(5) by (auto simp: row_of_def file_in_def split: option.splits)
    then have "pending_ok ?f (Some (lr_address row, row_of i row)) [row] st'"
      using row_of_spec [of "b_files (fst st')" i resolve cd h row, OF spec(6)] False by (simp add: pending_ok_def)
    from Cons.IH [OF spec(1,2) this]
    have "views (line_rows resolve h cd (Some (lr_address row, row_of i row)) rs st')
        = views ?C @ row_ranges ?f (row # rs)"
      using views_prefix [OF C ps spec(4)] by simp
    with False f close show ?thesis by (simp add: st)
  qed
qed

section \<open>Searching the ranges\<close>

definition range_at :: "(u64 \<times> u64 \<times> 'p option) list \<Rightarrow> u64 \<Rightarrow> 'p option" where
  "range_at rs addr =
     (case List.find (\<lambda>(s, e, p). s \<le> addr \<and> addr < e) rs of None \<Rightarrow> None | Some (s, e, p) \<Rightarrow> p)"

lemma range_at_Cons:
  "range_at ((s, e, p) # rs) addr = (if s \<le> addr \<and> addr < e then p else range_at rs addr)"
  by (simp add: range_at_def)

lemma row_ranges_after:
  "sorted (map lr_address rs) \<Longrightarrow> \<forall>r\<in>set rs. a \<le> lr_address r \<Longrightarrow> (s, e, p) \<in> set (row_ranges f rs) \<Longrightarrow> a \<le> s \<and> s < e"
  by (induction f rs rule: row_ranges.induct) (auto split: if_splits)

lemma range_at_none:
  "\<forall>(s, e, p)\<in>set rs. addr < s \<Longrightarrow> range_at rs addr = None"
  by (induction rs) (auto simp: range_at_def)

lemma range_at_line_at:
  "sorted (map lr_address rs) \<Longrightarrow> range_at (row_ranges f rs) addr = line_at f rs addr"
proof (induction f rs addr rule: line_at.induct)
  case (1 f r s rs addr)
  have sorted: "sorted (map lr_address (s # rs))" using 1(2) by simp
  show ?case
  proof (cases "lr_address s \<le> addr")
    case True
    with 1(1) [OF True sorted] show ?thesis by (auto simp: range_at_Cons)
  next
    case False
    have "\<forall>t\<in>set (s # rs). lr_address s \<le> lr_address t" using sorted by auto
    then have "\<forall>(x, e, p)\<in>set (row_ranges f (s # rs)). addr < x"
      using row_ranges_after [OF sorted] False by fastforce
    from range_at_none [OF this] False show ?thesis by (auto simp: range_at_Cons)
  qed
qed (simp_all add: range_at_def)

lemma row_ranges_ok:
  "sorted (map lr_address rs) \<Longrightarrow>
   sorted_wrt (\<lambda>(s, e, p) (s', e', p'). e \<le> s') (row_ranges f rs) \<and> (\<forall>(s, e, p)\<in>set (row_ranges f rs). s < e)"
proof (induction f rs rule: row_ranges.induct)
  case (1 f r s rs)
  have sorted: "sorted (map lr_address (s # rs))" using 1(3) by simp
  have "lr_address s \<le> x" if "(x, e, p) \<in> set (row_ranges f (s # rs))" for x e p
    using row_ranges_after [OF sorted _ that, of "lr_address s"] sorted by auto
  with 1(1,2) sorted show ?case by (auto split: prod.splits)
qed auto

section \<open>Positions\<close>

lemma view_proj:
  "row_view fs r = (s, e, p) \<longleftrightarrow> row_start r = s \<and> row_end r = e \<and> map_option (position_spec fs) (row_position r) = p"
  by (auto simp: row_view_def)

lemma rows_ok_views:
  assumes "map (row_view fs) rs = row_ranges f ps" "sorted (map lr_address ps)"
  shows "rows_ok rs \<and> sort_key (\<lambda>r. unat (row_start r)) rs = rs"
proof -
  have v: "sorted_wrt (\<lambda>(s, e, p) (s', e', p'). e \<le> s') (map (row_view fs) rs)"
    "\<forall>(s, e, p)\<in>set (map (row_view fs) rs). s < e"
    using row_ranges_ok [OF assms(2), of f] unfolding assms(1) by blast+
  have ok: "rows_ok rs"
    using v by (auto simp: rows_ok_def sorted_wrt_map row_view_def)
  have "unat (row_start r) \<le> unat (row_start s)"
    if "r \<in> set rs" "s \<in> set rs" "row_end r \<le> row_start s" for r s
  proof -
    have "row_start r < row_end r" using ok that(1) by (simp add: rows_ok_def)
    also note that(3)
    finally show ?thesis by (simp add: word_less_nat_alt)
  qed
  with ok have "sorted_wrt (\<lambda>r s. unat (row_start r) \<le> unat (row_start s)) rs"
    using sorted_wrt_mono_rel [of rs "\<lambda>r s. row_end r \<le> row_start s" "\<lambda>r s. unat (row_start r) \<le> unat (row_start s)"]
    unfolding rows_ok_def by blast
  then have "sorted (map (\<lambda>r. unat (row_start r)) rs)" by (simp add: sorted_wrt_map)
  with ok show ?thesis by (simp add: sort_key_id_if_sorted)
qed

lemma position_range_at:
  assumes "rows_ok (rows D)" "files D = fs"
  shows "map_option (position_spec fs) (source_position D addr) = range_at (map (row_view fs) (rows D)) addr"
proof -
  let ?V = "map (row_view fs) (rows D)" and ?c = "\<lambda>(s, e, p). s \<le> addr \<and> addr < e"
  show ?thesis
  proof (cases "List.find ?c ?V")
    case None
    then have "\<forall>r\<in>set (rows D). \<not> covers_addr r addr"
      by (auto simp: find_None_all row_view_def covers_addr_def)
    with position_cases [OF assms(1), of addr] None show ?thesis by (simp add: range_at_def)
  next
    case (Some v)
    then obtain r where r: "r \<in> set (rows D)" "v = row_view fs r" "covers_addr r addr"
      by (auto dest!: find_Some_prop simp: row_view_def covers_addr_def)
    with position_cases [OF assms(1), of addr] Some show ?thesis
      by (simp add: range_at_def row_view_def)
  qed
qed

lemma new_build_ok: "build_ok (new_builder, Map.empty)"
  by (simp add: build_ok_def builder_ok_def new_builder_def files_ok_def)

lemma unit_rows:
  fixes U :: "('n, 'e) unit_reader"
  assumes "build_unit resolve U new_builder = Inr B" "rd_header U = Some h"
    and "sorted (map lr_address (rd_rows U))"
  shows "map (row_view (b_files B)) (b_rows B) = row_ranges (row_spec resolve h (rd_comp_dir U)) (rd_rows U)"
proof -
  let ?cd = "rd_comp_dir U"
  let ?st = "line_rows resolve h ?cd None (rd_rows U) (new_builder, Map.empty) :: 'e build"
  from assms(1,2) obtain root st' where w: "walk resolve U root ?st = Inr st'" "B = fst st'"
    by (auto simp: build_unit_def unit_line_rows_def Let_def split: sum.splits option.splits)
  have ok: "build_ok ?st" by (rule conjunct1 [OF line_rows_ok [OF new_build_ok]]) simp
  have "extends ?st st'" using walk_ok(1) [OF ok w(1)] by simp
  then obtain ps where "b_files (fst st') = b_files (fst ?st) @ ps" "b_rows (fst st') = b_rows (fst ?st)"
    by (auto simp: extends_def)
  then have "views st' = views ?st" by (rule views_prefix [OF ok])
  also have "\<dots> = row_ranges (row_spec resolve h ?cd) (rd_rows U)"
    using line_rows_spec [OF new_build_ok, of resolve h ?cd None "[]" "rd_rows U"]
    by (simp add: map_agrees_def pending_ok_def views_def new_builder_def)
  finally show ?thesis by (simp add: views_def w(2))
qed


definition sample_line_unit :: "(nat, unit) unit_reader" where
  "sample_line_unit = sample_reader\<lparr>
     rd_header := Some \<lparr>header_file = (\<lambda>i. Some (Some ''l.rs'', Some ''s''))\<rparr>,
     rd_rows := [\<lparr>lr_address = 64, lr_end_sequence = False, lr_file_index = 1, lr_line = Some 7, lr_column = Some 3\<rparr>,
                 \<lparr>lr_address = 96, lr_end_sequence = True, lr_file_index = 1, lr_line = None, lr_column = None\<rparr>]\<rparr>"


end
