(* ===== verification/Source_Values.thy ===== *)
theory Source_Values
  imports Debug_Model Trace_Writer
begin

text \<open>
  The typed values of \<open>src/source_recorder.rs\<close>: registering DWARF types with the writer and
  decoding bytes through them. The state is the recorder's caches and the trace so far. The
  outcome \<open>None\<close> is a call that does not return: one that recurses for ever through types
  that contain themselves, or a slice out of range. The recursion over types takes a fuel;
  what is enough is shown below.
\<close>

section \<open>The recorder's caches\<close>

datatype type_key = DwarfKey TypeRef | NamedKey type_kind string

record recording =
  rc_types :: "type_key \<Rightarrow> type_id option"
  rc_functions :: "string \<times> nat option \<times> u32 \<Rightarrow> function_id option"
  rc_trace :: trace

definition emit :: "trace \<Rightarrow> recording \<Rightarrow> recording" where
  "emit es st = st\<lparr>rc_trace := rc_trace st @ es\<rparr>"

fun map_st :: "('a \<Rightarrow> 's \<Rightarrow> ('b \<times> 's) option) \<Rightarrow> 'a list \<Rightarrow> 's \<Rightarrow> ('b list \<times> 's) option" where
  "map_st f [] st = Some ([], st)"
| "map_st f (x # xs) st = do {
     (y, st) \<leftarrow> f x st;
     (ys, st) \<leftarrow> map_st f xs st;
     Some (y # ys, st)
   }"

section \<open>Types\<close>

definition named_type :: "ids \<Rightarrow> type_kind \<Rightarrow> string \<Rightarrow> recording \<Rightarrow> type_id \<times> recording" where
  "named_type W k name st =
     (case rc_types st (NamedKey k name) of
        Some i \<Rightarrow> (i, st)
      | None \<Rightarrow>
          (let (i, t) = ensure_type_id W k name (rc_trace st) in
           (i, st\<lparr>rc_types := (rc_types st)(NamedKey k name \<mapsto> i), rc_trace := t\<rparr>)))"

interpretation named_types: memo_table "\<lambda>st (k, name). rc_types st (NamedKey k name)" "\<lambda>(k, name). named_type W k name" for W
  by unfold_locales (auto simp: named_type_def map_le_def split: prod.splits option.splits)

definition base_kind :: "DwAte \<Rightarrow> type_kind" where
  "base_kind e =
     (if e = ATE_boolean then KBool
      else if e = ATE_float then KFloat
      else if e \<in> {ATE_UTF, ATE_unsigned_char, ATE_signed_char} then KChar
      else KInt)"

partial_function (option) kind_of :: "TypeDesc list \<Rightarrow> TypeRef \<Rightarrow> type_kind option" where
  "kind_of T t =
     (case nth_opt T t of
        Some (BaseT n e s) \<Rightarrow> Some (base_kind e)
      | Some (PointerT n x) \<Rightarrow> Some KPointer
      | Some (StructT n s ms) \<Rightarrow> Some KStruct
      | Some (ArrayT n x c) \<Rightarrow> Some KArray
      | Some (AliasT (Some u)) \<Rightarrow> kind_of T u
      | _ \<Rightarrow> Some KRaw)"

text \<open>The end of \<open>dwarf_type\<close>: the writer is asked once and the answer is kept.\<close>

definition cache_type :: "TypeRef \<Rightarrow> type_id \<times> trace \<Rightarrow> recording \<Rightarrow> type_id \<times> recording" where
  "cache_type t = (\<lambda>(i, tr) st. (i, st\<lparr>rc_types := (rc_types st)(DwarfKey t \<mapsto> i), rc_trace := tr\<rparr>))"

text \<open>A struct registers its members' types first, in order.\<close>

type_synonym dwarf_fun = "TypeRef \<Rightarrow> type_kind \<Rightarrow> recording \<Rightarrow> (type_id \<times> recording) option"

definition dwarf_field ::
  "ids \<Rightarrow> TypeDesc list \<Rightarrow> dwarf_fun \<Rightarrow> string \<times> u64 \<times> TypeRef option \<Rightarrow> recording
   \<Rightarrow> ((string \<times> type_id) \<times> recording) option" where
  "dwarf_field W T dw = (\<lambda>(field, o', mt) st.
     case mt of
       Some u \<Rightarrow> do {
         ku \<leftarrow> kind_of T u;
         (i, st) \<leftarrow> dw u ku st;
         Some ((field, i), st)
       }
     | None \<Rightarrow> (let (i, st) = named_type W KRaw ''?'' st in Some ((field, i), st)))"

definition register_dwarf ::
  "ids \<Rightarrow> TypeDesc list \<Rightarrow> dwarf_fun \<Rightarrow> TypeRef \<Rightarrow> type_kind \<Rightarrow> string \<Rightarrow> recording
   \<Rightarrow> (type_id \<times> recording) option" where
  "register_dwarf W T dw t k name st =
     (case nth_opt T t of
        Some (StructT nm s ms) \<Rightarrow> do {
          (fields, st) \<leftarrow> map_st (dwarf_field W T dw) ms st;
          Some (cache_type t (ensure_raw_type_id W (StructType name fields) (rc_trace st)) st)
        }
      | _ \<Rightarrow> Some (cache_type t (ensure_type_id W k name (rc_trace st)) st))"

fun dwarf_type :: "ids \<Rightarrow> TypeDesc list \<Rightarrow> nat \<Rightarrow> dwarf_fun" where
  "dwarf_type W T 0 t k st = None"
| "dwarf_type W T (Suc n) t k st =
     (case rc_types st (DwarfKey t) of
        Some i \<Rightarrow> Some (i, st)
      | None \<Rightarrow> do {
          name \<leftarrow> type_name T t;
          register_dwarf W T (dwarf_type W T n) t k name st
        })"

section \<open>Base values\<close>

text \<open>\<open>pad16\<close> read as a little-endian number: the first sixteen bytes, the rest zeroes.\<close>

definition pad16 :: "bytes \<Rightarrow> bytes" where
  "pad16 bs = take 16 bs @ replicate (16 - length bs) 0"

definition char_from_u32 :: "u32 \<Rightarrow> nat option" where
  "char_from_u32 c =
     (if unat c \<ge> 0x110000 \<or> (0xD800 \<le> unat c \<and> unat c \<le> 0xDFFF) then None else Some (unat c))"

definition fits_i64 :: "int \<Rightarrow> bool" where
  "fits_i64 v \<longleftrightarrow> - (2 ^ 63) \<le> v \<and> v < 2 ^ 63"

definition int_or_big :: "nat \<Rightarrow> int \<Rightarrow> type_id \<Rightarrow> value_record" where
  "int_or_big n v tid =
     (if fits_i64 v then IntV v tid else BigIntV (rev (nat_le n (nat \<bar>v\<bar>))) (v < 0) tid)"

definition decode_base :: "DwAte \<Rightarrow> u64 \<Rightarrow> bytes \<Rightarrow> type_id \<Rightarrow> value_record option" where
  "decode_base enc sz bs tid =
     (if enc = ATE_boolean then Some (BoolV (list_ex (\<lambda>b. b \<noteq> 0) bs) tid)
      else if enc = ATE_float \<and> sz = 4 then map_option (\<lambda>b. FloatV (F32 (from_le b)) tid) (get_slice bs 0 4)
      else if enc = ATE_float \<and> sz = 8 then map_option (\<lambda>b. FloatV (F64 (from_le b)) tid) (get_slice bs 0 8)
      else if enc \<in> {ATE_UTF, ATE_unsigned_char, ATE_signed_char} \<and> sz \<le> 4 then
        Some (case char_from_u32 (ucast (le_u64 bs)) of
                Some c \<Rightarrow> CharV c tid
              | None \<Rightarrow> IntV (sint (le_u64 bs)) tid)
      else if enc = ATE_signed \<and> sz \<le> 8 then
        (let shift = 64 - 8 * unat (max sz 1) in
         Some (IntV (drop_bit shift (sint (push_bit shift (le_u64 bs)))) tid))
      else if sz \<le> 8 then Some (int_or_big 8 (uint (le_u64 bs)) tid)
      else if enc = ATE_signed then Some (int_or_big 16 (sint (from_le (pad16 bs) :: u128)) tid)
      else Some (int_or_big 16 (uint (from_le (pad16 bs) :: u128)) tid))"

section \<open>Values\<close>

definition MAX_VALUE_DEPTH :: nat where "MAX_VALUE_DEPTH = 6"

definition MAX_ARRAY_ELEMENTS :: u64 where "MAX_ARRAY_ELEMENTS = 64"

text \<open>The field of a struct, and an element of an array; \<open>usize\<close> wraps.\<close>

definition field_bytes :: "TypeDesc list \<Rightarrow> bytes \<Rightarrow> u64 \<Rightarrow> TypeRef option \<Rightarrow> bytes option" where
  "field_bytes T bs offset mt =
     (let sz = unwrap_or (Option.bind mt (type_size T)) 0 in
      get_slice bs (unat offset) (unat (offset + sz)))"

definition element_bytes :: "TypeDesc list \<Rightarrow> bytes \<Rightarrow> TypeRef \<Rightarrow> u64 \<Rightarrow> bytes option" where
  "element_bytes T bs element i =
     (let sz = unwrap_or (type_size T element) 0 in
      get_slice bs (unat (i * sz)) (unat ((i + 1) * sz)))"

definition pointee_bytes :: "TypeDesc list \<Rightarrow> ShadowMemory \<Rightarrow> TypeRef \<Rightarrow> u64 \<Rightarrow> bytes option" where
  "pointee_bytes T m t address = do { sz \<leftarrow> type_size T t; read_mem m address (unat sz) }"

definition hex_string :: "bytes \<Rightarrow> string" where
  "hex_string bs = concat (map hex_byte bs)"

type_synonym decode_fun =
  "TypeRef \<Rightarrow> bytes \<Rightarrow> nat \<Rightarrow> recording \<Rightarrow> (value_record \<times> recording) option"

text \<open>The arms of the match, with the functions they call: \<open>dw\<close> registers a type, \<open>dec\<close> decodes a
  nested value.\<close>

definition decode_base_arm ::
  "dwarf_fun \<Rightarrow> DwAte \<Rightarrow> u64 \<Rightarrow> TypeRef \<Rightarrow> type_kind \<Rightarrow> bytes \<Rightarrow> recording \<Rightarrow> (value_record \<times> recording) option" where
  "decode_base_arm dw enc sz ty kind bs st = do {
     (tid, st) \<leftarrow> dw ty kind st;
     if sz = 0 then Some (NoneV tid, st)
     else do { v \<leftarrow> decode_base enc sz bs tid; Some (v, st) }
   }"

definition decode_pointer ::
  "TypeDesc list \<Rightarrow> ShadowMemory \<Rightarrow> dwarf_fun \<Rightarrow> decode_fun \<Rightarrow> TypeRef option \<Rightarrow> TypeRef \<Rightarrow> type_kind \<Rightarrow> bytes
   \<Rightarrow> nat \<Rightarrow> recording \<Rightarrow> (value_record \<times> recording) option" where
  "decode_pointer T m dw dec target ty kind bs depth st = do {
     (tid, st) \<leftarrow> dw ty kind st;
     (case Option.bind (if depth < MAX_VALUE_DEPTH then target else None)
             (\<lambda>t. map_option (Pair t) (pointee_bytes T m t (le_u64 bs))) of
        None \<Rightarrow> Some (RawV (hex_prefixed (le_u64 bs)) tid, st)
      | Some (t, d) \<Rightarrow> do {
          (v, st) \<leftarrow> dec t d (depth + 1) st;
          Some (ReferenceV v (le_u64 bs) True tid, st)
        })
   }"

definition decode_member ::
  "TypeDesc list \<Rightarrow> decode_fun \<Rightarrow> bytes \<Rightarrow> nat \<Rightarrow> string \<times> u64 \<times> TypeRef option \<Rightarrow> recording
   \<Rightarrow> (value_record \<times> recording) option" where
  "decode_member T dec bs depth = (\<lambda>(x, offset, mt) st.
     case (mt, field_bytes T bs offset mt) of
       (Some t, Some field) \<Rightarrow> dec t field (depth + 1) st
     | _ \<Rightarrow> Some (NoneValue, st))"

definition decode_struct ::
  "TypeDesc list \<Rightarrow> dwarf_fun \<Rightarrow> decode_fun \<Rightarrow> (string \<times> u64 \<times> TypeRef option) list \<Rightarrow> TypeRef \<Rightarrow> type_kind \<Rightarrow> bytes
   \<Rightarrow> nat \<Rightarrow> recording \<Rightarrow> (value_record \<times> recording) option" where
  "decode_struct T dw dec ms ty kind bs depth st = do {
     (tid, st) \<leftarrow> dw ty kind st;
     (vs, st) \<leftarrow> map_st (decode_member T dec bs depth) ms st;
     Some (StructV vs tid, st)
   }"

definition decode_element ::
  "TypeDesc list \<Rightarrow> decode_fun \<Rightarrow> TypeRef \<Rightarrow> bytes \<Rightarrow> nat \<Rightarrow> nat \<Rightarrow> recording
   \<Rightarrow> (value_record \<times> recording) option" where
  "decode_element T dec element bs depth i st =
     (case element_bytes T bs element (of_nat i) of
        Some e \<Rightarrow> dec element e (depth + 1) st
      | None \<Rightarrow> Some (NoneValue, st))"

definition decode_array ::
  "TypeDesc list \<Rightarrow> dwarf_fun \<Rightarrow> decode_fun \<Rightarrow> TypeRef \<Rightarrow> u64 \<Rightarrow> TypeRef \<Rightarrow> type_kind \<Rightarrow> bytes \<Rightarrow> nat \<Rightarrow> recording
   \<Rightarrow> (value_record \<times> recording) option" where
  "decode_array T dw dec element count ty kind bs depth st = do {
     (tid, st) \<leftarrow> dw ty kind st;
     (vs, st) \<leftarrow> map_st (decode_element T dec element bs depth) [0..<unat count] st;
     Some (SequenceV vs False tid, st)
   }"

definition decode_raw ::
  "dwarf_fun \<Rightarrow> TypeRef \<Rightarrow> bytes \<Rightarrow> recording \<Rightarrow> (value_record \<times> recording) option" where
  "decode_raw dw ty bs st = do {
     (tid, st) \<leftarrow> dw ty KRaw st;
     Some (RawV (hex_string bs) tid, st)
   }"

definition decode_arms ::
  "TypeDesc list \<Rightarrow> ShadowMemory \<Rightarrow> dwarf_fun \<Rightarrow> decode_fun \<Rightarrow> type_kind \<Rightarrow> decode_fun" where
  "decode_arms T m dw dec kind ty bs depth st =
     (case nth_opt T ty of
        Some (AliasT (Some t)) \<Rightarrow> dec t bs depth st
      | Some (BaseT nm enc sz) \<Rightarrow> decode_base_arm dw enc sz ty kind bs st
      | Some (PointerT nm target) \<Rightarrow> decode_pointer T m dw dec target ty kind bs depth st
      | Some (StructT nm s ms) \<Rightarrow>
          if depth < MAX_VALUE_DEPTH then decode_struct T dw dec ms ty kind bs depth st
          else decode_raw dw ty bs st
      | Some (ArrayT nm (Some element) (Some count)) \<Rightarrow>
          if depth < MAX_VALUE_DEPTH \<and> count \<le> MAX_ARRAY_ELEMENTS
          then decode_array T dw dec element count ty kind bs depth st
          else decode_raw dw ty bs st
      | _ \<Rightarrow> decode_raw dw ty bs st)"

fun decode_value ::
  "ids \<Rightarrow> TypeDesc list \<Rightarrow> ShadowMemory \<Rightarrow> nat \<Rightarrow> decode_fun" where
  "decode_value W T m 0 ty bs depth st = None"
| "decode_value W T m (Suc n) ty bs depth st = do {
     kind \<leftarrow> kind_of T ty;
     decode_arms T m (dwarf_type W T n) (decode_value W T m n) kind ty bs depth st
   }"

section \<open>Decoding only declares types\<close>

definition quiet :: "recording \<Rightarrow> recording \<Rightarrow> bool" where
  "quiet st st' \<longleftrightarrow>
     rc_functions st' = rc_functions st \<and> (\<exists>es. rc_trace st' = rc_trace st @ es \<and> list_all declares es)"

lemma quiet_refl [simp, intro]: "quiet st st"
  by (simp add: quiet_def)

lemma quiet_trans [trans]: "quiet a b \<Longrightarrow> quiet b c \<Longrightarrow> quiet a c"
  by (auto simp: quiet_def)

lemma quiet_cache [simp]:
  "snd (cache_type t (ensure_type_id W k n (rc_trace st)) st) = st' \<Longrightarrow> quiet st st'"
  "snd (cache_type t (ensure_raw_type_id W r (rc_trace st)) st) = st' \<Longrightarrow> quiet st st'"
  by (auto simp: quiet_def cache_type_def ensure_type_id_def ensure_raw_type_id_def)

lemma quiet_named: "named_type W k n st = (i, st') \<Longrightarrow> quiet st st'"
  by (auto simp: named_type_def quiet_def ensure_type_id_def split: option.splits)

lemma map_st_rel:
  assumes "\<And>x s y s'. x \<in> set xs \<Longrightarrow> f x s = Some (y, s') \<Longrightarrow> R s s'"
    and "\<And>s. R s s" "\<And>a b c. R a b \<Longrightarrow> R b c \<Longrightarrow> R a c"
    and "map_st f xs st = Some (ys, st')"
  shows "R st st'"
  using assms(1,4)
proof (induction xs arbitrary: st ys)
  case (Cons x xs)
  from Cons.prems(2) obtain y st1 zs where "f x st = Some (y, st1)" "map_st f xs st1 = Some (zs, st')"
    by (auto simp: bind_eq_Some_conv)
  with Cons.IH Cons.prems(1) assms(3) show ?case by (meson list.set_intros)
qed (simp add: assms(2))

lemma map_st_total:
  assumes "\<And>x s. x \<in> set xs \<Longrightarrow> f x s \<noteq> None"
  shows "map_st f xs st \<noteq> None"
  using assms
proof (induction xs arbitrary: st)
  case (Cons x xs)
  obtain y st1 where y: "f x st = Some (y, st1)" using Cons.prems [of x st] by auto
  obtain zs st2 where "map_st f xs st1 = Some (zs, st2)"
    using Cons.IH [of st1] Cons.prems by (metis list.set_intros(2) not_Some_eq prod.exhaust)
  with y show ?case by simp
qed simp

lemma map_st_length: "map_st f xs st = Some (ys, st') \<Longrightarrow> length ys = length xs"
  by (induction xs arbitrary: st ys) (auto simp: bind_eq_Some_conv)

lemma map_st_quiet:
  "(\<And>x s y s'. x \<in> set xs \<Longrightarrow> f x s = Some (y, s') \<Longrightarrow> quiet s s') \<Longrightarrow> map_st f xs st = Some (ys, st') \<Longrightarrow>
   quiet st st'"
  by (rule map_st_rel [where R = quiet and f = f]) (auto intro: quiet_trans)

definition quiet_fun :: "('a \<Rightarrow> recording \<Rightarrow> ('b \<times> recording) option) \<Rightarrow> bool" where
  "quiet_fun f \<longleftrightarrow> (\<forall>x st y st'. f x st = Some (y, st') \<longrightarrow> quiet st st')"

lemma quiet_funD: "quiet_fun f \<Longrightarrow> f x st = Some (y, st') \<Longrightarrow> quiet st st'"
  by (auto simp: quiet_fun_def)

lemma quiet_fun_map: "quiet_fun f \<Longrightarrow> map_st f xs st = Some (ys, st') \<Longrightarrow> quiet st st'"
  by (rule map_st_quiet [where f = f]) (auto dest: quiet_funD)

lemma dwarf_field_quiet: "(\<And>t. quiet_fun (dw t)) \<Longrightarrow> quiet_fun (dwarf_field W T dw)"
  by (fastforce simp: quiet_fun_def dwarf_field_def bind_eq_Some_conv split: option.splits prod.splits
      dest: quiet_named)

lemma register_dwarf_quiet:
  assumes "\<And>t. quiet_fun (dw t)" "register_dwarf W T dw t k name st = Some (i, st')"
  shows "quiet st st'"
proof (cases "\<exists>nm s ms. nth_opt T t = Some (StructT nm s ms)")
  case True
  with assms(2) obtain ms fields st1 where
    f: "map_st (dwarf_field W T dw) ms st = Some (fields, st1)"
    and r: "cache_type t (ensure_raw_type_id W (StructType name fields) (rc_trace st1)) st1 = (i, st')"
    by (auto simp: register_dwarf_def bind_eq_Some_conv)
  have "quiet st st1" by (rule quiet_fun_map [OF dwarf_field_quiet [OF assms(1)] f])
  also have "quiet st1 st'" using r quiet_cache(2) by (metis snd_conv)
  finally show ?thesis .
next
  case False
  with assms(2) have "cache_type t (ensure_type_id W k name (rc_trace st)) st = (i, st')"
    by (auto simp: register_dwarf_def split: option.splits TypeDesc.splits)
  then show ?thesis using quiet_cache(1) by (metis snd_conv)
qed

lemma dwarf_type_quiet: "quiet_fun (dwarf_type W T n t)"
proof (induction n arbitrary: t)
  case (Suc n)
  show ?case
    by (auto simp: quiet_fun_def bind_eq_Some_conv split: option.splits
        dest: register_dwarf_quiet [where dw = "dwarf_type W T n", OF Suc])
qed (simp add: quiet_fun_def)

lemmas quiet_steps = quiet_funD quiet_trans

lemma decode_member_quiet:
  "(\<And>t bs. quiet_fun (dec t bs)) \<Longrightarrow> quiet_fun (decode_member T dec bs depth)"
  by (auto simp: quiet_fun_def decode_member_def split: option.splits)

lemma decode_element_quiet:
  "(\<And>t bs. quiet_fun (dec t bs)) \<Longrightarrow> quiet_fun (decode_element T dec element bs depth)"
  by (auto simp: quiet_fun_def decode_element_def split: option.splits)

lemma decode_arms_quiet:
  assumes dw: "\<And>t. quiet_fun (dw t)" and dec: "\<And>t bs. quiet_fun (dec t bs)"
    and r: "decode_arms T m dw dec kind ty bs depth st = Some (v, st')"
  shows "quiet st st'"
proof -
  have raw: ?thesis if "decode_raw dw ty bs st = Some (v, st')"
    using that dw by (auto simp: decode_raw_def bind_eq_Some_conv dest: quiet_funD)
  have base: ?thesis if "decode_base_arm dw enc sz ty kind bs st = Some (v, st')" for enc sz
    using that dw by (auto simp: decode_base_arm_def bind_eq_Some_conv split: if_splits dest: quiet_funD)
  have pointer: ?thesis if "decode_pointer T m dw dec target ty kind bs depth st = Some (v, st')" for target
    using that
    by (auto simp: decode_pointer_def bind_eq_Some_conv split: option.splits
        dest: quiet_funD [OF dw] intro: quiet_trans [OF quiet_funD [OF dw] quiet_funD [OF dec]])
  have struct: ?thesis if "decode_struct T dw dec ms ty kind bs depth st = Some (v, st')" for ms
    using that quiet_fun_map [OF decode_member_quiet [OF dec]]
    by (auto simp: decode_struct_def bind_eq_Some_conv intro: quiet_trans [OF quiet_funD [OF dw]])
  have array: ?thesis if "decode_array T dw dec element count ty kind bs depth st = Some (v, st')" for element count
    using that quiet_fun_map [OF decode_element_quiet [OF dec]]
    by (auto simp: decode_array_def bind_eq_Some_conv intro: quiet_trans [OF quiet_funD [OF dw]])
  show ?thesis
    using r raw base pointer struct array
    by (auto simp: decode_arms_def split: option.splits TypeDesc.splits if_splits dest: quiet_funD [OF dec])
qed

lemma decode_value_quiet: "quiet_fun (decode_value W T m n ty bs)"
proof (induction n arbitrary: ty bs)
  case (Suc n)
  show ?case
    by (auto simp: quiet_fun_def bind_eq_Some_conv
        dest: decode_arms_quiet [where dec = "decode_value W T m n", OF dwarf_type_quiet Suc])
qed (simp add: quiet_fun_def)

section \<open>Decoding returns\<close>

text \<open>
  Types whose values do not contain themselves: a rank that falls from an alias to its
  target and from a struct to the types of its members. Pointers and array elements are
  free. Chains of fewer than 33 links are what \<open>type_size\<close> follows.
\<close>

definition value_refs :: "TypeDesc \<Rightarrow> TypeRef option list" where
  "value_refs d =
     (case d of AliasT t \<Rightarrow> [t] | StructT n s ms \<Rightarrow> map (\<lambda>(x, o', t). t) ms | _ \<Rightarrow> [])"

definition ranked :: "TypeDesc list \<Rightarrow> (TypeRef \<Rightarrow> nat) \<Rightarrow> nat \<Rightarrow> bool" where
  "ranked T R N \<longleftrightarrow>
     (\<forall>t. R t < N) \<and> (\<forall>t d u. nth_opt T t = Some d \<longrightarrow> Some u \<in> set (value_refs d) \<longrightarrow> R u < R t)"

lemma ranked_bound: "ranked T R N \<Longrightarrow> R t < N"
  by (simp add: ranked_def)

lemma ranked_alias: "ranked T R N \<Longrightarrow> nth_opt T t = Some (AliasT (Some u)) \<Longrightarrow> R u < R t"
  by (auto simp: ranked_def value_refs_def)

lemma ranked_member:
  "ranked T R N \<Longrightarrow> nth_opt T t = Some (StructT n s ms) \<Longrightarrow> (x, o', Some u) \<in> set ms \<Longrightarrow> R u < R t"
proof -
  assume r: "ranked T R N" "nth_opt T t = Some (StructT n s ms)" and m: "(x, o', Some u) \<in> set ms"
  have "Some u \<in> set (value_refs (StructT n s ms))" using m by (force simp: value_refs_def)
  with r show ?thesis unfolding ranked_def by blast
qed

lemma name_total: "ranked T R N \<Longrightarrow> type_name T t \<noteq> None"
proof (induction "R t" arbitrary: t rule: less_induct)
  case less
  have "type_name T u \<noteq> None" if "nth_opt T t = Some (AliasT (Some u))" for u
    using less.hyps [OF ranked_alias [OF less.prems that] less.prems] .
  then show ?case by (subst type_name.simps) (auto split: option.splits TypeDesc.splits)
qed

lemma kind_total: "ranked T R N \<Longrightarrow> kind_of T t \<noteq> None"
proof (induction "R t" arbitrary: t rule: less_induct)
  case less
  have "kind_of T u \<noteq> None" if "nth_opt T t = Some (AliasT (Some u))" for u
    using less.hyps [OF ranked_alias [OF less.prems that] less.prems] .
  then show ?case by (subst kind_of.simps) (auto split: option.splits TypeDesc.splits)
qed

lemma dwarf_total: "ranked T R N \<Longrightarrow> R t < n \<Longrightarrow> dwarf_type W T n t k st \<noteq> None"
proof (induction n arbitrary: t k st)
  case (Suc n)
  obtain name where name: "type_name T t = Some name" using name_total [OF Suc.prems(1)] by blast
  have "map_st (dwarf_field W T (dwarf_type W T n)) ms st \<noteq> None"
    if t: "nth_opt T t = Some (StructT nm s ms)" for nm s ms
  proof (rule map_st_total)
    fix x st assume x: "x \<in> set ms"
    obtain field o' mt where x': "x = (field, o', mt)" by (cases x)
    show "dwarf_field W T (dwarf_type W T n) x st \<noteq> None"
    proof (cases mt)
      case (Some u)
      with ranked_member [OF Suc.prems(1) t] x x' have "R u < n" using Suc.prems(2) by fastforce
      then have d: "dwarf_type W T n u k st \<noteq> None" for k using Suc.IH [OF Suc.prems(1)] by blast
      obtain ku where ku: "kind_of T u = Some ku" using kind_total [OF Suc.prems(1)] by blast
      obtain i st1 where "dwarf_type W T n u ku st = Some (i, st1)" using d [of ku] by auto
      with Some ku show ?thesis by (simp add: x' dwarf_field_def)
    qed (simp add: x' dwarf_field_def split: prod.splits)
  qed
  then have "register_dwarf W T (dwarf_type W T n) t k name st \<noteq> None"
    by (auto simp: register_dwarf_def split: option.splits TypeDesc.splits)
  with name show ?case by (auto split: option.splits)
qed simp

text \<open>The base type at the end of a chain of aliases; its bytes must be all there.\<close>

inductive base_at :: "TypeDesc list \<Rightarrow> TypeRef \<Rightarrow> DwAte \<Rightarrow> u64 \<Rightarrow> bool" for T where
  base_here: "nth_opt T t = Some (BaseT n enc sz) \<Longrightarrow> base_at T t enc sz"
| base_alias: "nth_opt T t = Some (AliasT (Some u)) \<Longrightarrow> base_at T u enc sz \<Longrightarrow> base_at T t enc sz"

definition sized :: "TypeDesc list \<Rightarrow> TypeRef \<Rightarrow> bytes \<Rightarrow> bool" where
  "sized T t bs \<longleftrightarrow> (\<forall>enc sz. base_at T t enc sz \<longrightarrow> length bs = unat sz)"

lemma base_at_size:
  "base_at T t enc sz \<Longrightarrow> ranked T R N \<Longrightarrow> d + R t \<le> 32 \<Longrightarrow> type_size_depth T t d = Some sz"
proof (induction arbitrary: d rule: base_at.induct)
  case (base_here t n enc sz)
  then show ?case by (simp add: type_size_depth.simps)
next
  case (base_alias t u enc sz)
  have "R u < R t" by (rule ranked_alias [OF base_alias.prems(1) base_alias.hyps(1)])
  with base_alias.prems have "d + 1 + R u \<le> 32" "d \<le> 32" by auto
  with base_alias show ?case by (simp add: type_size_depth.simps [of T t d])
qed

lemma base_at_type_size:
  "base_at T t enc sz \<Longrightarrow> ranked T R N \<Longrightarrow> N \<le> 33 \<Longrightarrow> type_size T t = Some sz"
  unfolding type_size_def
  by (rule base_at_size) (auto dest: ranked_bound [of _ _ _ t])

lemma sized_of_type_size:
  "ranked T R N \<Longrightarrow> N \<le> 33 \<Longrightarrow> (\<And>s. type_size T t = Some s \<Longrightarrow> length bs = unat s) \<Longrightarrow> sized T t bs"
  by (auto simp: sized_def dest: base_at_type_size)

lemma slice_wrapped:
  "get_slice bs (unat a) (unat (a + s)) = Some d \<Longrightarrow> length d = unat s" for a s :: u64
proof -
  assume g: "get_slice bs (unat a) (unat (a + s)) = Some d"
  then have "unat a \<le> unat (a + s)" by (auto simp: get_slice_def split: if_splits)
  then have "unat (a + s) = unat a + unat s"
    by (metis (no_types, opaque_lifting) word_le_nat_alt unat_plus_simple)
  with get_slice_length [OF g] show ?thesis by simp
qed

lemma read_mem_length: "read_mem m a n = Some d \<Longrightarrow> length d = n"
proof -
  have *: "find_map (region_read a n) rs = Some d \<Longrightarrow> length d = n" for rs
  proof (induction rs)
    case (Cons r rs)
    obtain start bs where r: "r = (start, bs)" by (cases r)
    show ?case
    proof (cases "region_read a n r")
      case (Some x)
      with Cons.prems have "region_read a n (start, bs) = Some d" by (simp add: r)
      from this [unfolded region_read_Some] show ?thesis by (auto dest: get_slice_length)
    qed (use Cons in simp)
  qed simp
  assume "read_mem m a n = Some d"
  then show ?thesis unfolding read_mem_def by (rule *)
qed

lemma decode_base_total: "length bs = unat sz \<Longrightarrow> decode_base enc sz bs tid \<noteq> None"
  by (auto simp: decode_base_def get_slice_def Let_def)

definition fuel_needed :: "nat \<Rightarrow> nat \<Rightarrow> nat \<Rightarrow> nat" where
  "fuel_needed N depth r = (MAX_VALUE_DEPTH - depth) * (N + 1) + r + 2"

lemma fuel_deeper:
  "depth < MAX_VALUE_DEPTH \<Longrightarrow> r < N \<Longrightarrow> fuel_needed N depth r' \<le> Suc n \<Longrightarrow> fuel_needed N (depth + 1) r \<le> n"
proof -
  assume a: "depth < MAX_VALUE_DEPTH" "r < N" "fuel_needed N depth r' \<le> Suc n"
  then obtain k where k: "MAX_VALUE_DEPTH - depth = Suc k" by (cases "MAX_VALUE_DEPTH - depth") auto
  then have "MAX_VALUE_DEPTH - (depth + 1) = k" by simp
  with a k show ?thesis by (simp add: fuel_needed_def)
qed

lemma map_st_total_quiet: "(\<And>x s. x \<in> set xs \<Longrightarrow> \<exists>r. f x s = Some r) \<Longrightarrow> \<exists>r. map_st f xs st = Some r"
  using map_st_total [of xs f st] by (metis not_None_eq)

text \<open>The arms of the decoder, over any way to declare the type at hand and to decode one level
  deeper that succeeds on bytes of the right length.\<close>

definition declares_all :: "dwarf_fun \<Rightarrow> TypeRef \<Rightarrow> bool" where
  "declares_all dw ty \<longleftrightarrow> (\<forall>k st. \<exists>i st'. dw ty k st = Some (i, st'))"

definition decodes_deeper :: "TypeDesc list \<Rightarrow> decode_fun \<Rightarrow> nat \<Rightarrow> bool" where
  "decodes_deeper T dec depth \<longleftrightarrow>
     (\<forall>t d st. depth < MAX_VALUE_DEPTH \<longrightarrow> (\<forall>s. type_size T t = Some s \<longrightarrow> length d = unat s)
        \<longrightarrow> (\<exists>v st'. dec t d (depth + 1) st = Some (v, st')))"

lemma decodes_deeperD:
  "decodes_deeper T dec depth \<Longrightarrow> depth < MAX_VALUE_DEPTH \<Longrightarrow> (\<And>s. type_size T t = Some s \<Longrightarrow> length d = unat s)
   \<Longrightarrow> \<exists>v st'. dec t d (depth + 1) st = Some (v, st')"
  by (simp add: decodes_deeper_def)

lemma declares_allE:
  assumes "declares_all dw ty"
  obtains tid st1 where "dw ty k st = Some (tid, st1)"
  using assms unfolding declares_all_def by blast

lemma decode_raw_total:
  assumes "declares_all dw ty"
  shows "\<exists>r. decode_raw dw ty bs st = Some r"
proof -
  obtain tid st1 where "dw ty KRaw st = Some (tid, st1)" using declares_allE [OF assms] .
  then show ?thesis by (simp add: decode_raw_def)
qed

lemma decode_base_arm_total:
  assumes "declares_all dw ty" "length bs = unat s"
  shows "\<exists>r. decode_base_arm dw enc s ty kind bs st = Some r"
proof -
  obtain tid st1 where "dw ty kind st = Some (tid, st1)" using declares_allE [OF assms(1)] .
  moreover have "\<exists>v. decode_base enc s bs tid = Some v" using decode_base_total [OF assms(2)] by blast
  ultimately show ?thesis by (auto simp: decode_base_arm_def)
qed

lemma decode_pointer_total:
  assumes "declares_all dw ty" "decodes_deeper T dec depth"
  shows "\<exists>r. decode_pointer T m dw dec target ty kind bs depth st = Some r"
proof -
  obtain tid st1 where t: "dw ty kind st = Some (tid, st1)" using declares_allE [OF assms(1)] .
  show ?thesis
  proof (cases "depth < MAX_VALUE_DEPTH \<and> (\<exists>t d. target = Some t \<and> pointee_bytes T m t (le_u64 bs) = Some d)")
    case True
    then obtain t' d where p: "target = Some t'" "pointee_bytes T m t' (le_u64 bs) = Some d" by blast
    have "length d = unat s" if "type_size T t' = Some s" for s
      using p(2) that by (auto simp: pointee_bytes_def dest: read_mem_length)
    then obtain v st2 where "dec t' d (depth + 1) st1 = Some (v, st2)"
      using decodes_deeperD [OF assms(2)] True by blast
    with True t p show ?thesis by (simp add: decode_pointer_def)
  next
    case False
    then have "Option.bind (if depth < MAX_VALUE_DEPTH then target else None)
        (\<lambda>t. map_option (Pair t) (pointee_bytes T m t (le_u64 bs))) = None"
      by (cases target) auto
    with t show ?thesis by (simp add: decode_pointer_def)
  qed
qed

lemma decode_struct_total:
  assumes "declares_all dw ty" "decodes_deeper T dec depth" "depth < MAX_VALUE_DEPTH"
  shows "\<exists>r. decode_struct T dw dec ms ty kind bs depth st = Some r"
proof -
  have "\<exists>r. decode_member T dec bs depth x st = Some r" for x st
  proof -
    obtain a o' mt where x: "x = (a, o', mt)" by (cases x)
    have "length f = unat s" if "mt = Some t" "field_bytes T bs o' mt = Some f" "type_size T t = Some s" for f t s
      using that slice_wrapped by (auto simp: field_bytes_def unwrap_or_def)
    then show ?thesis
      using decodes_deeperD [OF assms(2,3)] by (fastforce simp: x decode_member_def split: option.splits)
  qed
  then have members: "\<exists>r. map_st (decode_member T dec bs depth) ms st = Some r" for st
    by (rule map_st_total_quiet)
  obtain tid st1 where "dw ty kind st = Some (tid, st1)" using declares_allE [OF assms(1)] .
  with members [of st1] show ?thesis by (auto simp: decode_struct_def)
qed

lemma decode_array_total:
  assumes "declares_all dw ty" "decodes_deeper T dec depth" "depth < MAX_VALUE_DEPTH"
  shows "\<exists>r. decode_array T dw dec element count ty kind bs depth st = Some r"
proof -
  have "\<exists>r. decode_element T dec element bs depth i st = Some r" for i st
  proof -
    have "length e = unat s" if "element_bytes T bs element (of_nat i) = Some e" "type_size T element = Some s" for e s
      using that slice_wrapped [of bs "of_nat i * s" s e]
      by (simp add: element_bytes_def unwrap_or_def distrib_right add.commute)
    then show ?thesis
      using decodes_deeperD [OF assms(2,3)] by (fastforce simp: decode_element_def split: option.splits)
  qed
  then have elements: "\<exists>r. map_st (decode_element T dec element bs depth) xs st = Some r" for xs st
    by (rule map_st_total_quiet)
  obtain tid st1 where "dw ty kind st = Some (tid, st1)" using declares_allE [OF assms(1)] .
  with elements [of "[0..<unat count]" st1] show ?thesis by (auto simp: decode_array_def)
qed

lemma decode_total:
  assumes "ranked T R N" "N \<le> 33"
  shows "sized T ty bs \<Longrightarrow> fuel_needed N depth (R ty) \<le> n \<Longrightarrow> \<exists>r. decode_value W T m n ty bs depth st = Some r"
proof (induction n arbitrary: ty bs depth st)
  case 0
  then show ?case by (simp add: fuel_needed_def)
next
  case (Suc n)
  let ?dw = "dwarf_type W T n" and ?dec = "decode_value W T m n"
  have "R ty < n" using Suc.prems(2) by (simp add: fuel_needed_def)
  then have dw: "declares_all ?dw ty"
    unfolding declares_all_def using dwarf_total [OF assms(1)] by (metis not_None_eq prod.exhaust)
  have deeper: "decodes_deeper T ?dec depth"
    unfolding decodes_deeper_def
    using Suc.IH [OF sized_of_type_size [OF assms] fuel_deeper [OF _ ranked_bound [OF assms(1)] Suc.prems(2)]]
    by fastforce
  have base: "length bs = unat s" if "nth_opt T ty = Some (BaseT nm enc s)" for nm enc s
    using Suc.prems(1) base_here [OF that] by (simp add: sized_def)
  have aliased: "\<exists>r. ?dec t bs depth st = Some r" if a: "nth_opt T ty = Some (AliasT (Some t))" for t
  proof (rule Suc.IH)
    show "sized T t bs" using Suc.prems(1) base_alias [OF a] by (auto simp: sized_def)
    show "fuel_needed N depth (R t) \<le> n"
      using ranked_alias [OF assms(1) a] Suc.prems(2) by (simp add: fuel_needed_def)
  qed
  obtain kind where kind: "kind_of T ty = Some kind" using kind_total [OF assms(1)] by blast
  have "\<exists>r. decode_arms T m ?dw ?dec kind ty bs depth st = Some r"
    using decode_raw_total [OF dw] decode_base_arm_total [OF dw base] decode_pointer_total [OF dw deeper]
      decode_struct_total [OF dw deeper] decode_array_total [OF dw deeper] aliased
    by (auto simp: decode_arms_def split: option.splits TypeDesc.splits)
  with kind show ?case by simp
qed

section \<open>More fuel changes nothing\<close>

definition le_fun :: "('a \<Rightarrow> 's \<Rightarrow> 'r option) \<Rightarrow> ('a \<Rightarrow> 's \<Rightarrow> 'r option) \<Rightarrow> bool" where
  "le_fun f g \<longleftrightarrow> (\<forall>x s r. f x s = Some r \<longrightarrow> g x s = Some r)"

lemma le_funD: "le_fun f g \<Longrightarrow> f x s = Some r \<Longrightarrow> g x s = Some r"
  by (simp add: le_fun_def)

lemma map_st_le: "le_fun f g \<Longrightarrow> map_st f xs st = Some r \<Longrightarrow> map_st g xs st = Some r"
proof (induction xs arbitrary: st r)
  case (Cons x xs)
  from Cons.prems(2) obtain y st1 ys st2 where "f x st = Some (y, st1)" "map_st f xs st1 = Some (ys, st2)"
    "r = (y # ys, st2)" by (auto simp: bind_eq_Some_conv)
  with Cons show ?case by (simp add: le_funD)
qed simp

lemma dwarf_type_le: "le_fun (dwarf_type W T n t) (dwarf_type W T (n + k) t)"
proof (induction n arbitrary: t)
  case (Suc n)
  have "le_fun (dwarf_field W T (dwarf_type W T n)) (dwarf_field W T (dwarf_type W T (n + k)))"
    unfolding le_fun_def dwarf_field_def
    by (auto simp: bind_eq_Some_conv split: option.splits dest!: le_funD [OF Suc])
  note fields = map_st_le [OF this]
  have "register_dwarf W T (dwarf_type W T (n + k)) t kd name st = Some r"
    if "register_dwarf W T (dwarf_type W T n) t kd name st = Some r" for kd name st r
    using that fields
    by (fastforce simp: register_dwarf_def bind_eq_Some_conv split: option.splits TypeDesc.splits)
  then show ?case by (auto simp: le_fun_def bind_eq_Some_conv split: option.splits)
qed (simp add: le_fun_def)

lemma bind_le:
  "Option.bind x f = Some r \<Longrightarrow> (\<And>y. x = Some y \<Longrightarrow> x' = Some y) \<Longrightarrow> (\<And>y. x = Some y \<Longrightarrow> f y = Some r \<Longrightarrow> g y = Some r) \<Longrightarrow>
   Option.bind x' g = Some r"
  by (cases x) auto

lemma decode_arms_le:
  assumes dw: "\<And>t. le_fun (dw t) (dw' t)" and dec: "\<And>t bs. le_fun (dec t bs) (dec' t bs)"
    and r: "decode_arms T m dw dec kind ty bs depth st = Some r"
  shows "decode_arms T m dw' dec' kind ty bs depth st = Some r"
proof -
  note D = le_funD [OF dw] and E = le_funD [OF dec]
  have members: "le_fun (decode_member T dec bs depth) (decode_member T dec' bs depth)"
    "le_fun (decode_element T dec element bs depth) (decode_element T dec' element bs depth)" for element
    by (auto simp: le_fun_def decode_member_def decode_element_def split: option.splits dest: E)
  have raw: "decode_raw dw' ty bs st = Some r" if "decode_raw dw ty bs st = Some r"
    using that by (auto simp: decode_raw_def bind_eq_Some_conv dest!: D)
  have base: "decode_base_arm dw' enc sz ty kind bs st = Some r"
    if "decode_base_arm dw enc sz ty kind bs st = Some r" for enc sz
    using that by (auto simp: decode_base_arm_def bind_eq_Some_conv split: if_splits dest!: D)
  have pointer: "decode_pointer T m dw' dec' target ty kind bs depth st = Some r"
    if "decode_pointer T m dw dec target ty kind bs depth st = Some r" for target
    using that unfolding decode_pointer_def
    by (rule bind_le) (auto intro: D simp: bind_eq_Some_conv split: option.splits dest!: E)
  have struct: "decode_struct T dw' dec' ms ty kind bs depth st = Some r"
    if "decode_struct T dw dec ms ty kind bs depth st = Some r" for ms
    using that unfolding decode_struct_def
    by (rule bind_le) (auto intro: D simp: bind_eq_Some_conv dest!: map_st_le [OF members(1)])
  have array: "decode_array T dw' dec' element count ty kind bs depth st = Some r"
    if "decode_array T dw dec element count ty kind bs depth st = Some r" for element count
    using that unfolding decode_array_def
    by (rule bind_le) (auto intro: D simp: bind_eq_Some_conv dest!: map_st_le [OF members(2)])
  show ?thesis
    using r raw base pointer struct array
    by (auto simp: decode_arms_def split: option.splits TypeDesc.splits if_splits dest: E)
qed

lemma decode_value_le: "le_fun (decode_value W T m n ty bs) (decode_value W T m (n + k) ty bs)"
proof (induction n arbitrary: ty bs)
  case (Suc n)
  show ?case
    using decode_arms_le [where dw = "dwarf_type W T n" and dw' = "dwarf_type W T (n + k)"
        and dec = "decode_value W T m n" and dec' = "decode_value W T m (n + k)", OF dwarf_type_le Suc]
    by (auto simp: le_fun_def bind_eq_Some_conv)
qed (simp add: le_fun_def)

text \<open>
  C39: decoding returns. For types whose values do not contain themselves, in chains of fewer
  than 33 aliases and members, decoding a value of a type from as many bytes as the type has
  always returns, whatever the memory, the pointers in it and the caches hold: the depth
  limit bounds pointers and arrays, the type graph the rest. It adds nothing to the trace
  but type declarations, and the value does not depend on the fuel.
\<close>

theorem decode_value_returns:
  assumes "ranked T R N" "N \<le> 33" "type_size T ty = Some s" "length bs = unat s"
  shows "\<exists>v st'. quiet st st' \<and> (\<forall>n \<ge> fuel_needed N 0 (R ty). decode_value W T m n ty bs 0 st = Some (v, st'))"
proof -
  let ?n = "fuel_needed N 0 (R ty)"
  have "sized T ty bs" using sized_of_type_size [OF assms(1,2), of ty bs] assms(3,4) by simp
  then obtain v st' where v: "decode_value W T m ?n ty bs 0 st = Some (v, st')"
    using decode_total [OF assms(1,2) _ order.refl] by fastforce
  then have "decode_value W T m n ty bs 0 st = Some (v, st')" if "?n \<le> n" for n
    using le_funD [OF decode_value_le v, of "n - ?n"] that by simp
  with quiet_funD [OF decode_value_quiet v] show ?thesis by blast
qed

text \<open>A list node: a struct with a pointer to its own type.\<close>

definition list_types :: "TypeDesc list" where
  "list_types = [StructT ''Node'' 16 [(''value'', 0, Some 2), (''next'', 8, Some 1)],
                 PointerT ''*Node'' (Some 0), BaseT ''u64'' ATE_unsigned 8]"

theorem decode_value_returns_witness:
  "\<forall>W m st. \<exists>v st'. quiet st st' \<and> (\<forall>n \<ge> 21. decode_value W list_types m n 0 (replicate 16 0) 0 st = Some (v, st'))"
proof (intro allI)
  fix W m st
  have "ranked list_types (\<lambda>t. if t = 0 then 1 else 0) 2"
    by (auto simp: ranked_def list_types_def nth_opt_def value_refs_def nth_Cons' split: if_splits)
  moreover have "type_size list_types 0 = Some 16"
    by (simp add: type_size_def type_size_depth.simps list_types_def nth_opt_def)
  ultimately show "\<exists>v st'. quiet st st' \<and> (\<forall>n \<ge> 21. decode_value W list_types m n 0 (replicate 16 0) 0 st = Some (v, st'))"
    using decode_value_returns [of list_types "\<lambda>t. if t = 0 then 1 else 0" 2 0 16 "replicate 16 0" st W m]
    by (simp add: fuel_needed_def MAX_VALUE_DEPTH_def)
qed

section \<open>Integers of base types\<close>

text \<open>The integer a value shows, and the bytes of an integer in two's complement.\<close>

fun value_int :: "value_record \<Rightarrow> int option" where
  "value_int (IntV i t) = Some i"
| "value_int (BigIntV b neg t) = Some ((if neg then - 1 else 1) * int (le_nat (rev b)))"
| "value_int v = None"

definition twos_complement :: "nat \<Rightarrow> int \<Rightarrow> bytes" where
  "twos_complement n i = nat_le n (nat (i mod 256 ^ n))"

lemma int_or_big_value: "\<bar>v\<bar> < 256 ^ n \<Longrightarrow> value_int (int_or_big n v tid) = Some v"
  by (auto simp: int_or_big_def le_simps nat_less_iff)

lemma shift_back:
  "s \<le> 63 \<Longrightarrow> drop_bit s (signed_take_bit 63 (push_bit s (take_bit (64 - s) i))) = signed_take_bit (63 - s) i" for i :: int
  by (rule bit_eqI) (auto simp: bit_simps min_def not_le)

lemma sint_push: "sint (push_bit s (word_of_int i :: u64)) = signed_take_bit 63 (push_bit s i)"
  by transfer simp

lemma power_256: "(256 :: int) ^ n = 2 ^ (8 * n)" "(256 :: nat) ^ n = 2 ^ (8 * n)"
  by (simp_all add: power_mult)

lemma le_u64_twos: "n \<le> 8 \<Longrightarrow> le_u64 (twos_complement n i) = word_of_int (take_bit (8 * n) i)"
  by (simp add: le_u64_def twos_complement_def from_le_def le_simps take_bit_eq_mod power_256)

lemma signed_small:
  assumes "0 < n" "n \<le> 8" "- (256 ^ n) \<le> 2 * i" "2 * i < 256 ^ n"
  shows "drop_bit (64 - 8 * n) (sint (push_bit (64 - 8 * n) (le_u64 (twos_complement n i)))) = i"
proof -
  let ?s = "64 - 8 * n"
  have s: "64 - ?s = 8 * n" "63 - ?s = 8 * n - 1" "?s \<le> 63" using assms by auto
  have "drop_bit ?s (sint (push_bit ?s (le_u64 (twos_complement n i)))) = signed_take_bit (8 * n - 1) i"
    using shift_back [OF s(3), of i] s by (simp add: le_u64_twos assms(2) sint_push)
  also have "\<dots> = i"
  proof (rule signed_take_bit_int_eq_self)
    have p: "256 ^ n = 2 * (2 ^ (8 * n - 1) :: int)"
      using assms(1) by (simp add: power_256 flip: power_Suc)
    show "- (2 ^ (8 * n - 1)) \<le> i" "i < 2 ^ (8 * n - 1)" using assms(3,4) unfolding p by linarith+
  qed
  finally show ?thesis .
qed

lemma le_u64_unsigned:
  "n \<le> 8 \<Longrightarrow> 0 \<le> i \<Longrightarrow> i < 256 ^ n \<Longrightarrow> uint (le_u64 (twos_complement n i)) = i"
proof -
  assume a: "n \<le> 8" "0 \<le> i" "i < 256 ^ n"
  have "take_bit (8 * n) i = i" using a(2,3) by (simp add: take_bit_int_eq_self power_256)
  moreover have "i < 2 ^ 64" using a(1,3) power_increasing [of "8 * n" 64 "2 :: int"] by (simp add: power_256)
  ultimately show ?thesis using a(1,2) by (simp add: le_u64_twos uint_word_of_int)
qed

lemma pad16_full: "length bs = 16 \<Longrightarrow> pad16 bs = bs"
  by (simp add: pad16_def)

lemma from_le_16: "from_le (twos_complement 16 i) = (word_of_int i :: u128)"
  by (rule word_uint_eqI)
     (simp add: from_le_def twos_complement_def le_simps uint_word_of_int)

text \<open>
  C40: integers are shown as what they are. A base type of one to eight bytes, or of sixteen,
  whose encoding is signed shows every integer of its range from its two's complement
  bytes, sign included; one whose encoding is unsigned shows every non-negative integer of
  its range; a value beyond 64 bits is a big integer whose bytes, read most significant
  first, are its magnitude.
\<close>

theorem decode_base_integers:
  assumes "1 \<le> n \<and> n \<le> 8 \<or> n = 16"
  shows "(- (256 ^ n) \<le> 2 * i \<and> 2 * i < 256 ^ n \<longrightarrow>
           Option.bind (decode_base ATE_signed (of_nat n) (twos_complement n i) tid) value_int = Some i)
       \<and> (0 \<le> i \<and> i < 256 ^ n \<longrightarrow>
           Option.bind (decode_base ATE_unsigned (of_nat n) (twos_complement n i) tid) value_int = Some i)"
  using assms
proof (elim disjE conjE)
  assume n: "1 \<le> n" "n \<le> 8"
  have sz: "(of_nat n :: u64) \<le> 8" "unat (max (of_nat n :: u64) 1) = n"
    using n by (auto simp: word_le_nat_alt max_def unat_of_nat)
  have "\<bar>i\<bar> < 256 ^ 8" if "0 \<le> i" "i < 256 ^ n"
    using that power_increasing [OF n(2), of "256 :: int"] by simp
  then show ?thesis
    using n signed_small [of n i] le_u64_unsigned [of n i] int_or_big_value [of i 8 tid] sz
    by (simp add: decode_base_def Let_def)
next
  assume n: "n = 16"
  have p: "length (twos_complement 16 i) = 16" by (simp add: twos_complement_def)
  have big: "\<not> (of_nat 16 :: u64) \<le> 8" by simp
  have signed: "sint (word_of_int i :: u128) = i" if "- (256 ^ 16) \<le> 2 * i" "2 * i < 256 ^ 16"
  proof -
    have "sint (word_of_int i :: u128) = signed_take_bit 127 i" by transfer simp
    also have "\<dots> = i" by (rule signed_take_bit_int_eq_self) (use that in simp_all)
    finally show ?thesis .
  qed
  have unsigned: "uint (word_of_int i :: u128) = i" if "0 \<le> i" "i < 256 ^ 16"
    using that by (simp add: uint_word_of_int)
  show ?thesis
    using signed unsigned int_or_big_value [of i 16 tid] big
    by (auto simp: n decode_base_def Let_def pad16_full [OF p] from_le_16)
qed

theorem decode_base_integers_witness:
  "Option.bind (decode_base ATE_signed 4 (twos_complement 4 (- 7)) 0) value_int = Some (- 7)
   \<and> Option.bind (decode_base ATE_unsigned 16 (twos_complement 16 (2 ^ 100)) 0) value_int = Some (2 ^ 100)"
  using decode_base_integers [of 4 "- 7" 0] decode_base_integers [of 16 "2 ^ 100" 0] by simp

end
