(* ===== verification/Source_Recorder.thy ===== *)
theory Source_Recorder
  imports Source_Values Executor Tracer
begin

text \<open>
  \<open>src/source_recorder.rs\<close>: the source-level recording of an execution. The recorder walks
  the register snapshots once, keeping the call stack (with the inlined calls open in each
  frame), the shadow memory and the last position. Its writer is the trace of calls; \<open>None\<close>
  is a run that does not return (a panic, or a recursion that never ends).
\<close>

section \<open>State\<close>

text \<open>\<open>SourceRecorder\<close> with the execution it records: the identifiers the writer hands out,
  the instruction set, the evaluator, the model, the text, the line lengths per file, and
  the fuel for recursion over types.\<close>

record ('e, 'm) source_recorder =
  sr_ids :: ids
  sr_isa :: isa
  sr_eval :: "('e, 'm) evaluator"
  sr_debug :: "'e SourceDebugInfo"
  sr_text :: bytes
  sr_manual :: bool
  sr_line_lengths :: "u32 list list"
  sr_fuel :: nat

record ActiveFrame =
  af_function :: nat
  af_inlined :: "nat list list"

type_synonym position_key = "nat \<times> u32 \<times> u32 option"

text \<open>The stack has the innermost frame first.\<close>

record run_state =
  rs_rec :: recording
  rs_memory :: ShadowMemory
  rs_writes :: "journal list"
  rs_stack :: "ActiveFrame list"
  rs_last :: "position_key option"

section \<open>Calls and returns\<close>

definition function_id ::
  "('e, 'm) source_recorder \<Rightarrow> string \<Rightarrow> nat option \<Rightarrow> u32 \<Rightarrow> recording \<Rightarrow> (function_id \<times> recording) option" where
  "function_id S name file line st =
     (case rc_functions st (name, file, line) of
        Some i \<Rightarrow> Some (i, st)
      | None \<Rightarrow> do {
          path \<leftarrow> (case file of None \<Rightarrow> Some [] | Some f \<Rightarrow> nth_opt (files (sr_debug S)) f);
          let (i, t) = ensure_function_id (sr_ids S) name path (uint line) (rc_trace st) in
          Some (i, st\<lparr>rc_functions := (rc_functions st)((name, file, line) \<mapsto> i), rc_trace := t\<rparr>)
        })"

definition open_call ::
  "('e, 'm) source_recorder \<Rightarrow> string \<Rightarrow> nat option \<Rightarrow> u32 \<Rightarrow> recording \<Rightarrow> recording option" where
  "open_call S name file line st = do {
     (i, st) \<leftarrow> function_id S name file line st;
     Some (emit [Call i []] st)
   }"

definition call_function :: "('e, 'm) source_recorder \<Rightarrow> nat \<Rightarrow> recording \<Rightarrow> recording option" where
  "call_function S k st = do {
     f \<leftarrow> nth_opt (fns (sr_debug S)) k;
     open_call S (fn_name f) (fn_file f) (fn_line f) st
   }"

definition decode_typed ::
  "('e, 'm) source_recorder \<Rightarrow> ShadowMemory \<Rightarrow> TypeRef \<Rightarrow> bytes \<Rightarrow> recording \<Rightarrow> (value_record \<times> recording) option" where
  "decode_typed S m ty bs st = decode_value (sr_ids S) (type_descs (sr_debug S)) m (sr_fuel S) ty bs 0 st"

definition return_value ::
  "('e, 'm) source_recorder \<Rightarrow> TypeRef option \<Rightarrow> u64 \<Rightarrow> ShadowMemory \<Rightarrow> recording \<Rightarrow> (value_record \<times> recording) option" where
  "return_value S ty v m st =
     (case ty of
        None \<Rightarrow> Some (NoneValue, st)
      | Some t \<Rightarrow>
          (case type_size (type_descs (sr_debug S)) t of
             None \<Rightarrow> Some (NoneValue, st)
           | Some sz \<Rightarrow>
               if sz \<le> 8 then decode_typed S m t (take (unat sz) (to_le 8 v)) st
               else Some (NoneValue, st)))"

definition unwind_inlined :: "ActiveFrame \<Rightarrow> recording \<Rightarrow> recording" where
  "unwind_inlined frame st = emit (replicate (length (af_inlined frame)) (Return NoneValue)) st"

definition enter_function :: "('e, 'm) source_recorder \<Rightarrow> nat \<Rightarrow> run_state \<Rightarrow> run_state option" where
  "enter_function S k st = do {
     r \<leftarrow> call_function S k (rs_rec st);
     Some (st\<lparr>rs_rec := r, rs_stack := \<lparr>af_function = k, af_inlined = []\<rparr> # rs_stack st\<rparr>)
   }"

definition leave_function ::
  "('e, 'm) source_recorder \<Rightarrow> RegisterSnapshot \<Rightarrow> run_state \<Rightarrow> run_state option" where
  "leave_function S prev st =
     (case rs_stack st of
        [] \<Rightarrow> Some st
      | frame # rest \<Rightarrow> do {
          f \<leftarrow> nth_opt (fns (sr_debug S)) (af_function frame);
          (v, r) \<leftarrow> return_value S (return_type f) (r0 prev) (rs_memory st) (unwind_inlined frame (rs_rec st));
          Some (st\<lparr>rs_rec := emit [Return v] r, rs_stack := rest, rs_last := None\<rparr>)
        })"

text \<open>The frame transition the previous instruction caused; the first snapshot only enters
  its function.\<close>

definition transition ::
  "('e, 'm) source_recorder \<Rightarrow> RegisterSnapshot option \<Rightarrow> RegisterSnapshot \<Rightarrow> u64 \<Rightarrow> run_state \<Rightarrow> run_state option" where
  "transition S prev snap addr st =
     (case prev of
        None \<Rightarrow>
          (case function_at (sr_debug S) addr of Some k \<Rightarrow> enter_function S k st | None \<Rightarrow> Some st)
      | Some p \<Rightarrow>
          (case map_option opc (decode (sr_isa S) (sr_text S) (pc p)) of
             None \<Rightarrow> Some st
           | Some op' \<Rightarrow>
               if (op' = ebpf (sr_isa S) CALL_IMM \<or> op' = ebpf (sr_isa S) CALL_REG) \<and> pc snap \<noteq> pc p + 1 then
                 (case function_at (sr_debug S) addr of
                    None \<Rightarrow> Some st
                  | Some k \<Rightarrow> do { st \<leftarrow> enter_function S k st; Some (st\<lparr>rs_last := None\<rparr>) })
               else if op' = ebpf (sr_isa S) EXIT then leave_function S p st
               else Some st))"

section \<open>Inlined calls\<close>

fun fold_opt :: "('a \<Rightarrow> 's \<Rightarrow> 's option) \<Rightarrow> 'a list \<Rightarrow> 's \<Rightarrow> 's option" where
  "fold_opt f [] s = Some s"
| "fold_opt f (x # xs) s = do { s \<leftarrow> f x s; fold_opt f xs s }"

definition inlined_chain :: "'e Function \<Rightarrow> u64 \<Rightarrow> (nat list \<times> InlinedCall) list" where
  "inlined_chain f addr =
     List.map_filter (\<lambda>(p, s). map_option (Pair p) (inlined s)) (scope_chain f addr)"

definition common_prefix :: "nat list list \<Rightarrow> (nat list \<times> InlinedCall) list \<Rightarrow> nat" where
  "common_prefix open chain = length (takeWhile (\<lambda>(a, b, c). a = b) (zip open chain))"

definition open_inlined ::
  "('e, 'm) source_recorder \<Rightarrow> nat list \<times> InlinedCall \<Rightarrow> recording \<Rightarrow> recording option" where
  "open_inlined S = (\<lambda>(p, c). open_call S (call_name c) (call_file c) (call_line c))"

definition sync_inlined :: "('e, 'm) source_recorder \<Rightarrow> u64 \<Rightarrow> run_state \<Rightarrow> run_state option" where
  "sync_inlined S addr st =
     (case rs_stack st of
        [] \<Rightarrow> Some st
      | frame # rest \<Rightarrow> do {
          f \<leftarrow> nth_opt (fns (sr_debug S)) (af_function frame);
          let chain = inlined_chain f addr;
          let common = common_prefix (af_inlined frame) chain;
          if common < length (af_inlined frame) \<or> common < length chain then do {
            r \<leftarrow> fold_opt (open_inlined S) (drop common chain)
                   (emit (replicate (length (af_inlined frame) - common) (Return NoneValue)) (rs_rec st));
            Some (st\<lparr>rs_rec := r,
                     rs_stack := frame\<lparr>af_inlined := take common (af_inlined frame) @ map fst (drop common chain)\<rparr> # rest,
                     rs_last := None\<rparr>)
          }
          else Some st
        })"

section \<open>Steps and variables\<close>

definition rposition :: "('a \<Rightarrow> bool) \<Rightarrow> 'a list \<Rightarrow> nat option" where
  "rposition P xs = map_option (\<lambda>i. length xs - 1 - i) (position P (rev xs))"

text \<open>The scopes of the innermost frame: from the innermost inlined call, or from the body.\<close>

definition local_scopes :: "'e Function \<Rightarrow> u64 \<Rightarrow> 'e Scope list" where
  "local_scopes f addr =
     (let chain = map snd (scope_chain f addr) in
      case rposition (\<lambda>s. inlined s \<noteq> None) chain of
        Some p \<Rightarrow> drop p chain
      | None \<Rightarrow> body f # chain)"

definition record_variable ::
  "('e, 'm) source_recorder \<Rightarrow> 'e Function \<Rightarrow> u64 \<Rightarrow> MachineState \<Rightarrow> ShadowMemory \<Rightarrow> 'e Variable \<Rightarrow> recording
   \<Rightarrow> recording option" where
  "record_variable S f addr state m v st =
     (case var_type v of
        None \<Rightarrow> Some st
      | Some ty \<Rightarrow> do {
          bytes \<leftarrow> read_variable (sr_eval S) (sr_debug S) f v addr state;
          (case bytes of
             None \<Rightarrow> Some st
           | Some bs \<Rightarrow> do {
               (val, st) \<leftarrow> decode_typed S m ty bs st;
               Some (emit [event.Variable (var_name v) val] st)
             })
        })"

definition record_locals ::
  "('e, 'm) source_recorder \<Rightarrow> 'e Function \<Rightarrow> u64 \<Rightarrow> u64 list \<Rightarrow> ShadowMemory \<Rightarrow> recording \<Rightarrow> recording option" where
  "record_locals S f addr rg m st =
     (let state = \<lparr>ms_registers = rg, read_memory = read_mem m, ms_manual = sr_manual S\<rparr> in
      fold_opt (record_variable S f addr state m) (concat (map variables (local_scopes f addr))) st)"

text \<open>A column is kept only inside the text of its line.\<close>

definition step_column :: "('e, 'm) source_recorder \<Rightarrow> SourcePosition \<Rightarrow> u32 option option" where
  "step_column S p =
     (case pos_column p of
        None \<Rightarrow> Some None
      | Some c \<Rightarrow> do {
          lengths \<leftarrow> nth_opt (sr_line_lengths S) (pos_file p);
          (case (if pos_line p = 0 then None else nth_opt lengths (unat (pos_line p) - 1)) of
             None \<Rightarrow> Some None
           | Some len \<Rightarrow> Some (if 1 \<le> c \<and> c \<le> len then Some c else None))
        })"

definition record_frame_locals ::
  "('e, 'm) source_recorder \<Rightarrow> u64 \<Rightarrow> u64 list \<Rightarrow> run_state \<Rightarrow> recording \<Rightarrow> recording option" where
  "record_frame_locals S addr rg st r =
     (case rs_stack st of
        [] \<Rightarrow> Some r
      | frame # _ \<Rightarrow> do {
          f \<leftarrow> nth_opt (fns (sr_debug S)) (af_function frame);
          record_locals S f addr rg (rs_memory st) r
        })"

definition record_step ::
  "('e, 'm) source_recorder \<Rightarrow> u64 \<Rightarrow> u64 list \<Rightarrow> run_state \<Rightarrow> run_state option" where
  "record_step S addr rg st =
     (case source_position (sr_debug S) addr of
        None \<Rightarrow> Some st
      | Some p \<Rightarrow>
          (let key = (pos_file p, pos_line p, pos_column p) in
           if rs_last st = Some key then Some st
           else do {
             path \<leftarrow> nth_opt (files (sr_debug S)) (pos_file p);
             column \<leftarrow> step_column S p;
             r \<leftarrow> record_frame_locals S addr rg st
                    (emit [Step path (uint (pos_line p)) (map_option uint column)] (rs_rec st));
             Some (st\<lparr>rs_rec := r, rs_last := Some key\<rparr>)
           }))"

section \<open>Memory\<close>

definition apply_effect ::
  "('e, 'm) source_recorder \<Rightarrow> RegisterSnapshot \<Rightarrow> RegisterSnapshot option \<Rightarrow> run_state \<Rightarrow> run_state option" where
  "apply_effect S snap next st = do {
     (effect, m) \<leftarrow> apply_instruction (sr_isa S) (rs_memory st) (sr_text S) (pc snap) (registers snap);
     if effect = MaybeSyscall \<and> (case next of None \<Rightarrow> True | Some n \<Rightarrow> pc n = pc snap + 1) then
       (case rs_writes st of
          [] \<Rightarrow> Some (st\<lparr>rs_memory := m\<rparr>)
        | ws # rest \<Rightarrow> Some (st\<lparr>rs_memory := replay_journal ws m, rs_writes := rest\<rparr>))
     else Some (st\<lparr>rs_memory := m\<rparr>)
   }"

section \<open>The run\<close>

definition run_step ::
  "('e, 'm) source_recorder \<Rightarrow> RegisterSnapshot option \<Rightarrow> RegisterSnapshot \<Rightarrow> RegisterSnapshot option
   \<Rightarrow> run_state \<Rightarrow> run_state option" where
  "run_step S prev snap next st =
     (let addr = address_of (sr_isa S) (sr_debug S) (pc snap) in do {
        st \<leftarrow> transition S prev snap addr st;
        st \<leftarrow> sync_inlined S addr st;
        st \<leftarrow> record_step S addr (registers snap) st;
        apply_effect S snap next st
      })"

definition head_opt :: "'a list \<Rightarrow> 'a option" where
  "head_opt xs = (case xs of [] \<Rightarrow> None | x # _ \<Rightarrow> Some x)"

fun run_loop ::
  "('e, 'm) source_recorder \<Rightarrow> RegisterSnapshot option \<Rightarrow> RegisterSnapshot list \<Rightarrow> run_state \<Rightarrow> run_state option" where
  "run_loop S prev [] st = Some st"
| "run_loop S prev (snap # rest) st = do {
     st \<leftarrow> run_step S prev snap (head_opt rest) st;
     run_loop S (Some snap) rest st
   }"

text \<open>Frames still open at the end: the outermost has the result of the program when it
  ended with an exit.\<close>

definition frame_value ::
  "('e, 'm) source_recorder \<Rightarrow> u64 option \<Rightarrow> ShadowMemory \<Rightarrow> ActiveFrame \<Rightarrow> recording
   \<Rightarrow> (value_record \<times> recording) option" where
  "frame_value S result m frame r =
     (case result of
        None \<Rightarrow> Some (NoneValue, unwind_inlined frame r)
      | Some v0 \<Rightarrow> do {
          f \<leftarrow> nth_opt (fns (sr_debug S)) (af_function frame);
          return_value S (return_type f) v0 m (unwind_inlined frame r)
        })"

fun close_frames ::
  "('e, 'm) source_recorder \<Rightarrow> u64 option \<Rightarrow> ShadowMemory \<Rightarrow> ActiveFrame list \<Rightarrow> recording \<Rightarrow> recording option" where
  "close_frames S result m [] r = Some r"
| "close_frames S result m (frame # rest) r = do {
     (v, r) \<leftarrow> frame_value S (if rest = [] then result else None) m frame r;
     close_frames S result m rest (emit [Return v] r)
   }"

definition exit_result :: "('e, 'm) source_recorder \<Rightarrow> RegisterSnapshot list \<Rightarrow> u64 option" where
  "exit_result S snaps =
     (case head_opt (rev snaps) of
        None \<Rightarrow> None
      | Some s \<Rightarrow>
          if map_option opc (decode (sr_isa S) (sr_text S) (pc s)) = Some (ebpf (sr_isa S) EXIT)
          then Some (r0 s) else None)"

definition start_state :: "ExecutionTrace \<Rightarrow> recording \<Rightarrow> run_state" where
  "start_state exec r =
     \<lparr>rs_rec = r, rs_memory = new_shadow (initial_memory exec) (trace_moved exec),
      rs_writes = syscall_writes exec, rs_stack = [], rs_last = None\<rparr>"

definition run ::
  "('e, 'm) source_recorder \<Rightarrow> ExecutionTrace \<Rightarrow> RegisterSnapshot list \<Rightarrow> recording \<Rightarrow> recording option" where
  "run S exec snaps r = do {
     st \<leftarrow> run_loop S None snaps (start_state exec r);
     close_frames S (exit_result S snaps) (rs_memory st) (rs_stack st) (rs_rec st)
   }"

definition describes_execution :: "isa \<Rightarrow> 'e SourceDebugInfo \<Rightarrow> ExecutionTrace \<Rightarrow> bool" where
  "describes_execution I D exec =
     (case parse_regs_file (regs exec) of
        Ok (s # _) \<Rightarrow> function_at D (address_of I D (pc s)) \<noteq> None
      | _ \<Rightarrow> False)"

definition new_recorder ::
  "ids \<Rightarrow> isa \<Rightarrow> ('e, 'm) evaluator \<Rightarrow> tracer_io \<Rightarrow> 'e SourceDebugInfo \<Rightarrow> ExecutionTrace \<Rightarrow> nat
   \<Rightarrow> ('e, 'm) source_recorder" where
  "new_recorder W I G io D exec fuel =
     \<lparr>sr_ids = W, sr_isa = I, sr_eval = G, sr_debug = D, sr_text = trace_text exec,
      sr_manual = manual_stack_frames exec,
      sr_line_lengths = map (read_line_lengths_for_path (io_read io)) (files D), sr_fuel = fuel\<rparr>"

text \<open>The path the trace starts with: the file of the first position, or the ELF.\<close>

definition first_path :: "isa \<Rightarrow> 'e SourceDebugInfo \<Rightarrow> RegisterSnapshot list \<Rightarrow> string \<Rightarrow> string option" where
  "first_path I D snaps elf_path =
     (case find_map (\<lambda>s. source_position D (address_of I D (pc s))) snaps of
        None \<Rightarrow> Some elf_path
      | Some p \<Rightarrow> nth_opt (files D) (pos_file p))"

definition trace_opening :: "tracer_io \<Rightarrow> 'e SourceDebugInfo \<Rightarrow> string \<Rightarrow> string \<Rightarrow> trace" where
  "trace_opening io D out_dir first =
     [BeginEvents (path_join out_dir ''trace.bin''), EnableColumnAwareSteps, EnableColumnBreakpoints,
      EnableColumnMotions]
     @ map (\<lambda>f. RegisterPath f (map unat (read_line_lengths_for_path (io_read io) f))) (files D)
     @ [Start first 1]"

definition finish_trace :: "tracer_io \<Rightarrow> trace \<Rightarrow> (string, trace) outcome" where
  "finish_trace io t =
     bind_outcome (check_io (io_finish io t) ()) (\<lambda>_.
     bind_outcome (check_io (io_write_meta io (t @ [FinishEvents])) ()) (\<lambda>_.
     bind_outcome (check_io (io_close io (t @ [FinishEvents, WriteMeta ''codetracer-solana-recorder''])) ()) (\<lambda>_.
     Ok (t @ [FinishEvents, WriteMeta ''codetracer-solana-recorder'', Close]))))"

definition parse_snapshots :: "bytes \<Rightarrow> (string, RegisterSnapshot list) outcome" where
  "parse_snapshots bs =
     (case parse_regs_file bs of
        Ok snaps \<Rightarrow> Ok snaps
      | Err (LengthNotMultiple n) \<Rightarrow> Err (''regs data length '' @ dec_nat n @ '' is not a multiple of '' @ dec_nat ROW_SIZE)
      | Panic \<Rightarrow> Panic)"

definition record_execution ::
  "ids \<Rightarrow> isa \<Rightarrow> ('e, 'm) evaluator \<Rightarrow> tracer_io \<Rightarrow> nat \<Rightarrow> ExecutionTrace \<Rightarrow> 'e SourceDebugInfo
   \<Rightarrow> string \<Rightarrow> string \<Rightarrow> (string, trace) outcome" where
  "record_execution W I G io fuel exec D elf_path out_dir =
     bind_outcome (parse_snapshots (regs exec)) (\<lambda>snaps.
     bind_outcome (check_io (io_create_dir io out_dir) ()) (\<lambda>_.
     bind_outcome (of_option (first_path I D snaps elf_path)) (\<lambda>first.
     bind_outcome (check_io (io_begin io (path_join out_dir ''trace.bin'')) ()) (\<lambda>_.
     bind_outcome
       (of_option (run (new_recorder W I G io D exec fuel) exec snaps
          \<lparr>rc_types = Map.empty, rc_functions = Map.empty, rc_trace = trace_opening io D out_dir first\<rparr>))
       (\<lambda>r. finish_trace io (rc_trace r))))))"

end
