(* ===== verification/Source_Recording.thy ===== *)
theory Source_Recording
  imports Source_Recorder
begin

text \<open>
  What a source-level recording contains: the writer's call stack is at every moment the
  call stack of the program with its inlined calls, every call is closed in the end, every
  step names a file of the program and a column inside its line, and for a loaded model the
  recorder always returns.
\<close>

section \<open>The call stack of a trace\<close>

text \<open>The calls a trace leaves open, innermost first; nothing when a return has no call.\<close>

fun call_stack :: "function_id list \<Rightarrow> trace \<Rightarrow> function_id list option" where
  "call_stack s [] = Some s"
| "call_stack s (Call f a # t) = call_stack (f # s) t"
| "call_stack s (Return v # t) = (case s of [] \<Rightarrow> None | _ # s' \<Rightarrow> call_stack s' t)"
| "call_stack s (_ # t) = call_stack s t"

lemma call_stack_append: "call_stack s (t @ u) = Option.bind (call_stack s t) (\<lambda>s. call_stack s u)"
  by (induction s t rule: call_stack.induct) (auto split: list.splits)

lemma call_stack_plain: "list_all plain t \<Longrightarrow> call_stack s t = Some s"
proof (induction t)
  case (Cons e t)
  then show ?case by (cases e) auto
qed simp

lemma call_stack_returns: "call_stack (a @ s) (replicate (length a) (Return v)) = Some s"
  by (induction a) auto

lemma call_stack_nest: "map_option length (call_stack s t) = nest (length s) t"
  by (induction s t rule: call_stack.induct) (auto split: list.splits)

text \<open>From one recording to a later one, the calls \<open>a\<close> on top of the stack are replaced by
  \<open>b\<close>, and no function identifier is forgotten.\<close>

definition moves :: "function_id list \<Rightarrow> function_id list \<Rightarrow> recording \<Rightarrow> recording \<Rightarrow> bool" where
  "moves a b r r' \<longleftrightarrow>
     rc_functions r \<subseteq>\<^sub>m rc_functions r'
   \<and> (\<exists>es. rc_trace r' = rc_trace r @ es \<and> (\<forall>s. call_stack (a @ s) es = Some (b @ s)))"

lemma moves_trans: "moves a b r r' \<Longrightarrow> moves b c r' r'' \<Longrightarrow> moves a c r r''"
  by (auto simp: moves_def call_stack_append intro: map_le_trans)

lemma moves_frame: "moves a b r r' \<Longrightarrow> moves (a @ c) (b @ c) r r'"
  by (auto simp: moves_def)

lemma moves_refl [simp, intro]: "moves a a r r"
  by (simp add: moves_def)

lemma moves_quiet: "quiet r r' \<Longrightarrow> moves a a r r'"
  using call_stack_plain declares_plain by (fastforce simp: quiet_def moves_def list_all_iff)

lemma moves_plain: "list_all plain es \<Longrightarrow> moves a a r (emit es r)"
  by (auto simp: moves_def emit_def call_stack_plain)

lemma moves_returns: "n = length a \<Longrightarrow> moves a [] r (emit (replicate n (Return v)) r)"
  by (auto simp: moves_def emit_def call_stack_returns)

lemma moves_return: "moves [i] [] r (emit [Return v] r)"
  using moves_returns [of 1 "[i]"] by simp

lemma open_call_moves:
  assumes "open_call S name f line r = Some r'"
  shows "\<exists>i. rc_functions r' (name, f, line) = Some i \<and> moves [] [i] r r'"
proof (cases "rc_functions r (name, f, line)")
  case (Some i)
  with assms show ?thesis
    by (auto simp: open_call_def function_id_def moves_def emit_def)
next
  case None
  with assms show ?thesis
    by (auto simp: open_call_def function_id_def moves_def emit_def ensure_function_id_def bind_eq_Some_conv
        map_le_def split: if_splits)
qed

lemma decode_typed_quiet: "decode_typed S m t bs r = Some (v, r') \<Longrightarrow> quiet r r'"
  unfolding decode_typed_def by (rule quiet_funD [OF decode_value_quiet])

lemma return_value_quiet: "return_value S ty w m r = Some (v, r') \<Longrightarrow> quiet r r'"
  by (auto simp: return_value_def split: option.splits if_splits dest: decode_typed_quiet)

lemma fold_opt_moves:
  assumes "\<And>x r r'. x \<in> set xs \<Longrightarrow> f x r = Some r' \<Longrightarrow> moves a a r r'" "fold_opt f xs r = Some r'"
  shows "moves a a r r'"
  using assms
proof (induction xs arbitrary: r)
  case (Cons x xs)
  from Cons.prems(2) obtain r1 where r1: "f x r = Some r1" "fold_opt f xs r1 = Some r'"
    by (auto simp: bind_eq_Some_conv)
  have "moves a a r r1" by (rule Cons.prems(1) [of x]) (use r1(1) in simp_all)
  moreover have "moves a a r1 r'" by (rule Cons.IH) (use Cons.prems(1) r1(2) in auto)
  ultimately show ?case by (rule moves_trans)
qed simp

lemma record_variable_moves: "record_variable S f addr state m v r = Some r' \<Longrightarrow> moves a a r r'"
  by (auto simp: record_variable_def bind_eq_Some_conv split: option.splits
      intro!: moves_trans [OF moves_quiet moves_plain] dest: decode_typed_quiet)

lemma record_locals_moves: "record_locals S f addr rg m r = Some r' \<Longrightarrow> moves a a r r'"
  unfolding record_locals_def Let_def by (rule fold_opt_moves) (rule record_variable_moves)

section \<open>The call stack of the program\<close>

type_synonym function_key = "string \<times> nat option \<times> u32"

definition function_key :: "'e Function \<Rightarrow> function_key" where
  "function_key f = (fn_name f, fn_file f, fn_line f)"

definition inlined_key :: "InlinedCall \<Rightarrow> function_key" where
  "inlined_key c = (call_name c, call_file c, call_line c)"

text \<open>The inlined call at a place in the body of a function.\<close>

definition call_at :: "'e Function \<Rightarrow> nat list \<Rightarrow> function_key option" where
  "call_at f p = map_option inlined_key (Option.bind (scope_at (body f) p) inlined)"

definition frame_keys :: "'e SourceDebugInfo \<Rightarrow> ActiveFrame \<Rightarrow> function_key option list" where
  "frame_keys D frame =
     (let f = fns D ! af_function frame in
      rev (map (call_at f) (af_inlined frame)) @ [Some (function_key f)])"

definition stack_keys :: "'e SourceDebugInfo \<Rightarrow> ActiveFrame list \<Rightarrow> function_key option list" where
  "stack_keys D frames = concat (map (frame_keys D) frames)"

definition frames_ok :: "'e SourceDebugInfo \<Rightarrow> ActiveFrame list \<Rightarrow> bool" where
  "frames_ok D frames \<longleftrightarrow> list_all (\<lambda>fr. af_function fr < length (fns D)) frames"

text \<open>The identifiers under which keys are known to the writer.\<close>

definition names :: "recording \<Rightarrow> function_key option list \<Rightarrow> function_id list \<Rightarrow> bool" where
  "names r ks ids \<longleftrightarrow> map (\<lambda>k. Option.bind k (rc_functions r)) ks = map Some ids"

lemma names_mono: "names r ks ids \<Longrightarrow> rc_functions r \<subseteq>\<^sub>m rc_functions r' \<Longrightarrow> names r' ks ids"
proof (induction ks arbitrary: ids)
  case (Cons k ks)
  then obtain i js where "ids = i # js" by (cases ids) (auto simp: names_def)
  with Cons show ?case by (auto simp: names_def map_le_def dom_def bind_eq_Some_conv)
qed (simp add: names_def)

lemma names_append: "names r ks i \<Longrightarrow> names r ls j \<Longrightarrow> names r (ks @ ls) (i @ j)"
  by (simp add: names_def)

lemma names_split:
  assumes "names r (ks @ ls) ids"
  obtains i j where "ids = i @ j" "names r ks i" "names r ls j"
proof
  show "ids = take (length ks) ids @ drop (length ks) ids" by simp
  have l: "map Some ids = map (\<lambda>k. Option.bind k (rc_functions r)) ks @ map (\<lambda>k. Option.bind k (rc_functions r)) ls"
    using assms by (simp add: names_def)
  show "names r ks (take (length ks) ids)" "names r ls (drop (length ks) ids)"
    unfolding names_def take_map [symmetric] drop_map [symmetric] l by simp_all
qed

lemma names_length: "names r ks i \<Longrightarrow> length i = length ks"
  unfolding names_def by (metis length_map)

lemma moves_mono: "moves a b r r' \<Longrightarrow> rc_functions r \<subseteq>\<^sub>m rc_functions r'"
  by (simp add: moves_def)

text \<open>The invariant of the run: the trace since the start leaves open exactly the calls of
  the stack, under the identifiers of their functions.\<close>

definition tracked :: "recording \<Rightarrow> 'e SourceDebugInfo \<Rightarrow> ActiveFrame list \<Rightarrow> recording \<Rightarrow> bool" where
  "tracked rb D frames r \<longleftrightarrow> (\<exists>ids. names r (stack_keys D frames) ids \<and> moves [] ids rb r)"

lemma stack_keys_Cons [simp]: "stack_keys D (fr # frames) = frame_keys D fr @ stack_keys D frames"
  by (simp add: stack_keys_def)

lemma tracked_same:
  assumes "tracked rb D frames r" "\<And>a. moves a a r r'"
  shows "tracked rb D frames r'"
proof -
  obtain ids where ids: "names r (stack_keys D frames) ids" "moves [] ids rb r"
    using assms(1) by (auto simp: tracked_def)
  have "moves ids ids r r'" by (rule assms(2))
  with ids names_mono [OF ids(1) moves_mono] moves_trans show ?thesis unfolding tracked_def by blast
qed

lemma tracked_push:
  assumes "tracked rb D frames r" "moves [] new r r'" "names r' ks new" "stack_keys D frames' = ks @ stack_keys D frames"
  shows "tracked rb D frames' r'"
proof -
  obtain ids where ids: "names r (stack_keys D frames) ids" "moves [] ids rb r"
    using assms(1) by (auto simp: tracked_def)
  have "moves ids (new @ ids) r r'" using moves_frame [OF assms(2), of ids] by simp
  then have "moves [] (new @ ids) rb r'" using ids(2) moves_trans by blast
  moreover have "names r' (ks @ stack_keys D frames) (new @ ids)"
    using names_append [OF assms(3) names_mono [OF ids(1) moves_mono [OF assms(2)]]] .
  ultimately show ?thesis using assms(4) by (auto simp: tracked_def)
qed

lemma tracked_pop:
  assumes "tracked rb D frames r" "\<And>a. length a = length ks \<Longrightarrow> moves a [] r r'"
    "stack_keys D frames = ks @ stack_keys D frames'"
  shows "tracked rb D frames' r'"
proof -
  obtain ids where ids: "names r (ks @ stack_keys D frames') ids" "moves [] ids rb r"
    using assms(1,3) by (auto simp: tracked_def)
  from ids(1) obtain i j where ij: "ids = i @ j" "names r ks i" "names r (stack_keys D frames') j"
    by (rule names_split)
  have m: "moves i [] r r'" using assms(2) names_length [OF ij(2)] by simp
  then have "moves (i @ j) j r r'" using moves_frame [of i "[]" r r' j] by simp
  then have "moves [] j rb r'" using ids(2) ij(1) moves_trans by blast
  moreover have "names r' (stack_keys D frames') j" using names_mono [OF ij(3) moves_mono [OF m]] .
  ultimately show ?thesis by (auto simp: tracked_def)
qed

lemma call_function_tracked:
  assumes "tracked rb (sr_debug S) frames r" "call_function S k r = Some r'"
  shows "tracked rb (sr_debug S) (\<lparr>af_function = k, af_inlined = []\<rparr> # frames) r' \<and> k < length (fns (sr_debug S))"
proof -
  let ?f = "fns (sr_debug S) ! k"
  from assms(2) have k: "k < length (fns (sr_debug S))"
    and o': "open_call S (fn_name ?f) (fn_file ?f) (fn_line ?f) r = Some r'"
    by (auto simp: call_function_def bind_eq_Some_conv slice_simps)
  obtain i where i: "rc_functions r' (function_key ?f) = Some i" "moves [] [i] r r'"
    using open_call_moves [OF o'] by (auto simp: function_key_def)
  then have "names r' (frame_keys (sr_debug S) \<lparr>af_function = k, af_inlined = []\<rparr>) [i]"
    by (simp add: names_def frame_keys_def)
  from tracked_push [OF assms(1) i(2) this] k show ?thesis by simp
qed

lemma frame_keys_length: "length (frame_keys D fr) = length (af_inlined fr) + 1"
  by (simp add: frame_keys_def Let_def)

lemma unwind_return_moves:
  assumes "return_value S ty w m (unwind_inlined fr r) = Some (v, r')" "length a = length (af_inlined fr) + 1"
  shows "moves a [] r (emit [Return v] r')"
proof -
  obtain b i where a: "a = b @ [i]" using assms(2) by (cases a rule: rev_cases) auto
  have 1: "moves (b @ [i]) ([] @ [i]) r (unwind_inlined fr r)"
    unfolding unwind_inlined_def by (rule moves_frame, rule moves_returns) (use assms(2) a in simp)
  have 2: "moves [i] [i] (unwind_inlined fr r) r'"
    by (rule moves_quiet [OF return_value_quiet [OF assms(1)]])
  from moves_trans [OF 1 [unfolded append_Nil] moves_trans [OF 2 moves_return]]
  show ?thesis unfolding a .
qed

lemma leave_tracked:
  assumes "tracked rb (sr_debug S) (rs_stack st) (rs_rec st)" "leave_function S p st = Some st'"
  shows "tracked rb (sr_debug S) (rs_stack st') (rs_rec st') \<and> (frames_ok D (rs_stack st) \<longrightarrow> frames_ok D (rs_stack st'))"
proof (cases "rs_stack st")
  case Nil
  with assms show ?thesis by (simp add: leave_function_def)
next
  case (Cons frame rest)
  with assms(2) obtain v r ty where r: "return_value S ty (r0 p) (rs_memory st) (unwind_inlined frame (rs_rec st)) = Some (v, r)"
    and st': "rs_rec st' = emit [Return v] r" "rs_stack st' = rest"
    by (auto simp: leave_function_def bind_eq_Some_conv)
  have "tracked rb (sr_debug S) rest (emit [Return v] r)"
    by (rule tracked_pop [OF assms(1) unwind_return_moves [OF r]])
       (simp_all add: Cons frame_keys_length)
  then show ?thesis by (simp add: st' Cons frames_ok_def)
qed

text \<open>The inlined calls of a frame are those whose scopes enclose the address.\<close>

lemma inlined_chain_at:
  "(p, c) \<in> set (inlined_chain f addr) \<Longrightarrow> call_at f p = Some (inlined_key c)"
  by (auto simp: inlined_chain_def List.map_filter_def call_at_def dest: scope_chain_at)

lemma open_inlined_moves:
  "fold_opt (open_inlined S) cs r = Some r' \<Longrightarrow> (\<And>p c. (p, c) \<in> set cs \<Longrightarrow> call_at f p = Some (inlined_key c)) \<Longrightarrow>
   \<exists>ids. moves [] ids r r' \<and> names r' (rev (map (call_at f) (map fst cs))) ids"
proof (induction cs arbitrary: r)
  case Nil
  then have "moves [] [] r r' \<and> names r' [] []" by (simp add: names_def)
  then show ?case by auto
next
  case (Cons x cs)
  obtain p c where x: "x = (p, c)" by (cases x)
  from Cons.prems(1) x obtain r1 where r1: "open_call S (call_name c) (call_file c) (call_line c) r = Some r1"
    and rest: "fold_opt (open_inlined S) cs r1 = Some r'"
    by (auto simp: open_inlined_def bind_eq_Some_conv)
  obtain i where i: "rc_functions r1 (inlined_key c) = Some i" "moves [] [i] r r1"
    using open_call_moves [OF r1] by (auto simp: inlined_key_def)
  obtain ids where ids: "moves [] ids r1 r'" "names r' (rev (map (call_at f) (map fst cs))) ids"
    using Cons.IH [OF rest] Cons.prems(2) by auto
  have "names r1 [call_at f p] [i]" using i(1) Cons.prems(2) [of p c] x by (simp add: names_def)
  from names_append [OF ids(2) names_mono [OF this moves_mono [OF ids(1)]]]
  have "names r' (rev (map (call_at f) (map fst (x # cs)))) (ids @ [i])" by (simp add: x)
  moreover have "moves [] (ids @ [i]) r r'"
    using moves_trans [OF i(2)] moves_frame [OF ids(1), of "[i]"] by simp
  ultimately show ?case by blast
qed

text \<open>After \<open>sync_inlined\<close> the top frame has exactly the inlined calls of the address open.\<close>

definition synced :: "'e SourceDebugInfo \<Rightarrow> u64 \<Rightarrow> ActiveFrame list \<Rightarrow> bool" where
  "synced D addr frames \<longleftrightarrow>
     (case frames of
        [] \<Rightarrow> True
      | frame # _ \<Rightarrow> af_inlined frame = map fst (inlined_chain (fns D ! af_function frame) addr))"

lemma common_prefix_take:
  "take (common_prefix xs cs) xs = map fst (take (common_prefix xs cs) cs)
   \<and> common_prefix xs cs \<le> length xs \<and> common_prefix xs cs \<le> length cs"
proof (induction xs arbitrary: cs)
  case (Cons x xs)
  then show ?case by (cases cs) (auto simp: common_prefix_def split: prod.splits)
qed (simp add: common_prefix_def)

lemma sync_tracked:
  assumes "tracked rb (sr_debug S) (rs_stack st) (rs_rec st)" "sync_inlined S addr st = Some st'"
  shows "tracked rb (sr_debug S) (rs_stack st') (rs_rec st') \<and> synced (sr_debug S) addr (rs_stack st')
       \<and> (frames_ok (sr_debug S) (rs_stack st) \<longrightarrow> frames_ok (sr_debug S) (rs_stack st'))"
proof (cases "rs_stack st")
  case Nil
  with assms show ?thesis by (simp add: sync_inlined_def synced_def)
next
  case (Cons fr rest)
  let ?D = "sr_debug S"
  let ?f = "fns ?D ! af_function fr"
  let ?chain = "inlined_chain ?f addr" and ?open = "af_inlined fr"
  let ?k = "common_prefix ?open ?chain"
  note common = common_prefix_take [of ?open ?chain]
  from assms(2) Cons have idx: "af_function fr < length (fns ?D)"
    by (auto simp: sync_inlined_def bind_eq_Some_conv slice_simps)
  show ?thesis
  proof (cases "?k < length ?open \<or> ?k < length ?chain")
    case False
    then have "?open = map fst ?chain" using common by simp
    moreover from False assms(2) Cons idx have "st' = st"
      by (auto simp: sync_inlined_def Let_def nth_opt_def)
    ultimately show ?thesis using assms(1) Cons by (simp add: synced_def)
  next
    case True
    let ?closed = "emit (replicate (length ?open - ?k) (Return NoneValue)) (rs_rec st)"
    let ?fr = "fr\<lparr>af_inlined := take ?k ?open @ map fst (drop ?k ?chain)\<rparr>"
    from True assms(2) Cons idx obtain r where
      r: "fold_opt (open_inlined S) (drop ?k ?chain) ?closed = Some r"
      and st': "rs_rec st' = r" "rs_stack st' = ?fr # rest"
      by (auto simp: sync_inlined_def Let_def nth_opt_def bind_eq_Some_conv)
    have opened: "map fst (take ?k ?chain) @ map fst (drop ?k ?chain) = map fst ?chain"
      by (metis append_take_drop_id map_append)
    have fr: "af_inlined ?fr = map fst ?chain" using common opened by simp
    obtain ids where ids: "moves [] ids ?closed r" "names r (rev (map (call_at ?f) (map fst (drop ?k ?chain)))) ids"
      using open_inlined_moves [OF r, of ?f] inlined_chain_at in_set_dropD by fastforce
    let ?mid = "fr\<lparr>af_inlined := take ?k ?open\<rparr>"
    have "frame_keys ?D fr = rev (map (call_at ?f) (drop ?k ?open)) @ frame_keys ?D ?mid"
      by (simp add: frame_keys_def Let_def) (metis append_take_drop_id map_append rev_append append.assoc)
    then have "stack_keys ?D (fr # rest) = rev (map (call_at ?f) (drop ?k ?open)) @ stack_keys ?D (?mid # rest)"
      by simp
    then have "tracked rb ?D (?mid # rest) ?closed"
      by (rule tracked_pop [OF assms(1) [unfolded Cons], rotated]) (simp add: moves_returns)
    moreover have "stack_keys ?D (?fr # rest)
        = rev (map (call_at ?f) (map fst (drop ?k ?chain))) @ stack_keys ?D (?mid # rest)"
      by (simp add: frame_keys_def Let_def)
    ultimately have "tracked rb ?D (?fr # rest) r" by (rule tracked_push [OF _ ids])
    with fr show ?thesis by (simp add: st' synced_def frames_ok_def Cons)
  qed
qed

lemma transition_tracked:
  assumes "tracked rb (sr_debug S) (rs_stack st) (rs_rec st)" "frames_ok (sr_debug S) (rs_stack st)"
    and "transition S prev snap addr st = Some st'"
  shows "tracked rb (sr_debug S) (rs_stack st') (rs_rec st') \<and> frames_ok (sr_debug S) (rs_stack st')"
proof -
  have enter: ?thesis
    if e: "enter_function S k st = Some st1" and s: "rs_stack st' = rs_stack st1" "rs_rec st' = rs_rec st1" for k st1
  proof -
    obtain r where r: "call_function S k (rs_rec st) = Some r"
      "st1 = st\<lparr>rs_rec := r, rs_stack := \<lparr>af_function = k, af_inlined = []\<rparr> # rs_stack st\<rparr>"
      using e by (auto simp: enter_function_def bind_eq_Some_conv)
    from call_function_tracked [OF assms(1) r(1)] r(2) s assms(2) show ?thesis by (simp add: frames_ok_def)
  qed
  have leave: ?thesis if "leave_function S p st = Some st'" for p
    using leave_tracked [OF assms(1) that] assms(2) by blast
  have same: ?thesis if "st' = st" using assms that by simp
  show ?thesis
    using assms(3) same leave enter
    by (fastforce simp: transition_def bind_eq_Some_conv split: option.splits if_splits)
qed

lemma record_step_cases:
  assumes "record_step S addr rg st = Some st'"
  obtains "st' = st"
  | p path column r where "source_position (sr_debug S) addr = Some p"
      "nth_opt (files (sr_debug S)) (pos_file p) = Some path" "step_column S p = Some column"
      "record_frame_locals S addr rg st (emit [Step path (uint (pos_line p)) (map_option uint column)] (rs_rec st)) = Some r"
      "st' = st\<lparr>rs_rec := r, rs_last := Some (pos_file p, pos_line p, pos_column p)\<rparr>"
proof (cases "source_position (sr_debug S) addr")
  case None
  with assms that(1) show ?thesis by (simp add: record_step_def)
next
  case (Some p)
  show ?thesis
  proof (cases "rs_last st = Some (pos_file p, pos_line p, pos_column p)")
    case True
    with assms Some that(1) show ?thesis by (simp add: record_step_def Let_def)
  next
    case False
    with assms Some obtain path column r where
      "nth_opt (files (sr_debug S)) (pos_file p) = Some path" "step_column S p = Some column"
      "record_frame_locals S addr rg st (emit [Step path (uint (pos_line p)) (map_option uint column)] (rs_rec st)) = Some r"
      "st' = st\<lparr>rs_rec := r, rs_last := Some (pos_file p, pos_line p, pos_column p)\<rparr>"
      unfolding record_step_def Let_def bind_eq_Some_conv by (simp add: bind_eq_Some_conv) blast
    with Some that(2) show ?thesis by blast
  qed
qed

lemma record_step_kept:
  assumes "record_step S addr rg st = Some st'"
  shows "rs_stack st' = rs_stack st \<and> rs_memory st' = rs_memory st \<and> rs_writes st' = rs_writes st
       \<and> moves a a (rs_rec st) (rs_rec st')"
  using assms
proof (cases rule: record_step_cases)
  case 1
  then show ?thesis by simp
next
  case (2 p path column r)
  let ?e = "[Step path (uint (pos_line p)) (map_option uint column)]"
  have "moves a a (emit ?e (rs_rec st)) r"
    using 2(4) by (auto simp: record_frame_locals_def bind_eq_Some_conv split: list.splits intro: record_locals_moves)
  with moves_plain [of ?e a "rs_rec st"] have "moves a a (rs_rec st) r" by (auto intro: moves_trans)
  then show ?thesis by (simp add: 2(5))
qed

lemma apply_effect_kept:
  "apply_effect S snap next st = Some st' \<Longrightarrow> rs_stack st' = rs_stack st \<and> rs_rec st' = rs_rec st"
  by (auto simp: apply_effect_def bind_eq_Some_conv split: if_splits list.splits)

lemma run_step_tracked:
  assumes "tracked rb (sr_debug S) (rs_stack st) (rs_rec st)" "frames_ok (sr_debug S) (rs_stack st)"
    and "run_step S prev snap next st = Some st'"
  shows "tracked rb (sr_debug S) (rs_stack st') (rs_rec st') \<and> frames_ok (sr_debug S) (rs_stack st')
       \<and> synced (sr_debug S) (address_of (sr_isa S) (sr_debug S) (pc snap)) (rs_stack st')"
proof -
  let ?a = "address_of (sr_isa S) (sr_debug S) (pc snap)"
  from assms(3) obtain st1 st2 st3 where s: "transition S prev snap ?a st = Some st1"
    "sync_inlined S ?a st1 = Some st2" "record_step S ?a (registers snap) st2 = Some st3"
    "apply_effect S snap next st3 = Some st'"
    by (auto simp: run_step_def Let_def bind_eq_Some_conv)
  have t1: "tracked rb (sr_debug S) (rs_stack st1) (rs_rec st1)" "frames_ok (sr_debug S) (rs_stack st1)"
    using transition_tracked [OF assms(1,2) s(1)] by simp_all
  note t2 = sync_tracked [OF t1(1) s(2)]
  note k3 = record_step_kept [OF s(3)] and k4 = apply_effect_kept [OF s(4)]
  have "tracked rb (sr_debug S) (rs_stack st2) (rs_rec st3)"
    by (rule tracked_same [OF conjunct1 [OF t2]]) (use k3 in blast)
  then show ?thesis using t1 t2 k3 k4 by simp
qed

section \<open>Runs as a transition system\<close>

text \<open>The states of a run: how many snapshots are done, and the state after them.\<close>

inductive reaches ::
  "('e, 'm) source_recorder \<Rightarrow> run_state \<Rightarrow> RegisterSnapshot list \<Rightarrow> RegisterSnapshot option
   \<Rightarrow> RegisterSnapshot list \<Rightarrow> run_state \<Rightarrow> bool"
  for S start snaps where
  reaches_start: "reaches S start snaps None snaps start"
| reaches_step:
    "reaches S start snaps prev (s # rest) st \<Longrightarrow> run_step S prev s (head_opt rest) st = Some st' \<Longrightarrow>
     reaches S start snaps (Some s) rest st'"

inductive_cases reaches_Some: "reaches S start snaps (Some s) rest st"

lemma run_loop_reaches:
  "run_loop S prev rest st = Some st' \<Longrightarrow> reaches S start snaps prev rest st \<Longrightarrow>
   \<exists>p. reaches S start snaps p [] st' \<and> (rest \<noteq> [] \<longrightarrow> p = Some (last rest))"
proof (induction rest arbitrary: prev st)
  case (Cons s rest)
  from Cons.prems(1) obtain st1 where st1: "run_step S prev s (head_opt rest) st = Some st1"
    "run_loop S (Some s) rest st1 = Some st'" by (auto simp: bind_eq_Some_conv)
  have r1: "reaches S start snaps (Some s) rest st1" by (rule reaches_step [OF Cons.prems(2) st1(1)])
  from Cons.IH [OF st1(2) r1] obtain p where p: "reaches S start snaps p [] st'" "rest \<noteq> [] \<longrightarrow> p = Some (last rest)"
    by blast
  show ?case
  proof (cases "rest = []")
    case True
    with st1(2) r1 show ?thesis by auto
  qed (use p in auto)
qed auto

lemma reaches_tracked:
  "reaches S start snaps prev rest st \<Longrightarrow> rs_stack start = [] \<Longrightarrow>
   tracked (rs_rec start) (sr_debug S) (rs_stack st) (rs_rec st) \<and> frames_ok (sr_debug S) (rs_stack st)
   \<and> (\<forall>s. prev = Some s \<longrightarrow> synced (sr_debug S) (address_of (sr_isa S) (sr_debug S) (pc s)) (rs_stack st))"
proof (induction rule: reaches.induct)
  case reaches_start
  then show ?case by (auto simp: tracked_def names_def stack_keys_def frames_ok_def)
next
  case (reaches_step prev s rest st st')
  then have t: "tracked (rs_rec start) (sr_debug S) (rs_stack st) (rs_rec st)" "frames_ok (sr_debug S) (rs_stack st)"
    by blast+
  from run_step_tracked [OF t reaches_step.hyps(2)] show ?case by simp
qed


lemma frame_value_return:
  assumes "frame_value S result m fr r = Some (v, r')"
  obtains ty w where "return_value S ty w m (unwind_inlined fr r) = Some (v, r')"
proof (cases result)
  case None
  have "return_value S None 0 m (unwind_inlined fr r) = Some (NoneValue, unwind_inlined fr r)"
    by (simp add: return_value_def)
  with None assms that show ?thesis by (auto simp: frame_value_def)
next
  case (Some w)
  with assms that show ?thesis by (auto simp: frame_value_def bind_eq_Some_conv)
qed

lemma close_frames_tracked:
  "close_frames S result m frames r = Some r' \<Longrightarrow> tracked rb (sr_debug S) frames r \<Longrightarrow> tracked rb (sr_debug S) [] r'"
proof (induction frames arbitrary: r)
  case (Cons frame rest)
  from Cons.prems(1) obtain v r1 where r1: "close_frames S result m rest (emit [Return v] r1) = Some r'"
    and v: "frame_value S (if rest = [] then result else None) m frame r = Some (v, r1)"
    by (auto simp: bind_eq_Some_conv)
  obtain ty w where "return_value S ty w m (unwind_inlined frame r) = Some (v, r1)"
    using v by (rule frame_value_return)
  then have "tracked rb (sr_debug S) rest (emit [Return v] r1)"
    by (intro tracked_pop [OF Cons.prems(2) unwind_return_moves]) (simp_all add: frame_keys_length)
  with Cons.IH r1 show ?case by blast
qed simp

lemma nest_call_stack: "call_stack s t = Some u \<Longrightarrow> nest (length s) t = Some (length u)"
  using call_stack_nest [of s t] by simp

lemma run_closed:
  assumes "run S exec snaps r = Some r'"
  shows "\<exists>es. rc_trace r' = rc_trace r @ es \<and> call_stack [] es = Some []"
proof -
  from assms obtain st where st: "run_loop S None snaps (start_state exec r) = Some st"
    and c: "close_frames S (exit_result S snaps) (rs_memory st) (rs_stack st) (rs_rec st) = Some r'"
    by (auto simp: run_def bind_eq_Some_conv)
  obtain p where "reaches S (start_state exec r) snaps p [] st"
    using run_loop_reaches [OF st reaches_start] by blast
  then have "tracked r (sr_debug S) (rs_stack st) (rs_rec st)"
    using reaches_tracked by (fastforce simp: start_state_def)
  from close_frames_tracked [OF c this] have "moves [] [] r r'"
    by (auto simp: tracked_def stack_keys_def names_def)
  then show ?thesis unfolding moves_def by (metis append_Nil)
qed

section \<open>Steps\<close>

text \<open>A step the writer can address: its file is one of the program's, and a column lies in
  the text of its line, by the line-length table of the file.\<close>

fun step_valid :: "('e, 'm) source_recorder \<Rightarrow> event \<Rightarrow> bool" where
  "step_valid S (Step path line c) \<longleftrightarrow>
     (\<exists>k < length (files (sr_debug S)). files (sr_debug S) ! k = path
        \<and> (\<forall>col. c = Some col \<longrightarrow> 1 \<le> line \<and> nat line \<le> length (sr_line_lengths S ! k)
              \<and> 1 \<le> col \<and> col \<le> uint (sr_line_lengths S ! k ! (nat line - 1))))"
| "step_valid S e \<longleftrightarrow> True"

fun is_step :: "event \<Rightarrow> bool" where
  "is_step (Step p l c) = True"
| "is_step e = False"

lemma step_valid_other: "\<not> is_step e \<Longrightarrow> step_valid S e"
  by (cases e) auto

lemma step_column_valid:
  assumes "nth_opt (files (sr_debug S)) (pos_file p) = Some path" "step_column S p = Some c"
  shows "step_valid S (Step path (uint (pos_line p)) (map_option uint c))"
proof (cases c)
  case None
  with assms(1) show ?thesis by (auto simp: slice_simps)
next
  case (Some col)
  with assms(2) obtain lengths len where l: "nth_opt (sr_line_lengths S) (pos_file p) = Some lengths"
    "pos_line p \<noteq> 0" "nth_opt lengths (unat (pos_line p) - 1) = Some len" "1 \<le> col" "col \<le> len"
    by (auto simp: step_column_def bind_eq_Some_conv split: option.splits if_splits)
  have "1 \<le> unat (pos_line p)" using l(2) by (metis One_nat_def Suc_leI unat_gt_0)
  moreover have "uint (pos_line p) = int (unat (pos_line p))" by simp
  moreover have "unat (pos_line p) - 1 < length lengths" using l(3) by (simp add: slice_simps)
  ultimately have line: "1 \<le> uint (pos_line p)" "unat (pos_line p) \<le> length lengths"
    by linarith+
  have "1 \<le> uint col" "uint col \<le> uint len" using l(4,5) by (simp_all add: word_le_def)
  with line assms(1) l(1,3) Some show ?thesis
    by (intro iffD2 [OF step_valid.simps(1)] exI [of _ "pos_file p"]) (auto simp: slice_simps)
qed

text \<open>Everything but \<open>record_step\<close> writes no step.\<close>

definition adds :: "(event \<Rightarrow> bool) \<Rightarrow> recording \<Rightarrow> recording \<Rightarrow> bool" where
  "adds P r r' \<longleftrightarrow> (\<exists>es. rc_trace r' = rc_trace r @ es \<and> list_all P es)"

lemma adds_refl [simp, intro]: "adds P r r"
  by (simp add: adds_def)

lemma adds_trans: "adds P a b \<Longrightarrow> adds P b c \<Longrightarrow> adds P a c"
  by (auto simp: adds_def)

lemma adds_emit: "list_all P es \<Longrightarrow> adds P r (emit es r)"
  by (auto simp: adds_def emit_def)

lemma adds_quiet: "quiet r r' \<Longrightarrow> (\<And>e. declares e \<Longrightarrow> P e) \<Longrightarrow> adds P r r'"
  by (auto simp: adds_def quiet_def list_all_iff)

lemma declares_valid: "declares e \<Longrightarrow> step_valid S e"
  by (cases e) auto

lemma open_call_adds: "open_call S n f l r = Some r' \<Longrightarrow> adds (step_valid S') r r'"
  by (auto simp: open_call_def function_id_def ensure_function_id_def adds_def emit_def bind_eq_Some_conv
      split: option.splits)

lemma fold_opt_adds:
  assumes "\<And>x r r'. f x r = Some r' \<Longrightarrow> adds P r r'"
  shows "fold_opt f xs r = Some r' \<Longrightarrow> adds P r r'"
  by (induction xs arbitrary: r) (auto simp: bind_eq_Some_conv intro: adds_trans assms)

lemma return_value_adds: "return_value S ty w m r = Some (v, r') \<Longrightarrow> adds (step_valid S') r r'"
  by (rule adds_quiet [OF return_value_quiet declares_valid])

lemma record_variable_adds: "record_variable S f addr state m v r = Some r' \<Longrightarrow> adds (step_valid S') r r'"
  by (auto simp: record_variable_def bind_eq_Some_conv split: option.splits
      intro!: adds_trans [OF adds_quiet [OF _ declares_valid] adds_emit] dest: decode_typed_quiet)

lemma unwind_adds: "adds (step_valid S') r (unwind_inlined fr r)"
  unfolding unwind_inlined_def by (rule adds_emit) (simp add: list_all_iff)

lemma enter_adds: "enter_function S k st = Some st' \<Longrightarrow> adds (step_valid S') (rs_rec st) (rs_rec st')"
  by (auto simp: enter_function_def call_function_def bind_eq_Some_conv intro: open_call_adds)

lemma leave_adds:
  assumes "leave_function S p st = Some st'"
  shows "adds (step_valid S') (rs_rec st) (rs_rec st')"
proof (cases "rs_stack st")
  case (Cons fr rest)
  with assms obtain ty v r where r: "return_value S ty (r0 p) (rs_memory st) (unwind_inlined fr (rs_rec st)) = Some (v, r)"
    and st': "rs_rec st' = emit [Return v] r"
    by (auto simp: leave_function_def bind_eq_Some_conv)
  have "adds (step_valid S') (rs_rec st) r" by (rule adds_trans [OF unwind_adds return_value_adds [OF r]])
  then show ?thesis unfolding st' by (rule adds_trans [OF _ adds_emit]) simp
qed (use assms in \<open>simp add: leave_function_def\<close>)

lemma transition_adds:
  assumes "transition S prev s a st = Some st'"
  shows "adds (step_valid S') (rs_rec st) (rs_rec st')"
proof -
  have enter: ?thesis if "enter_function S k st = Some st1" "rs_rec st' = rs_rec st1" for k st1
    using enter_adds [OF that(1)] that(2) by simp
  have leave: ?thesis if "leave_function S p st = Some st'" for p
    using that by (rule leave_adds)
  have same: ?thesis if "st' = st" using that by simp
  show ?thesis
    using assms same leave enter
    by (fastforce simp: transition_def bind_eq_Some_conv split: option.splits if_splits)
qed

lemma sync_adds:
  assumes "sync_inlined S a st = Some st'"
  shows "adds (step_valid S') (rs_rec st) (rs_rec st')"
proof -
  have one: "adds (step_valid S') r r'" if "open_inlined S x r = Some r'" for x r r'
    using that by (cases x) (auto simp: open_inlined_def intro: open_call_adds)
  have opened: "adds (step_valid S') (rs_rec st) r"
    if "fold_opt (open_inlined S) cs (emit (replicate k (Return NoneValue)) (rs_rec st)) = Some r" for cs k r
    by (rule adds_trans [OF adds_emit fold_opt_adds [OF one that]]) (simp_all add: list_all_iff)
  show ?thesis
  proof (cases "rs_stack st")
    case (Cons fr rest)
    from assms Cons consider "rs_rec st' = rs_rec st"
      | cs k where "fold_opt (open_inlined S) cs (emit (replicate k (Return NoneValue)) (rs_rec st)) = Some (rs_rec st')"
      by (auto simp: sync_inlined_def Let_def bind_eq_Some_conv split: if_splits)
    then show ?thesis by cases (use opened in auto)
  qed (use assms in \<open>simp add: sync_inlined_def\<close>)
qed

lemma record_step_adds:
  assumes "record_step S a rg st = Some st'"
  shows "adds (step_valid S) (rs_rec st) (rs_rec st')"
  using assms
proof (cases rule: record_step_cases)
  case 1
  then show ?thesis by simp
next
  case (2 p path column r)
  let ?e = "[Step path (uint (pos_line p)) (map_option uint column)]"
  have "adds (step_valid S) (emit ?e (rs_rec st)) r"
    using 2(4) fold_opt_adds [OF record_variable_adds]
    by (auto simp: record_frame_locals_def record_locals_def Let_def bind_eq_Some_conv split: list.splits)
  moreover have "adds (step_valid S) (rs_rec st) (emit ?e (rs_rec st))"
    by (rule adds_emit) (use step_column_valid [OF 2(2,3)] in simp)
  ultimately show ?thesis using 2(5) by (auto intro: adds_trans)
qed

lemma run_step_adds:
  assumes "run_step S prev s next st = Some st'"
  shows "adds (step_valid S) (rs_rec st) (rs_rec st')"
proof -
  let ?a = "address_of (sr_isa S) (sr_debug S) (pc s)"
  from assms obtain st1 st2 st3 where "transition S prev s ?a st = Some st1"
    "sync_inlined S ?a st1 = Some st2" "record_step S ?a (registers s) st2 = Some st3"
    "apply_effect S s next st3 = Some st'"
    by (auto simp: run_step_def Let_def bind_eq_Some_conv)
  from adds_trans [OF adds_trans [OF transition_adds [OF this(1)] sync_adds [OF this(2)]] record_step_adds [OF this(3)]]
    apply_effect_kept [OF this(4)]
  show ?thesis by simp
qed

lemma close_frames_adds:
  "close_frames S result m frames r = Some r' \<Longrightarrow> adds (step_valid S') r r'"
proof (induction frames arbitrary: r)
  case (Cons frame rest)
  from Cons.prems obtain v r1 where r1: "close_frames S result m rest (emit [Return v] r1) = Some r'"
    and v: "frame_value S (if rest = [] then result else None) m frame r = Some (v, r1)"
    by (auto simp: bind_eq_Some_conv)
  obtain ty w where "return_value S ty w m (unwind_inlined frame r) = Some (v, r1)"
    using v by (rule frame_value_return)
  then have "adds (step_valid S') r (emit [Return v] r1)"
    by (intro adds_trans [OF adds_trans [OF unwind_adds return_value_adds] adds_emit]) simp_all
  from adds_trans [OF this Cons.IH [OF r1]] show ?case .
qed simp

lemma run_loop_adds: "run_loop S prev snaps st = Some st' \<Longrightarrow> adds (step_valid S) (rs_rec st) (rs_rec st')"
  by (induction snaps arbitrary: prev st) (auto simp: bind_eq_Some_conv intro: adds_trans run_step_adds)

lemma run_adds: "run S exec snaps r = Some r' \<Longrightarrow> adds (step_valid S) r r'"
  by (auto simp: run_def bind_eq_Some_conv start_state_def
      intro: adds_trans dest!: run_loop_adds close_frames_adds [where S' = S])

section \<open>The recorder returns\<close>

text \<open>What a recording needs to return: a loaded model, types without values inside
  themselves, enough fuel, a line table per file, an evaluator that ends (as \<open>gimli\<close>'s does
  within its iteration limit) and a text whose instructions name registers the trace has.\<close>

definition recordable :: "('e, 'm) source_recorder \<Rightarrow> (TypeRef \<Rightarrow> nat) \<Rightarrow> nat \<Rightarrow> bool" where
  "recordable S R N \<longleftrightarrow>
     wf_debug (sr_debug S) \<and> ranked (type_descs (sr_debug S)) R N \<and> N \<le> 33
   \<and> fuel_needed N 0 N \<le> sr_fuel S \<and> length (sr_line_lengths S) = length (files (sr_debug S))
   \<and> (\<forall>e state fb. evaluate (sr_eval S) e state fb \<noteq> None)
   \<and> (\<forall>a insn. decode (sr_isa S) (sr_text S) a = Some insn \<longrightarrow> unat (dst insn) < 12 \<and> unat (src insn) < 12)"

lemma wf_function:
  "wf_debug D \<Longrightarrow> k < length (fns D) \<Longrightarrow> file_in (length (files D)) (fn_file (fns D ! k))
   \<and> open_scope (length (files D)) (body (fns D ! k))"
  by (auto simp: wf_debug_def Let_def list_all_length function_ok_def)

lemma open_scope_children: "open_scope m s \<Longrightarrow> c \<in> set (children s) \<Longrightarrow> open_scope m c"
  by (cases s) auto

lemma open_scope_chain:
  "open_scope m s \<Longrightarrow> list_all (\<lambda>(p, c). open_scope m c) (chain_from path s addr)"
proof (induction path s addr rule: chain_from.induct)
  case (1 path s addr)
  show ?case
  proof (cases "position (\<lambda>c. in_ranges (scope_ranges c) addr) (children s)")
    case (Some i)
    then have "open_scope m (children s ! i)"
      using position_Some [OF Some] open_scope_children [OF 1(2)] by simp
    with 1(1) [OF Some] Some show ?thesis by (simp add: chain_from.simps [of path s addr])
  qed (simp add: chain_from.simps [of path s addr])
qed

lemma inlined_file:
  assumes "open_scope m (body f)" "(p, c) \<in> set (inlined_chain f addr)"
  shows "file_in m (call_file c)"
proof -
  from assms(2) obtain s where s: "(p, s) \<in> set (scope_chain f addr)" "inlined s = Some c"
    by (auto simp: inlined_chain_def List.map_filter_def)
  have "open_scope m s"
    using open_scope_chain [OF assms(1), of "[]" addr] s(1) by (auto simp: scope_chain_def list_all_iff)
  with s(2) show ?thesis by (cases s) auto
qed

lemma source_position_row: "source_position D addr = Some p \<Longrightarrow> \<exists>r\<in>set (rows D). row_position r = Some p"
  by (auto simp: source_position_def Let_def split: option.splits if_splits
      dest!: find_Some_prop in_set_takeD)

lemma wf_position: "wf_debug D \<Longrightarrow> source_position D addr = Some p \<Longrightarrow> pos_file p < length (files D)"
  by (fastforce simp: wf_debug_def Let_def list_all_iff row_ok_def dest!: source_position_row)

lemma fold_opt_total: "(\<And>x s. x \<in> set xs \<Longrightarrow> \<exists>s'. f x s = Some s') \<Longrightarrow> \<exists>s'. fold_opt f xs s = Some s'"
proof (induction xs arbitrary: s)
  case (Cons x xs)
  obtain s1 where "f x s = Some s1" using Cons.prems [of x s] by auto
  with Cons show ?case by simp
qed simp

lemma decode_typed_total:
  assumes "recordable S R N" "type_size (type_descs (sr_debug S)) t = Some sz" "length bs = unat sz"
  shows "\<exists>r'. decode_typed S m t bs r = Some r'"
proof -
  have R: "ranked (type_descs (sr_debug S)) R N" "N \<le> 33" "fuel_needed N 0 N \<le> sr_fuel S"
    using assms(1) by (simp_all add: recordable_def)
  have "fuel_needed N 0 (R t) \<le> sr_fuel S" using R(3) ranked_bound [OF R(1), of t] by (simp add: fuel_needed_def)
  moreover have "sized (type_descs (sr_debug S)) t bs"
    using sized_of_type_size [OF R(1,2), of t bs] assms(2,3) by simp
  ultimately show ?thesis unfolding decode_typed_def using decode_total [OF R(1,2)] by blast
qed

lemma return_value_total: "recordable S R N \<Longrightarrow> \<exists>r'. return_value S ty w m r = Some r'"
proof -
  assume S: "recordable S R N"
  have "\<exists>r'. decode_typed S m t (take (unat sz) (to_le 8 w)) r = Some r'"
    if "type_size (type_descs (sr_debug S)) t = Some sz" "sz \<le> 8" for t sz
    using decode_typed_total [OF S that(1)] that(2) by (simp add: word_le_nat_alt)
  then show ?thesis by (auto simp: return_value_def split: option.splits)
qed

lemma open_call_total: "file_in (length (files (sr_debug S))) f \<Longrightarrow> \<exists>r'. open_call S n f l r = Some r'"
  by (cases f) (auto simp: open_call_def function_id_def file_in_def nth_opt_def ensure_function_id_def split: option.splits)

lemma enter_total:
  assumes "recordable S R N" "k < length (fns (sr_debug S))"
  shows "\<exists>st'. enter_function S k st = Some st'"
proof -
  let ?f = "fns (sr_debug S) ! k"
  have "wf_debug (sr_debug S)" using assms(1) by (simp add: recordable_def)
  then have "file_in (length (files (sr_debug S))) (fn_file ?f)" using wf_function assms(2) by blast
  then obtain r where "open_call S (fn_name ?f) (fn_file ?f) (fn_line ?f) (rs_rec st) = Some r"
    using open_call_total by blast
  with assms(2) show ?thesis by (simp add: enter_function_def call_function_def nth_opt_def)
qed

lemma leave_total:
  assumes "recordable S R N" "frames_ok (sr_debug S) (rs_stack st)"
  shows "\<exists>st'. leave_function S p st = Some st'"
proof (cases "rs_stack st")
  case (Cons fr rest)
  let ?f = "fns (sr_debug S) ! af_function fr"
  obtain v r where "return_value S (return_type ?f) (r0 p) (rs_memory st) (unwind_inlined fr (rs_rec st)) = Some (v, r)"
    using return_value_total [OF assms(1)] by fastforce
  with Cons assms(2) show ?thesis by (auto simp: leave_function_def frames_ok_def nth_opt_def)
qed (simp add: leave_function_def)

lemma transition_total:
  assumes "recordable S R N" "frames_ok (sr_debug S) (rs_stack st)"
  shows "\<exists>st'. transition S prev s a st = Some st'"
proof -
  have "\<exists>st'. enter_function S k st = Some st'" if "function_at (sr_debug S) a = Some k" for k
    using enter_total [OF assms(1)] position_Some [OF that [unfolded function_at_def]] by simp
  moreover have "\<exists>st'. leave_function S p st = Some st'" for p by (rule leave_total [OF assms])
  ultimately show ?thesis
    by (fastforce simp: transition_def split: option.splits)
qed

lemma sync_total:
  assumes "recordable S R N" "frames_ok (sr_debug S) (rs_stack st)"
  shows "\<exists>st'. sync_inlined S a st = Some st'"
proof (cases "rs_stack st")
  case (Cons fr rest)
  let ?D = "sr_debug S" and ?f = "fns (sr_debug S) ! af_function fr"
  have k: "af_function fr < length (fns ?D)" using assms(2) Cons by (simp add: frames_ok_def)
  have wf: "wf_debug ?D" using assms(1) by (simp add: recordable_def)
  have one: "\<exists>r'. open_inlined S x r = Some r'" if x: "x \<in> set (inlined_chain ?f a)" for x r
  proof -
    obtain p c where pc: "x = (p, c)" by (cases x)
    have "file_in (length (files ?D)) (call_file c)"
      using inlined_file x wf_function [OF wf k] by (auto simp: pc)
    from open_call_total [OF this] show ?thesis by (simp add: pc open_inlined_def)
  qed
  have all: "\<exists>r'. fold_opt (open_inlined S) (drop n (inlined_chain ?f a)) r = Some r'" for n r
    by (rule fold_opt_total) (auto intro: one dest: in_set_dropD)
  let ?n = "common_prefix (af_inlined fr) (inlined_chain ?f a)"
  obtain r where "fold_opt (open_inlined S) (drop ?n (inlined_chain ?f a))
      (emit (replicate (length (af_inlined fr) - ?n) (Return NoneValue)) (rs_rec st)) = Some r"
    using all by blast
  with Cons k show ?thesis by (simp add: sync_inlined_def nth_opt_def Let_def)
qed (simp add: sync_inlined_def)

lemma record_variable_total:
  assumes "recordable S R N"
  shows "\<exists>r'. record_variable S f a state m v r = Some r'"
proof (cases "var_type v")
  case (Some ty)
  have ev: "evaluate (sr_eval S) e s fb \<noteq> None" for e s fb using assms by (simp add: recordable_def)
  have "frame_base (sr_eval S) f state \<noteq> None"
    by (auto simp: frame_base_def split: option.splits list.splits elim: notE [OF ev])
  then have "read_variable (sr_eval S) (sr_debug S) f v a state \<noteq> None"
    by (auto simp: read_variable_def split: option.splits elim: notE [OF ev])
  then obtain bytes where b: "read_variable (sr_eval S) (sr_debug S) f v a state = Some bytes" by blast
  show ?thesis
  proof (cases bytes)
    case None
    with b Some show ?thesis by (simp add: record_variable_def)
  next
    case (Some bs)
    with read_variable_size [of "sr_eval S" "sr_debug S" f v a state bs] b \<open>var_type v = Some ty\<close>
    obtain sz where "type_size (type_descs (sr_debug S)) ty = Some sz" "length bs = unat sz" by auto
    then obtain val r' where "decode_typed S m ty bs r = Some (val, r')"
      using decode_typed_total [OF assms] by fastforce
    with Some b \<open>var_type v = Some ty\<close> show ?thesis by (simp add: record_variable_def)
  qed
qed (simp add: record_variable_def)

lemma record_frame_locals_total:
  assumes "recordable S R N" "frames_ok (sr_debug S) (rs_stack st)"
  shows "\<exists>r'. record_frame_locals S a rg st r = Some r'"
proof (cases "rs_stack st")
  case (Cons fr rest)
  have "\<exists>r'. record_locals S f a rg (rs_memory st) r = Some r'" for f
    unfolding record_locals_def Let_def by (rule fold_opt_total) (rule record_variable_total [OF assms(1)])
  with Cons assms(2) show ?thesis by (simp add: record_frame_locals_def frames_ok_def nth_opt_def)
qed (simp add: record_frame_locals_def)

lemma record_step_total:
  assumes "recordable S R N" "frames_ok (sr_debug S) (rs_stack st)"
  shows "\<exists>st'. record_step S a rg st = Some st'"
proof (cases "source_position (sr_debug S) a")
  case (Some p)
  have wf: "wf_debug (sr_debug S)" "length (sr_line_lengths S) = length (files (sr_debug S))"
    using assms(1) by (simp_all add: recordable_def)
  have f: "pos_file p < length (files (sr_debug S))" by (rule wf_position [OF wf(1) Some])
  then have "step_column S p \<noteq> None"
    using wf(2) by (auto simp: step_column_def nth_opt_def split: option.splits)
  then obtain c where c: "step_column S p = Some c" by blast
  obtain r where "record_frame_locals S a rg st
      (emit [Step (files (sr_debug S) ! pos_file p) (uint (pos_line p)) (map_option uint c)] (rs_rec st)) = Some r"
    using record_frame_locals_total [OF assms] by blast
  with Some f c show ?thesis by (simp add: record_step_def nth_opt_def Let_def)
qed (simp add: record_step_def)

lemma apply_effect_total:
  assumes "recordable S R N" "wf_snapshot s"
  shows "\<exists>st'. apply_effect S s next st = Some st'"
proof -
  have "length (registers s) = 12" using assms(2) by (simp add: wf_snapshot_def NUM_REGISTERS_def)
  moreover have "unat (dst insn) < 12 \<and> unat (src insn) < 12"
    if "decode (sr_isa S) (sr_text S) a = Some insn" for a insn
    using assms(1) that unfolding recordable_def by blast
  ultimately have "apply_instruction (sr_isa S) (rs_memory st) (sr_text S) (pc s) (registers s) \<noteq> None"
    by (auto simp: apply_instruction_def store_target_def store_value_def nth_opt_def split: option.splits)
  then show ?thesis by (auto simp: apply_effect_def split: list.splits)
qed

lemma run_step_total:
  assumes "recordable S R N" "frames_ok (sr_debug S) (rs_stack st)" "wf_snapshot s"
    and "tracked rb (sr_debug S) (rs_stack st) (rs_rec st)"
  shows "\<exists>st'. run_step S prev s next st = Some st'"
proof -
  let ?a = "address_of (sr_isa S) (sr_debug S) (pc s)"
  obtain st1 where 1: "transition S prev s ?a st = Some st1" using transition_total [OF assms(1,2)] by blast
  note t1 = transition_tracked [OF assms(4,2) 1]
  obtain st2 where 2: "sync_inlined S ?a st1 = Some st2" using sync_total [OF assms(1)] t1 by blast
  have ok2: "frames_ok (sr_debug S) (rs_stack st2)" using sync_tracked [OF _ 2] t1 by blast
  obtain st3 where 3: "record_step S ?a (registers s) st2 = Some st3" using record_step_total [OF assms(1) ok2] by blast
  obtain st4 where "apply_effect S s next st3 = Some st4" using apply_effect_total [OF assms(1,3)] by blast
  with 1 2 3 show ?thesis by (simp add: run_step_def Let_def)
qed

lemma run_loop_total:
  assumes "recordable S R N"
  shows "list_all wf_snapshot snaps \<Longrightarrow> frames_ok (sr_debug S) (rs_stack st) \<Longrightarrow>
    tracked rb (sr_debug S) (rs_stack st) (rs_rec st) \<Longrightarrow>
    \<exists>st'. run_loop S prev snaps st = Some st' \<and> frames_ok (sr_debug S) (rs_stack st')"
proof (induction snaps arbitrary: prev st)
  case (Cons s snaps)
  obtain st1 where 1: "run_step S prev s (head_opt snaps) st = Some st1"
    using run_step_total [OF assms Cons.prems(2) _ Cons.prems(3), of s] Cons.prems(1) by auto
  from run_step_tracked [OF Cons.prems(3,2) 1] Cons.IH [of st1 "Some s"] Cons.prems(1) 1 show ?case by simp
qed simp

lemma close_frames_total:
  assumes "recordable S R N"
  shows "frames_ok (sr_debug S) frames \<Longrightarrow> \<exists>r'. close_frames S result m frames r = Some r'"
proof (induction frames arbitrary: r)
  case (Cons fr rest)
  have "\<exists>v r'. frame_value S res m fr r = Some (v, r')" for res
    using return_value_total [OF assms, of _ _ m "unwind_inlined fr r"] Cons.prems
    by (cases res) (auto simp: frame_value_def frames_ok_def nth_opt_def)
  then obtain v r1 where "frame_value S (if rest = [] then result else None) m fr r = Some (v, r1)" by blast
  with Cons show ?case by (simp add: frames_ok_def)
qed simp

lemma run_total:
  assumes "recordable S R N" "list_all wf_snapshot snaps"
  shows "\<exists>r'. run S exec snaps r = Some r'"
proof -
  have "tracked r (sr_debug S) [] r" by (auto simp: tracked_def names_def stack_keys_def)
  with run_loop_total [OF assms, of "start_state exec r" r None]
  obtain st where "run_loop S None snaps (start_state exec r) = Some st" "frames_ok (sr_debug S) (rs_stack st)"
    by (auto simp: start_state_def frames_ok_def)
  with close_frames_total [OF assms(1)] show ?thesis by (simp add: run_def)
qed

section \<open>Whole recordings\<close>

abbreviation empty_recording :: "trace \<Rightarrow> recording" where
  "empty_recording t \<equiv> \<lparr>rc_types = Map.empty, rc_functions = Map.empty, rc_trace = t\<rparr>"

abbreviation closing :: trace where
  "closing \<equiv> [FinishEvents, WriteMeta ''codetracer-solana-recorder'', Close]"

lemma parse_snapshots_Ok: "parse_snapshots bs = Ok snaps \<Longrightarrow> list_all wf_snapshot snaps"
  using parse_regs_file_cases [of bs]
  by (auto simp: parse_snapshots_def split: outcome.splits regs_error.splits)

lemma parse_snapshots_not_Panic: "parse_snapshots bs \<noteq> Panic"
  using parse_regs_file_cases [of bs]
  by (auto simp: parse_snapshots_def split: outcome.splits regs_error.splits)

lemma check_io_simps [result_simps]: "check_io x u = Ok v \<longleftrightarrow> x = None \<and> u = v" "check_io x u \<noteq> Panic"
  by (auto simp: check_io_def split: option.splits)

lemma record_execution_Ok:
  assumes "record_execution W I G io fuel exec D elf_path out_dir = Ok t"
  obtains snaps first r where "parse_snapshots (regs exec) = Ok snaps"
    "first_path I D snaps elf_path = Some first"
    "run (new_recorder W I G io D exec fuel) exec snaps (empty_recording (trace_opening io D out_dir first)) = Some r"
    "t = rc_trace r @ closing"
  using assms that
  by (auto simp: record_execution_def finish_trace_def result_simps)

lemma recorded_whole:
  assumes "record_execution W I G io fuel exec D elf_path out_dir = Ok t"
  shows "\<exists>first es. t = trace_opening io D out_dir first @ es @ [FinishEvents, WriteMeta ''codetracer-solana-recorder'', Close]
       \<and> (first = elf_path \<or> first \<in> set (files D)) \<and> balanced t"
proof -
  from assms obtain snaps first r where p: "first_path I D snaps elf_path = Some first"
    and run: "run (new_recorder W I G io D exec fuel) exec snaps (empty_recording (trace_opening io D out_dir first)) = Some r"
    and t: "t = rc_trace r @ closing"
    by (rule record_execution_Ok)
  obtain es where es: "rc_trace r = trace_opening io D out_dir first @ es" "call_stack [] es = Some []"
    using run_closed [OF run] by auto
  have "first = elf_path \<or> first \<in> set (files D)"
    using p by (auto simp: first_path_def slice_simps split: option.splits)
  moreover have "nest 0 es = Some 0" using nest_call_stack [OF es(2)] by simp
  moreover have "nest 0 (trace_opening io D out_dir first) = Some 0" "nest 0 closing = Some 0"
    by (rule nest_plain, simp add: trace_opening_def list_all_iff, simp)
  ultimately show ?thesis by (auto simp: t es(1) balanced_def nest_append)
qed

text \<open>
  C2: a recording is complete and balanced. A trace \<open>record_execution\<close> returns opens with the
  format, one line table per source file and the program's path, closes with the metadata,
  and what is between has a return for every call and no return without one, whatever the
  execution did and wherever it stopped.
\<close>

theorem recording_balanced:
  assumes "record_execution W I G io fuel exec D elf_path out_dir = Ok t"
  shows "\<exists>first es. t = trace_opening io D out_dir first @ es @ [FinishEvents, WriteMeta ''codetracer-solana-recorder'', Close]
       \<and> (first = elf_path \<or> first \<in> set (files D)) \<and> balanced t"
  using assms by (rule recorded_whole)

lemma recorded_steps:
  assumes "record_execution W I G io fuel exec D elf_path out_dir = Ok t" "Step path line c \<in> set t"
  shows "path \<in> set (files D) \<and> (\<forall>col. c = Some col \<longrightarrow>
     (let lengths = map uint (read_line_lengths_for_path (io_read io) path) in
      1 \<le> line \<and> nat line \<le> length lengths \<and> 1 \<le> col \<and> col \<le> lengths ! (nat line - 1)))"
proof -
  let ?S = "new_recorder W I G io D exec fuel"
  from assms(1) obtain snaps first r where
    run: "run ?S exec snaps (empty_recording (trace_opening io D out_dir first)) = Some r"
    and t: "t = rc_trace r @ closing"
    by (rule record_execution_Ok)
  obtain es where es: "rc_trace r = trace_opening io D out_dir first @ es" "list_all (step_valid ?S) es"
    using run_adds [OF run] by (auto simp: adds_def)
  have "Step path line c \<in> set es"
    using assms(2) by (auto simp: t es(1) trace_opening_def)
  then have "step_valid ?S (Step path line c)" using es(2) by (auto simp: list_all_iff)
  then obtain k where k: "k < length (files D)" "files D ! k = path"
    and valid: "\<forall>col. c = Some col \<longrightarrow> 1 \<le> line \<and> nat line \<le> length (sr_line_lengths ?S ! k)
              \<and> 1 \<le> col \<and> col \<le> uint (sr_line_lengths ?S ! k ! (nat line - 1))"
    by (auto simp: new_recorder_def)
  have "sr_line_lengths ?S ! k = read_line_lengths_for_path (io_read io) path"
    using k by (simp add: new_recorder_def)
  with valid k show ?thesis by (auto simp: Let_def)
qed


text \<open>The same of all steps of a trace, as one predicate.\<close>

definition addressable :: "tracer_io \<Rightarrow> 'e SourceDebugInfo \<Rightarrow> trace \<Rightarrow> bool" where
  "addressable io D t \<longleftrightarrow>
     (\<forall>path line c. Step path line c \<in> set t \<longrightarrow>
        path \<in> set (files D)
      \<and> (case c of None \<Rightarrow> True
         | Some col \<Rightarrow>
             (let lengths = map uint (read_line_lengths_for_path (io_read io) path) in
              1 \<le> line \<and> nat line \<le> length lengths \<and> 1 \<le> col \<and> col \<le> lengths ! (nat line - 1))))"

lemma recorded_addressable:
  "record_execution W I G io fuel exec D elf_path out_dir = Ok t \<Longrightarrow> addressable io D t"
  unfolding addressable_def by (auto dest: recorded_steps split: option.split)

lemma record_execution_succeeds:
  assumes "record_execution W I G io fuel exec D elf_path out_dir \<noteq> Panic" "parse_snapshots (regs exec) = Ok snaps"
    and "\<And>p. io_create_dir io p = None" "\<And>p. io_begin io p = None" "\<And>t. io_finish io t = None"
        "\<And>t. io_write_meta io t = None" "\<And>t. io_close io t = None"
  shows "\<exists>t. record_execution W I G io fuel exec D elf_path out_dir = Ok t"
  using assms
  by (cases "first_path I D snaps elf_path";
      cases "run (new_recorder W I G io D exec fuel) exec snaps (empty_recording (trace_opening io D out_dir (the (first_path I D snaps elf_path))))")
    (auto simp: record_execution_def finish_trace_def check_io_def)

lemma first_path_total: "wf_debug D \<Longrightarrow> \<exists>first. first_path I D snaps elf = Some first"
proof (induction snaps)
  case (Cons s snaps)
  then show ?case
    by (auto simp: first_path_def nth_opt_def dest: wf_position split: option.splits)
qed (simp add: first_path_def)

lemma record_execution_total:
  assumes "recordable (new_recorder W I G io D exec fuel) R N"
  shows "record_execution W I G io fuel exec D elf_path out_dir \<noteq> Panic"
proof -
  let ?S = "new_recorder W I G io D exec fuel"
  have wf: "wf_debug D" using assms by (simp add: recordable_def new_recorder_def)
  have "\<exists>r'. run ?S exec snaps r = Some r'" if "parse_snapshots (regs exec) = Ok snaps" for snaps r
    using run_total [OF assms parse_snapshots_Ok [OF that]] .
  then have run: "of_option (run ?S exec snaps r) \<noteq> Panic" if "parse_snapshots (regs exec) = Ok snaps" for snaps r
    using that by (simp add: result_simps)
  have first: "of_option (first_path I D snaps elf_path) \<noteq> Panic" for snaps
    using first_path_total [OF wf, of I snaps elf_path] by auto
  show ?thesis
    unfolding record_execution_def finish_trace_def
    by (intro bind_outcome_not_Panic parse_snapshots_not_Panic check_io_simps first run) auto
qed


definition sample_exec :: ExecutionTrace where
  "sample_exec = \<lparr>regs = regs_data [replicate 12 0, replicate 12 1], trace_text = [], initial_memory = [],
     syscall_writes = [], trace_moved = False, manual_stack_frames = False\<rparr>"

lemma sample_no_text: "decode sample_isa [] a = None"
  by (auto simp: decode_def sample_isa_def usize_add_def Let_def split: option.splits)

lemma sample_evaluates: "evaluate sample_evaluator e state fb \<noteq> None"
  by (simp add: evaluate_def sample_evaluator_def eval_loop.simps)


text \<open>A run of two snapshots in one function, the second at line 7, column 2.\<close>

definition sample_source :: "unit SourceDebugInfo" where
  "sample_source = \<lparr>sd_text_vaddr = 64, files = [''a.rs''],
     fns = [sample_function\<lparr>body := Scope [Range 64 96] [] [] None\<rparr>], type_descs = [],
     rows = [\<lparr>row_start = 72, row_end = 96,
              row_position = Some \<lparr>pos_file = 0, pos_line = 7, pos_column = Some 2\<rparr>\<rparr>]\<rparr>"

definition sample_files :: tracer_io where
  "sample_files = sample_io\<lparr>io_read := (\<lambda>p. Some [10, 10, 10, 10, 10, 10, 97, 98])\<rparr>"

lemma sample_snapshots:
  "parse_snapshots (regs sample_exec) = Ok [\<lparr>registers = replicate 12 0\<rparr>, \<lparr>registers = replicate 12 1\<rparr>]"
  using parse_regs_data [of "[replicate 12 0, replicate 12 1]"] by (simp add: parse_snapshots_def sample_exec_def)

lemma sample_lengths: "read_line_lengths_for_path (io_read sample_files) ''a.rs'' = [0, 0, 0, 0, 0, 0, 2]"
  by (simp add: read_line_lengths_for_path_def synthetic_path_def sample_files_def line_lengths_def
      saturating_add_def)

lemma sample_pc: "pc \<lparr>registers = replicate 12 w\<rparr> = w"
  by (simp add: pc_def)

abbreviation "sample_body \<equiv> sample_function\<lparr>body := Scope [Range 64 96] [] [] None\<rparr>"

lemma sample_source_simps:
  "files sample_source = [''a.rs'']" "fns sample_source = [sample_body]"
  "address_of sample_isa sample_source 0 = 64" "address_of sample_isa sample_source 1 = 72"
  "function_at sample_source 64 = Some 0"
  "source_position sample_source 64 = None"
  "source_position sample_source 72 = Some \<lparr>pos_file = 0, pos_line = 7, pos_column = Some 2\<rparr>"
  by (simp_all add: sample_source_def address_of_def sample_isa_simps(1) function_at_def contains_def
      in_ranges_def range_contains_def source_position_def partition_point_def Let_def)

lemma sample_chain: "scope_chain sample_body x = []" "inlined_chain sample_body x = []"
  by (simp_all add: scope_chain_def chain_from.simps inlined_chain_def List.map_filter_def)

lemma sample_locals: "record_locals S sample_body x rg m r = Some r"
  by (simp add: record_locals_def local_scopes_def sample_chain rposition_def Let_def)

lemma sample_open: "\<exists>r'. open_call S n None l r = Some r'"
  using open_call_total [of S None n l r] by (simp add: file_in_def)

definition sample_recorder :: "(unit, unit) source_recorder" where
  "sample_recorder = new_recorder sample_ids sample_isa sample_evaluator sample_files sample_source sample_exec 15"

lemma sample_recorder_simps:
  "sr_debug sample_recorder = sample_source" "sr_text sample_recorder = []" "sr_isa sample_recorder = sample_isa"
  "sr_line_lengths sample_recorder = [[0, 0, 0, 0, 0, 0, 2]]"
  by (simp_all add: sample_recorder_def new_recorder_def sample_exec_def sample_source_simps sample_lengths)

abbreviation "sample_frame \<equiv> \<lparr>af_function = 0, af_inlined = []\<rparr>"

lemma sample_effect: "apply_effect sample_recorder s n st = Some (st\<lparr>rs_memory := rs_memory st\<rparr>)"
  by (simp add: apply_effect_def apply_instruction_def sample_recorder_simps sample_no_text)

lemma sample_sync: "rs_stack st = [sample_frame] \<Longrightarrow> sync_inlined sample_recorder x st = Some st"
  by (simp add: sync_inlined_def sample_recorder_simps sample_source_simps nth_opt_def sample_chain common_prefix_def)

lemma sample_first:
  assumes "rs_stack st = []"
  shows "\<exists>r. run_step sample_recorder None \<lparr>registers = replicate 12 0\<rparr> n st
    = Some (st\<lparr>rs_rec := r, rs_stack := [sample_frame]\<rparr>)"
proof -
  obtain r where "open_call sample_recorder (fn_name sample_body) None (fn_line sample_body) (rs_rec st) = Some r"
    using sample_open by blast
  then have "transition sample_recorder None \<lparr>registers = replicate 12 0\<rparr> 64 st
      = Some (st\<lparr>rs_rec := r, rs_stack := [sample_frame]\<rparr>)"
    by (simp add: transition_def sample_recorder_simps sample_source_simps enter_function_def
        call_function_def nth_opt_def sample_function_def assms)
  then have "run_step sample_recorder None \<lparr>registers = replicate 12 0\<rparr> n st
    = Some (st\<lparr>rs_rec := r, rs_stack := [sample_frame]\<rparr>)"
    by (simp add: run_step_def sample_recorder_simps sample_pc sample_source_simps sample_sync
        record_step_def sample_effect)
  then show ?thesis ..
qed

lemma sample_second:
  assumes "rs_stack st = [sample_frame]" "rs_last st = None"
  shows "\<exists>st'. run_step sample_recorder (Some s) \<lparr>registers = replicate 12 1\<rparr> n st = Some st'
     \<and> Step ''a.rs'' 7 (Some 2) \<in> set (rc_trace (rs_rec st'))"
  by (simp add: run_step_def transition_def sample_recorder_simps sample_no_text sample_pc sample_source_simps
      sample_sync assms record_step_def nth_opt_def step_column_def record_frame_locals_def sample_locals
      sample_effect emit_def)

lemma close_none:
  "\<exists>es r'. close_frames S None m frames r = Some r' \<and> rc_trace r' = rc_trace r @ es"
proof (induction frames arbitrary: r)
  case (Cons fr rest)
  from Cons [of "emit [Return NoneValue] (unwind_inlined fr r)"] show ?case
    by (auto simp: frame_value_def emit_def unwind_inlined_def)
qed auto

abbreviation "sample_start \<equiv>
  start_state sample_exec (empty_recording (trace_opening sample_files sample_source ''out'' ''a.rs''))"

abbreviation "sample_snaps \<equiv> [\<lparr>registers = replicate 12 0\<rparr>, \<lparr>registers = replicate 12 1\<rparr>]"

lemma sample_loop:
  "\<exists>st. run_loop sample_recorder None sample_snaps sample_start = Some st
     \<and> Step ''a.rs'' 7 (Some 2) \<in> set (rc_trace (rs_rec st))"
proof -
  obtain r1 where 1: "run_step sample_recorder None (sample_snaps ! 0) (Some (sample_snaps ! 1)) sample_start
      = Some (sample_start\<lparr>rs_rec := r1, rs_stack := [sample_frame]\<rparr>)"
    using sample_first [of sample_start] by (auto simp: start_state_def)
  obtain st where 2: "run_step sample_recorder (Some (sample_snaps ! 0)) (sample_snaps ! 1) None
      (sample_start\<lparr>rs_rec := r1, rs_stack := [sample_frame]\<rparr>) = Some st"
    and step: "Step ''a.rs'' 7 (Some 2) \<in> set (rc_trace (rs_rec st))"
    using sample_second [of "sample_start\<lparr>rs_rec := r1, rs_stack := [sample_frame]\<rparr>"]
    by (auto simp: start_state_def)
  from 1 2 step show ?thesis by (simp add: head_opt_def)
qed

lemma sample_record:
  "\<exists>t. record_execution sample_ids sample_isa sample_evaluator sample_files 15 sample_exec sample_source ''x.so'' ''out'' = Ok t
     \<and> Step ''a.rs'' 7 (Some 2) \<in> set t"
proof -
  have first: "first_path sample_isa sample_source sample_snaps ''x.so'' = Some ''a.rs''"
    by (simp add: first_path_def sample_pc sample_source_simps nth_opt_def)
  obtain st where st: "run_loop sample_recorder None sample_snaps sample_start = Some st"
    "Step ''a.rs'' 7 (Some 2) \<in> set (rc_trace (rs_rec st))"
    using sample_loop by blast
  have no_result: "exit_result sample_recorder sample_snaps = None"
    by (simp add: exit_result_def head_opt_def sample_recorder_simps sample_no_text)
  obtain es r where "close_frames sample_recorder None (rs_memory st) (rs_stack st) (rs_rec st) = Some r"
    "rc_trace r = rc_trace (rs_rec st) @ es"
    using close_none by blast
  then have "run sample_recorder sample_exec sample_snaps
        (empty_recording (trace_opening sample_files sample_source ''out'' ''a.rs'')) = Some r"
    "Step ''a.rs'' 7 (Some 2) \<in> set (rc_trace r)"
    using st no_result by (simp_all add: run_def)
  with first sample_snapshots show ?thesis
    by (simp add: record_execution_def finish_trace_def check_io_def sample_files_def sample_io_def
        sample_recorder_def)
qed


theorem recording_balanced_witness:
  "\<exists>t. record_execution sample_ids sample_isa sample_evaluator sample_files 15 sample_exec sample_source ''x.so'' ''out'' = Ok t
     \<and> balanced t"
  using sample_record recording_balanced by blast


end
