(* ===== verification/Rust_Text.thy ===== *)
theory Rust_Text
  imports Rust_Paths
begin

text \<open>
  The operations on \<open>str\<close> that the source scanner uses. A string is its UTF-8 bytes, so an
  index is a byte offset as in Rust; a test on characters that are all ASCII may run over
  the bytes, since no byte of a longer character is one.
\<close>

section \<open>Prefixes, suffixes, searches\<close>

definition strip_prefix :: "string \<Rightarrow> string \<Rightarrow> string option" where
  "strip_prefix p s = (if is_prefix p s then Some (drop (length p) s) else None)"

definition strip_suffix :: "string \<Rightarrow> string \<Rightarrow> string option" where
  "strip_suffix p s = map_option rev (strip_prefix (rev p) (rev s))"

definition contains_str :: "string \<Rightarrow> string \<Rightarrow> bool" where
  "contains_str p s \<longleftrightarrow> find_str p s \<noteq> None"

definition find_char :: "char \<Rightarrow> string \<Rightarrow> nat option" where
  "find_char c s = position (\<lambda>x. x = c) s"

definition rfind_char :: "char \<Rightarrow> string \<Rightarrow> nat option" where
  "rfind_char c s = map_option (\<lambda>i. length s - 1 - i) (position (\<lambda>x. x = c) (rev s))"

definition rfind_str :: "string \<Rightarrow> string \<Rightarrow> nat option" where
  "rfind_str p s = map_option (\<lambda>i. length s - length p - i) (find_str (rev p) (rev s))"

definition strip_or :: "string \<Rightarrow> string \<Rightarrow> string" where
  "strip_or p s = (case strip_prefix p s of Some r \<Rightarrow> r | None \<Rightarrow> s)"

section \<open>Trimming\<close>

text \<open>The characters of \<open>White_Space\<close>, as their UTF-8 bytes.\<close>

definition whitespace :: "string list" where
  "whitespace =
     [[CHR 0x09], [CHR 0x0A], [CHR 0x0B], [CHR 0x0C], [CHR 0x0D], [CHR 0x20],
      [CHR 0xC2, CHR 0x85], [CHR 0xC2, CHR 0xA0], [CHR 0xE1, CHR 0x9A, CHR 0x80],
      [CHR 0xE2, CHR 0x80, CHR 0x80], [CHR 0xE2, CHR 0x80, CHR 0x81], [CHR 0xE2, CHR 0x80, CHR 0x82],
      [CHR 0xE2, CHR 0x80, CHR 0x83], [CHR 0xE2, CHR 0x80, CHR 0x84], [CHR 0xE2, CHR 0x80, CHR 0x85],
      [CHR 0xE2, CHR 0x80, CHR 0x86], [CHR 0xE2, CHR 0x80, CHR 0x87], [CHR 0xE2, CHR 0x80, CHR 0x88],
      [CHR 0xE2, CHR 0x80, CHR 0x89], [CHR 0xE2, CHR 0x80, CHR 0x8A], [CHR 0xE2, CHR 0x80, CHR 0xA8],
      [CHR 0xE2, CHR 0x80, CHR 0xA9], [CHR 0xE2, CHR 0x80, CHR 0xAF], [CHR 0xE2, CHR 0x81, CHR 0x9F],
      [CHR 0xE3, CHR 0x80, CHR 0x80]]"

text \<open>The length of the first of \<open>ws\<close> that begins a string.\<close>

definition leading :: "string list \<Rightarrow> string \<Rightarrow> nat" where
  "leading ws s = (case List.find (\<lambda>w. is_prefix w s) ws of Some w \<Rightarrow> length w | None \<Rightarrow> 0)"

text \<open>\<open>trim_start_matches\<close>: as long as one of them does.\<close>

function strip_all :: "string list \<Rightarrow> string \<Rightarrow> string" where
  "strip_all ws s =
     (let n = leading ws s in if n = 0 \<or> s = [] then s else strip_all ws (drop n s))"
  by pat_completeness auto
termination by (relation "measure (\<lambda>(ws, s). length s)") auto

declare strip_all.simps [simp del]

definition trim_start :: "string \<Rightarrow> string" where
  "trim_start s = strip_all whitespace s"

definition trim_end :: "string \<Rightarrow> string" where
  "trim_end s = rev (strip_all (map rev whitespace) (rev s))"

definition trim :: "string \<Rightarrow> string" where
  "trim s = trim_end (trim_start s)"

definition trim_start_char :: "char \<Rightarrow> string \<Rightarrow> string" where
  "trim_start_char c s = dropWhile (\<lambda>x. x = c) s"

definition trim_end_char :: "char \<Rightarrow> string \<Rightarrow> string" where
  "trim_end_char c s = rev (dropWhile (\<lambda>x. x = c) (rev s))"

definition trim_start_str :: "string \<Rightarrow> string \<Rightarrow> string" where
  "trim_start_str p s = strip_all [p] s"

text \<open>Visible ASCII: the characters trimming never removes.\<close>

definition graphic :: "char \<Rightarrow> bool" where
  "graphic c \<longleftrightarrow> 0x21 \<le> (of_char c :: nat) \<and> (of_char c :: nat) \<le> 0x7E"

text \<open>Text that begins and ends with a visible character, or is empty.\<close>

definition tight :: "string \<Rightarrow> bool" where
  "tight s \<longleftrightarrow> s = [] \<or> graphic (hd s) \<and> graphic (last s)"

lemma leading_graphic:
  assumes "list_all (\<lambda>w. w \<noteq> [] \<and> \<not> graphic (hd w)) ws" "s \<noteq> []" "graphic (hd s)"
  shows "leading ws s = 0"
proof -
  have "\<not> is_prefix w s" if "w \<in> set ws" for w
  proof
    assume p: "is_prefix w s"
    from that assms(1) have w: "w \<noteq> []" "\<not> graphic (hd w)" by (auto simp: list_all_iff)
    have "hd w = hd (take (length w) s)" using p by (simp add: is_prefix_def)
    also have "\<dots> = hd s" using w(1) by (cases s; cases w) auto
    finally show False using w(2) assms(3) by simp
  qed
  then have "List.find (\<lambda>w. is_prefix w s) ws = None" by (auto simp: find_None_iff)
  then show ?thesis by (simp add: leading_def)
qed

lemma whitespace_not_graphic:
  "list_all (\<lambda>w. w \<noteq> [] \<and> \<not> graphic (hd w)) whitespace"
  "list_all (\<lambda>w. w \<noteq> [] \<and> \<not> graphic (hd w)) (map rev whitespace)"
  by (simp_all add: whitespace_def graphic_def)

lemma strip_all_Nil [simp]: "strip_all ws [] = []"
  by (simp add: strip_all.simps)

lemma trim_start_graphic: "graphic (hd s) \<Longrightarrow> trim_start s = s"
  by (cases "s = []") (simp_all add: trim_start_def strip_all.simps leading_graphic whitespace_not_graphic)

lemma trim_end_graphic: "graphic (last s) \<Longrightarrow> trim_end s = s"
  by (cases "s = []") (simp_all add: trim_end_def strip_all.simps leading_graphic whitespace_not_graphic hd_rev)

lemma trim_tight [simp]: "tight s \<Longrightarrow> trim s = s"
  by (auto simp: tight_def trim_def trim_start_graphic trim_end_graphic) (simp add: trim_start_def trim_end_def)

text \<open>A blank before the text goes.\<close>

lemma trim_start_blank: "trim_start (CHR '' '' # s) = trim_start s"
  by (subst trim_start_def, subst strip_all.simps)
     (simp add: leading_def whitespace_def is_prefix_def trim_start_def)

lemma trim_blank [simp]: "trim (CHR '' '' # s) = trim s"
  by (simp add: trim_def trim_start_blank)

section \<open>Characters and numbers\<close>

definition is_ascii_digit :: "char \<Rightarrow> bool" where
  "is_ascii_digit c \<longleftrightarrow> 48 \<le> (of_char c :: nat) \<and> (of_char c :: nat) \<le> 57"

definition is_ascii_uppercase :: "char \<Rightarrow> bool" where
  "is_ascii_uppercase c \<longleftrightarrow> 65 \<le> (of_char c :: nat) \<and> (of_char c :: nat) \<le> 90"

definition is_ascii_lowercase :: "char \<Rightarrow> bool" where
  "is_ascii_lowercase c \<longleftrightarrow> 97 \<le> (of_char c :: nat) \<and> (of_char c :: nat) \<le> 122"

text \<open>\<open>c.is_ascii_alphanumeric() || c == '_'\<close>.\<close>

definition ident_char :: "char \<Rightarrow> bool" where
  "ident_char c \<longleftrightarrow>
     is_ascii_digit c \<or> is_ascii_uppercase c \<or> is_ascii_lowercase c \<or> c = CHR ''_''"

text \<open>\<open>str::parse::<i64>\<close>: a sign, then at least one digit, within the range.\<close>

definition parse_i64 :: "string \<Rightarrow> int option" where
  "parse_i64 s =
     (let neg = (s \<noteq> [] \<and> hd s = CHR ''-'');
          ds = (if neg \<or> s \<noteq> [] \<and> hd s = CHR ''+'' then tl s else s);
          v = int (undigits 10 ds); i = (if neg then - v else v) in
      if ds = [] \<or> \<not> list_all is_ascii_digit ds then None
      else if - (2 ^ 63) \<le> i \<and> i < 2 ^ 63 then Some i else None)"

lemma digit_char_digit: "d < 10 \<Longrightarrow> is_ascii_digit (digit_char d)"
  by (simp add: is_ascii_digit_def digit_char_def)

lemma radix_digits_10: "radix_digits 10 n \<noteq> [] \<and> list_all is_ascii_digit (radix_digits 10 n)"
proof (induction n rule: less_induct)
  case (less n)
  then show ?case
    by (cases "n < 10") (simp_all add: radix_digits.simps [of 10 n] digit_char_digit)
qed

lemma dec_nat_digits [simp]: "dec_nat n \<noteq> []" "list_all is_ascii_digit (dec_nat n)"
  using radix_digits_10 [of n] by (simp_all add: dec_nat_def)

lemma digit_not_sign: "is_ascii_digit c \<Longrightarrow> c \<noteq> CHR ''-'' \<and> c \<noteq> CHR ''+''"
  by (auto simp: is_ascii_digit_def)

lemma dec_nat_hd: "is_ascii_digit (hd (dec_nat n))" "is_ascii_digit (last (dec_nat n))"
  using dec_nat_digits [of n] by (auto simp: list_all_iff)

lemma parse_dec_int: "- (2 ^ 63) \<le> i \<Longrightarrow> i < 2 ^ 63 \<Longrightarrow> parse_i64 (dec_int i) = Some i"
  using digit_not_sign [OF dec_nat_hd(1) [of "nat i"]]
  by (auto simp: parse_i64_def dec_int_def undigits_dec Let_def)

lemma digit_graphic: "is_ascii_digit c \<Longrightarrow> graphic c"
  by (simp add: is_ascii_digit_def graphic_def)

lemma dec_int_tight: "tight (dec_int i)"
  using dec_nat_hd [of "nat i"] dec_nat_hd [of "nat (- i)"]
  by (auto simp: tight_def dec_int_def digit_graphic) (simp add: graphic_def)

lemma ident_graphic: "ident_char c \<Longrightarrow> graphic c"
  by (auto simp: ident_char_def graphic_def is_ascii_digit_def is_ascii_uppercase_def is_ascii_lowercase_def)

end
