(* ===== verification/Source_Text.thy ===== *)
theory Source_Text
  imports Rust_Text Register_Trace "HOL-Library.AList"
begin

text \<open>
  \<open>src/recorder.rs\<close>, its view of the program's source text: the functions of a file and their
  line ranges (\<open>SourceModel\<close>), the scanners for \<open>let\<close> bindings, macro calls and literals,
  the interpolation of format strings, and the map from variables to registers (\<open>VarEnv\<close>).
\<close>

section \<open>Functions of a source file\<close>

abbreviation backslash :: char where "backslash \<equiv> CHR 0x5C"
abbreviation dquote :: char where "dquote \<equiv> CHR 0x22"

record SourceModel =
  sm_lines :: "string list"
  sm_functions :: "(u32 \<times> u32 \<times> string) list"

definition ident_end :: "string \<Rightarrow> nat" where
  "ident_end s = (case position (\<lambda>c. \<not> ident_char c) s of Some i \<Rightarrow> i | None \<Rightarrow> length s)"

definition match_fn_declaration :: "string \<Rightarrow> string option" where
  "match_fn_declaration raw =
     (let trimmed = trim_start raw;
          body = (case strip_prefix ''pub(crate) '' trimmed of
                    Some b \<Rightarrow> b | None \<Rightarrow> strip_or ''pub '' trimmed);
          body = (case strip_prefix ''async '' body of
                    Some b \<Rightarrow> b | None \<Rightarrow> strip_or ''unsafe '' body) in
      case strip_prefix ''fn '' body of
        None \<Rightarrow> None
      | Some rest \<Rightarrow>
          (let e = ident_end rest; after = trim_start (drop e rest) in
           if e = 0 then None
           else if is_prefix ''('' after \<or> is_prefix ''<'' after then Some (take e rest) else None))"

text \<open>The character loop over one line: strings and comments end with the line, the brace
  that closes the body ends the search.\<close>

datatype scan = Closed | Open bool int

function scan_line :: "string \<Rightarrow> bool \<Rightarrow> bool \<Rightarrow> bool \<Rightarrow> int \<Rightarrow> scan" where
  "scan_line [] in_string in_comment seen depth = Open seen depth"
| "scan_line (c # s) in_string in_comment seen depth =
     (if in_comment then
        (if c = CHR ''*'' \<and> is_prefix ''/'' s then scan_line (tl s) in_string False seen depth
         else scan_line s in_string True seen depth)
      else if in_string then
        (if c = backslash then scan_line (tl s) True False seen depth
         else scan_line s (c \<noteq> dquote) False seen depth)
      else if c = dquote then scan_line s True False seen depth
      else if c = CHR ''/'' \<and> is_prefix ''/'' s then Open seen depth
      else if c = CHR ''/'' \<and> is_prefix ''*'' s then scan_line (tl s) False True seen depth
      else if c = CHR ''{'' then scan_line s False False True (depth + 1)
      else if c = CHR ''}'' then
        (if seen \<and> depth - 1 = 0 then Closed else scan_line s False False seen (depth - 1))
      else scan_line s False False seen depth)"
  by pat_completeness auto
termination by (relation "measure (\<lambda>(s, _). length s)") auto

text \<open>The line with the closing brace, from line \<open>j\<close> on.\<close>

fun body_end :: "string list \<Rightarrow> nat \<Rightarrow> bool \<Rightarrow> int \<Rightarrow> nat option" where
  "body_end [] j seen depth = None"
| "body_end (l # ls) j seen depth =
     (case scan_line l False False seen depth of
        Closed \<Rightarrow> Some j
      | Open seen depth \<Rightarrow> body_end ls (Suc j) seen depth)"

lemma body_end_bounds: "body_end ls j seen depth = Some k \<Longrightarrow> j \<le> k \<and> k < j + length ls"
  by (induction ls j seen depth rule: body_end.induct) (fastforce split: scan.splits)+

function function_ranges :: "string list \<Rightarrow> nat \<Rightarrow> (u32 \<times> u32 \<times> string) list" where
  "function_ranges ls i =
     (if i < length ls then
        (case match_fn_declaration (ls ! i) of
           Some name \<Rightarrow>
             (case body_end (drop i ls) i False 0 of
                Some j \<Rightarrow> (of_nat i, of_nat j, name) # function_ranges ls (j + 1)
              | None \<Rightarrow> [(of_nat i, of_nat i, name)])
         | None \<Rightarrow> function_ranges ls (i + 1))
      else [])"
  by pat_completeness auto
termination
  by (relation "measure (\<lambda>(ls, i). length ls - i)") (auto dest: body_end_bounds)

declare function_ranges.simps [simp del]

definition parse_function_ranges :: "string list \<Rightarrow> (u32 \<times> u32 \<times> string) list" where
  "parse_function_ranges ls = function_ranges ls 1"

definition default_model :: SourceModel where
  "default_model = \<lparr>sm_lines = [], sm_functions = []\<rparr>"

definition load_model :: "(string \<Rightarrow> string option) \<Rightarrow> string \<Rightarrow> SourceModel" where
  "load_model read source_path =
     (case read source_path of
        None \<Rightarrow> default_model
      | Some content \<Rightarrow>
          (let ls = [] # text_lines content in
           \<lparr>sm_lines = ls, sm_functions = parse_function_ranges ls\<rparr>))"

definition model_line :: "SourceModel \<Rightarrow> u32 \<Rightarrow> string" where
  "model_line M line_no = (case nth_opt (sm_lines M) (unat line_no) of Some l \<Rightarrow> l | None \<Rightarrow> [])"

text \<open>\<open>min_by_key\<close>: the first of the least.\<close>

fun min_by_key :: "('a \<Rightarrow> 'k::linorder) \<Rightarrow> 'a list \<Rightarrow> 'a option" where
  "min_by_key f [] = None"
| "min_by_key f (x # xs) =
     (case min_by_key f xs of None \<Rightarrow> Some x | Some y \<Rightarrow> if f y < f x then Some y else Some x)"

definition fn_at :: "SourceModel \<Rightarrow> u32 \<Rightarrow> string option" where
  "fn_at M line_no =
     map_option (\<lambda>(s, e, name). name)
       (min_by_key (\<lambda>(s, e, name). e - s)
          (filter (\<lambda>(s, e, name). s \<le> line_no \<and> line_no \<le> e) (sm_functions M)))"

section \<open>Bindings and literals\<close>

definition strip_line_for_match :: "string \<Rightarrow> string" where
  "strip_line_for_match raw =
     (let trimmed = trim raw in
      case find_str ''//'' trimmed of Some i \<Rightarrow> trim_end (take i trimmed) | None \<Rightarrow> trimmed)"

definition extract_let_lhs :: "string \<Rightarrow> string option" where
  "extract_let_lhs s =
     (case strip_prefix ''let '' s of
        None \<Rightarrow> None
      | Some rest \<Rightarrow>
          (let rest = strip_or ''mut '' rest; e = ident_end rest in
           if e = 0 then None else Some (take e rest)))"

definition extract_let_rhs :: "string \<Rightarrow> string option" where
  "extract_let_rhs s =
     (case find_char (CHR ''='') s of
        None \<Rightarrow> None
      | Some eq \<Rightarrow>
          (let rhs = trim (drop (eq + 1) s);
               rhs = (case strip_suffix '';'' rhs of Some r \<Rightarrow> trim r | None \<Rightarrow> rhs) in
           if rhs = [] then None else Some rhs))"

definition depth_change :: "char \<Rightarrow> int" where
  "depth_change c =
     (if c \<in> {CHR ''('', CHR ''['', CHR ''{''} then 1
      else if c \<in> {CHR '')'', CHR '']'', CHR ''}''} then - 1 else 0)"

text \<open>The byte loop of \<open>split_top_level_commas\<close>; \<open>current\<close> is the text since the last comma.\<close>

fun split_loop :: "string \<Rightarrow> bool \<Rightarrow> char \<Rightarrow> int \<Rightarrow> string \<Rightarrow> string list" where
  "split_loop [] in_string prev depth current =
     (let last_token = trim current in if last_token = [] then [] else [last_token])"
| "split_loop (c # s) in_string prev depth current =
     (if in_string then split_loop s (\<not> (c = dquote \<and> prev \<noteq> backslash)) c depth (current @ [c])
      else if c = CHR '','' \<and> depth = 0 then trim current # split_loop s False c depth []
      else split_loop s (c = dquote) c (depth + depth_change c) (current @ [c]))"

definition split_top_level_commas :: "string \<Rightarrow> string list" where
  "split_top_level_commas s = split_loop s False (CHR 0x00) 0 []"

definition parse_int_literal :: "string \<Rightarrow> int option" where
  "parse_int_literal s =
     (let s = trim s in
      if s = ''true'' then Some 1
      else if s = ''false'' then Some 0
      else parse_i64 (filter (\<lambda>c. c \<noteq> CHR ''_'') s))"

section \<open>Macro calls\<close>

text \<open>The text of a string literal up to its closing quote, and what follows it.\<close>

fun read_quoted :: "string \<Rightarrow> string \<Rightarrow> (string \<times> string) option" where
  "read_quoted [] acc = None"
| "read_quoted [c] acc = (if c = dquote then Some (acc, []) else None)"
| "read_quoted (c # d # s) acc =
     (if c = dquote then Some (acc, d # s)
      else if c = backslash then read_quoted s (acc @ [c, d])
      else read_quoted (d # s) (acc @ [c]))"

text \<open>Every closing delimiter lowers the depth, only one of the right kind ends the search.\<close>

fun close_at :: "char \<Rightarrow> string \<Rightarrow> bool \<Rightarrow> char \<Rightarrow> int \<Rightarrow> nat" where
  "close_at close [] in_string prev depth = 0"
| "close_at close (c # s) in_string prev depth =
     (if in_string then Suc (close_at close s (\<not> (c = dquote \<and> prev \<noteq> backslash)) c depth)
      else if c = close \<and> depth - 1 = 0 then 0
      else Suc (close_at close s (c = dquote) c (depth + depth_change c)))"

definition closer :: "char \<Rightarrow> char option" where
  "closer c =
     (if c = CHR ''('' then Some (CHR '')'') else if c = CHR ''['' then Some (CHR '']'')
      else if c = CHR ''{'' then Some (CHR ''}'') else None)"

definition macro_args :: "char \<Rightarrow> string \<Rightarrow> string list" where
  "macro_args close tail =
     (case strip_prefix '','' (trim_start tail) of
        None \<Rightarrow> []
      | Some rest \<Rightarrow>
          filter (\<lambda>t. t \<noteq> [])
            (map trim (split_top_level_commas (take (close_at close rest False (CHR '' '') 1) rest))))"

definition extract_macro_call :: "string \<Rightarrow> string \<Rightarrow> (string \<times> string list) option" where
  "extract_macro_call line macro_name =
     Option.bind (find_str (macro_name @ ''!'') line) (\<lambda>i.
     let after = trim_start (drop (i + length (macro_name @ ''!'')) line) in
     case after of
       [] \<Rightarrow> None
     | opener # after \<Rightarrow>
         Option.bind (closer opener) (\<lambda>close.
         Option.bind (find_char dquote after) (\<lambda>q.
         Option.bind (read_quoted (drop (q + 1) after) []) (\<lambda>(content, tail).
         Some (content, macro_args close tail)))))"

section \<open>Variables and registers\<close>

text \<open>\<open>emit_as_int\<close> is a hash set, kept as the list of its elements; whoever iterates over
  it takes the order as a parameter.\<close>

record VarEnv =
  ve_names :: "(string \<times> nat) list"
  emit_as_int :: "string list"

definition new_env :: VarEnv where
  "new_env = \<lparr>ve_names = [], emit_as_int = []\<rparr>"

definition bind_name :: "string \<Rightarrow> nat \<Rightarrow> VarEnv \<Rightarrow> VarEnv" where
  "bind_name name r env = env\<lparr>ve_names := AList.update name r (ve_names env)\<rparr>"

definition emit_name :: "string \<Rightarrow> VarEnv \<Rightarrow> VarEnv" where
  "emit_name name env = env\<lparr>emit_as_int := List.insert name (emit_as_int env)\<rparr>"

definition param_name :: "string \<Rightarrow> string" where
  "param_name t =
     trim_start_char (CHR ''&'') (trim_start_char (CHR ''_'')
       (trim_start_str ''mut '' (trim_start_char (CHR ''&'') (trim (takeWhile (\<lambda>c. c \<noteq> CHR '':'') t)))))"

text \<open>The loop over the parameters, with the register of the next one.\<close>

fun load_params :: "string list \<Rightarrow> nat \<Rightarrow> VarEnv \<Rightarrow> VarEnv" where
  "load_params [] idx env = env"
| "load_params (tok # toks) idx env =
     (let t = trim tok in
      if t = [] \<or> t \<in> {''self'', ''&self'', ''&mut self'', ''mut self''} then load_params toks idx env
      else (let name = param_name t in
            load_params toks (idx + 1)
              (if name \<noteq> [] \<and> list_all ident_char name \<and> idx \<le> 10
               then emit_name name (bind_name name idx env) else env)))"

definition load_params_from_fn :: "string \<Rightarrow> VarEnv \<Rightarrow> VarEnv" where
  "load_params_from_fn fn_decl_line env =
     (case find_char (CHR ''('') fn_decl_line of
        None \<Rightarrow> env
      | Some op' \<Rightarrow>
          (let rest = drop (op' + 1) fn_decl_line in
           case find_char (CHR '')'') rest of
             None \<Rightarrow> env
           | Some close_off \<Rightarrow> load_params (split_top_level_commas (take close_off rest)) 1 env))"

definition record_let :: "string \<Rightarrow> u64 list \<Rightarrow> RegisterSnapshot \<Rightarrow> VarEnv \<Rightarrow> VarEnv" where
  "record_let name prev snap env =
     (case List.find (\<lambda>r. registers snap ! r \<noteq> prev ! r) [1..<11] of
        Some r \<Rightarrow> emit_name name (bind_name name r env)
      | None \<Rightarrow> env)"

definition resolve_arg :: "VarEnv \<Rightarrow> string \<Rightarrow> RegisterSnapshot \<Rightarrow> int option" where
  "resolve_arg env expr snap =
     (let s = trim (trim_start_str ''mut '' (trim_start_char (CHR ''*'') (trim_start_char (CHR ''&'') (trim expr)))) in
      case parse_int_literal s of
        Some i \<Rightarrow> Some i
      | None \<Rightarrow> map_option (\<lambda>r. sint (registers snap ! r)) (map_of (ve_names env) s))"

section \<open>Format strings\<close>

text \<open>\<open>out.push(c as char)\<close>: a byte beyond ASCII is the character of that code, two bytes
  of UTF-8.\<close>

definition byte_as_char :: "char \<Rightarrow> string" where
  "byte_as_char c =
     (let k = (of_char c :: nat) in
      if k < 128 then [c] else [char_of (192 + k div 64), char_of (128 + k mod 64)])"

function subst_loop :: "VarEnv \<Rightarrow> RegisterSnapshot \<Rightarrow> string \<Rightarrow> string list \<Rightarrow> string \<times> bool" where
  "subst_loop env snap [] args = ([], args = [])"
| "subst_loop env snap (c # s) args =
     (if c = CHR ''{'' \<and> is_prefix ''{'' s then apfst ((@) ''{'') (subst_loop env snap (tl s) args)
      else if c = CHR ''}'' \<and> is_prefix ''}'' s then apfst ((@) ''}'') (subst_loop env snap (tl s) args)
      else if c = CHR ''{'' then
        (case find_char (CHR ''}'') s of
           None \<Rightarrow> apfst ((@) ''{'') (subst_loop env snap s args)
         | Some k \<Rightarrow>
             (let spec = take k s; name_part = takeWhile (\<lambda>c. c \<noteq> CHR '':'') spec;
                  resolved = (if name_part = []
                              then (case args of a # _ \<Rightarrow> resolve_arg env a snap | [] \<Rightarrow> None)
                              else resolve_arg env name_part snap);
                  args' = (if name_part = [] then tl args else args);
                  (out, ok) = subst_loop env snap (drop (k + 1) s) args' in
              case resolved of
                Some v \<Rightarrow> (dec_int v @ out, ok)
              | None \<Rightarrow> (''{'' @ spec @ ''}'' @ out, False)))
      else apfst ((@) (byte_as_char c)) (subst_loop env snap s args))"
  by pat_completeness auto
termination by (relation "measure (\<lambda>(env, snap, s, args). length s)") auto

declare subst_loop.simps [simp del]

definition substitute_format :: "string \<Rightarrow> string list \<Rightarrow> VarEnv \<Rightarrow> RegisterSnapshot \<Rightarrow> string \<times> bool" where
  "substitute_format fmt args env snap = subst_loop env snap fmt args"

section \<open>The functions of a file are apart\<close>

lemma function_ranges_ok:
  assumes "length ls \<le> 2 ^ 32"
  shows "sorted_wrt (\<lambda>(_, e, _) (s, _, _). e < s) (function_ranges ls i)
       \<and> (\<forall>(s, e, name) \<in> set (function_ranges ls i).
            i \<le> unat s \<and> s \<le> e \<and> unat e < length ls \<and> match_fn_declaration (ls ! unat s) = Some name)"
  using assms
proof (induction ls i rule: function_ranges.induct)
  case (1 ls i)
  have small: "unat (of_nat k :: u32) = k" if "k < length ls" for k
    using that 1(3) by (simp add: unat_of_nat)
  show ?case
  proof (cases "i < length ls")
    case False
    then show ?thesis by (simp add: function_ranges.simps [of ls i])
  next
    case i: True
    show ?thesis
    proof (cases "match_fn_declaration (ls ! i)")
      case None
      with 1(1) [OF i None 1(3)] i show ?thesis
        by (fastforce simp: function_ranges.simps [of ls i])
    next
      case name: (Some name)
      show ?thesis
      proof (cases "body_end (drop i ls) i False 0")
        case None
        with i name small [OF i] show ?thesis by (simp add: function_ranges.simps [of ls i])
      next
        case (Some j)
        then have j: "i \<le> j" "j < length ls" using body_end_bounds [OF Some] i by auto
        have "(of_nat i :: u32) \<le> of_nat j" using j small i by (simp add: word_le_nat_alt)
        moreover have "(of_nat j :: u32) < s" if "j + 1 \<le> unat s" for s
          using that small [OF j(2)] by (simp add: word_less_nat_alt)
        ultimately show ?thesis
          using 1(2) [OF i name Some 1(3)] i name Some j small [OF i] small [OF j(2)]
          by (fastforce simp: function_ranges.simps [of ls i])
      qed
    qed
  qed
qed

lemma min_by_key_in: "min_by_key f xs = Some x \<Longrightarrow> x \<in> set xs"
  by (induction f xs arbitrary: x rule: min_by_key.induct) (auto split: option.splits if_splits)

lemma min_by_key_None: "min_by_key f xs = None \<longleftrightarrow> xs = []"
  by (cases xs) (auto split: option.splits)

text \<open>Of entries apart from one another at most one covers a line.\<close>

lemma covering_unique:
  fixes l :: u32
  assumes "sorted_wrt (\<lambda>(_, e, _) (s, _, _). e < s) fs"
    and "(s, e, m) \<in> set fs" "s \<le> l" "l \<le> e" "(s', e', n) \<in> set fs" "s' \<le> l" "l \<le> e'"
  shows "(s, e, m) = (s', e', n)"
  using assms
proof (induction fs)
  case (Cons f fs)
  have later: "\<not> l \<le> fst (snd f)" if "(a, b, k) \<in> set fs" "a \<le> l" for a b k
  proof -
    have "fst (snd f) < a" using Cons.prems(1) that(1) by (cases f) force
    with that(2) show ?thesis by simp
  qed
  show ?case
    using Cons.IH Cons.prems later [of s e m] later [of s' e' n] by (cases f) auto
qed simp

text \<open>
  C19: the functions found in a source file are apart, so a line lies in at most one. The
  ranges come in order without overlap, each starts at the line that declares its function,
  and \<open>function_at\<close> names a function exactly when its range covers the line. The search for
  the innermost of several covering functions never has a choice to make.
\<close>

theorem functions_apart:
  assumes "length (sm_lines (load_model read path)) \<le> 2 ^ 32"
  shows "let M = load_model read path in
     sorted_wrt (\<lambda>(_, e, _) (s, _, _). e < s) (sm_functions M)
     \<and> (\<forall>(s, e, name) \<in> set (sm_functions M). 1 \<le> s \<and> s \<le> e \<and> unat e < length (sm_lines M)
          \<and> match_fn_declaration (model_line M s) = Some name)
     \<and> (\<forall>l name. fn_at M l = Some name \<longleftrightarrow>
          (\<exists>s e. (s, e, name) \<in> set (sm_functions M) \<and> s \<le> l \<and> l \<le> e))"
proof -
  define M where M: "M = load_model read path"
  have fns: "sm_functions M = function_ranges (sm_lines M) 1"
    by (auto simp: M load_model_def default_model_def parse_function_ranges_def function_ranges.simps [of "[]"]
        Let_def split: option.splits)
  note ranges = function_ranges_ok [OF assms, of 1, folded M, folded fns]
  note sorted = ranges [THEN conjunct1] and each = ranges [THEN conjunct2]
  have each': "1 \<le> s \<and> s \<le> e \<and> unat e < length (sm_lines M) \<and> match_fn_declaration (model_line M s) = Some name"
    if "(s, e, name) \<in> set (sm_functions M)" for s e name
    using that each le_less_trans [of "unat s" "unat e"]
    by (fastforce simp: word_le_nat_alt model_line_def nth_opt_def)
  have at: "fn_at M l = Some name \<longleftrightarrow> (\<exists>s e. (s, e, name) \<in> set (sm_functions M) \<and> s \<le> l \<and> l \<le> e)" for l name
  proof
    assume "fn_at M l = Some name"
    then obtain s e where "min_by_key (\<lambda>(s, e, name). e - s)
        (filter (\<lambda>(s, e, name). s \<le> l \<and> l \<le> e) (sm_functions M)) = Some (s, e, name)"
      by (auto simp: fn_at_def)
    from min_by_key_in [OF this] show "\<exists>s e. (s, e, name) \<in> set (sm_functions M) \<and> s \<le> l \<and> l \<le> e" by auto
  next
    assume "\<exists>s e. (s, e, name) \<in> set (sm_functions M) \<and> s \<le> l \<and> l \<le> e"
    then obtain s e where se: "(s, e, name) \<in> set (sm_functions M)" "s \<le> l" "l \<le> e" by blast
    let ?c = "filter (\<lambda>(s, e, name). s \<le> l \<and> l \<le> e) (sm_functions M)"
    from se have "?c \<noteq> []" by (auto simp: filter_empty_conv)
    then obtain x where x: "min_by_key (\<lambda>(s, e, name). e - s) ?c = Some x"
      by (meson min_by_key_None not_None_eq)
    obtain s' e' n where x': "x = (s', e', n)" by (cases x)
    with min_by_key_in [OF x] have "(s', e', n) \<in> set (sm_functions M)" "s' \<le> l" "l \<le> e'" by auto
    from covering_unique [OF sorted se this] x x' show "fn_at M l = Some name" by (simp add: fn_at_def)
  qed
  show ?thesis unfolding Let_def M [symmetric] using sorted each' at by blast
qed

definition sample_text :: string where
  "sample_text = ''fn f() {'' @ [CHR 0x0A] @ ''}'' @ [CHR 0x0A] @ ''fn g() {}''"

lemma sample_model:
  "load_model (\<lambda>p. Some sample_text) ''m.rs'' =
     \<lparr>sm_lines = [[], ''fn f() {'', ''}'', ''fn g() {}''], sm_functions = [(1, 2, ''f''), (3, 3, ''g'')]\<rparr>"
  by code_simp

theorem functions_apart_witness:
  "fn_at (load_model (\<lambda>p. Some sample_text) ''m.rs'') 2 = Some ''f''"
proof -
  let ?M = "load_model (\<lambda>p. Some sample_text) ''m.rs''"
  have "fn_at ?M 2 = Some ''f'' \<longleftrightarrow> (\<exists>s e. (s, e, ''f'') \<in> set (sm_functions ?M) \<and> s \<le> 2 \<and> 2 \<le> e)"
    using functions_apart [of "\<lambda>p. Some sample_text" "''m.rs''", unfolded Let_def] by (simp add: sample_model)
  then show ?thesis by (simp add: sample_model)
qed

section \<open>Splitting at commas\<close>

text \<open>Text that opens and closes its own brackets and strings, and has no comma outside.\<close>

fun closed_from :: "string \<Rightarrow> bool \<Rightarrow> char \<Rightarrow> int \<Rightarrow> bool" where
  "closed_from [] in_string prev depth \<longleftrightarrow> \<not> in_string \<and> depth = 0"
| "closed_from (c # s) in_string prev depth \<longleftrightarrow>
     (if in_string then closed_from s (\<not> (c = dquote \<and> prev \<noteq> backslash)) c depth
      else if c = CHR '','' \<and> depth = 0 then False
      else closed_from s (c = dquote) c (depth + depth_change c))"

definition element :: "string \<Rightarrow> bool" where
  "element s \<longleftrightarrow> s \<noteq> [] \<and> tight s \<and> closed_from s False (CHR 0x00) 0"

lemma split_loop_prev: "split_loop s False p depth current = split_loop s False q depth current"
  by (cases s) simp_all

lemma split_loop_closed:
  "closed_from s in_string prev depth \<Longrightarrow>
   split_loop (s @ u) in_string prev depth current = split_loop u False (CHR 0x00) 0 (current @ s)"
proof (induction s in_string prev depth arbitrary: current rule: closed_from.induct)
  case (1 in_string prev depth)
  then show ?case using split_loop_prev [of u prev 0 current "CHR 0x00"] by simp
next
  case (2 c s in_string prev depth)
  show ?case
  proof (cases in_string)
    case True
    with 2 show ?thesis by simp
  next
    case False
    with 2 show ?thesis by (cases "c = CHR '','' \<and> depth = 0") auto
  qed
qed

fun join_list :: "string list \<Rightarrow> string" where
  "join_list [] = []"
| "join_list [x] = x"
| "join_list (x # y # ys) = x @ '', '' @ join_list (y # ys)"

lemma tight_blank: "tight s \<Longrightarrow> trim (CHR '' '' # s) = s"
  by simp

lemma split_join_from:
  "list_all element (x # xs) \<Longrightarrow> current \<in> {[], '' ''} \<Longrightarrow>
   split_loop (join_list (x # xs)) False (CHR 0x00) 0 current = x # xs"
proof (induction xs arbitrary: x current)
  case Nil
  then show ?case using split_loop_closed [of x False "CHR 0x00" 0 "[]" current] by (auto simp: element_def)
next
  case (Cons y ys)
  have "split_loop ('', '' @ join_list (y # ys)) False (CHR 0x00) 0 (current @ x)
      = trim (current @ x) # split_loop (join_list (y # ys)) False (CHR 0x00) 0 '' ''"
    using split_loop_prev [of "join_list (y # ys)" "CHR '' ''" 0 "'' ''" "CHR 0x00"]
    by (simp add: depth_change_def)
  moreover have "trim (current @ x) = x" using Cons.prems by (auto simp: element_def)
  ultimately show ?case
    using Cons split_loop_closed [of x False "CHR 0x00" 0 "'', '' @ join_list (y # ys)" current]
    by (simp add: element_def)
qed

lemma split_join: "list_all element xs \<Longrightarrow> split_top_level_commas (join_list xs) = xs"
  by (cases xs) (auto simp: split_top_level_commas_def split_join_from simp del: join_list.simps(3),
      simp add: tight_def trim_def trim_start_def trim_end_def)

section \<open>Integer literals\<close>

lemma dec_int_no_underscore: "filter (\<lambda>c. c \<noteq> CHR ''_'') (dec_int i) = dec_int i"
  using dec_nat_digits(2) [of "nat i"] dec_nat_digits(2) [of "nat (- i)"]
  by (auto simp: dec_int_def filter_id_conv list_all_iff is_ascii_digit_def)

lemma dec_int_chars: "c \<in> set (dec_int i) \<Longrightarrow> is_ascii_digit c \<or> c = CHR ''-''"
  using dec_nat_digits(2) [of "nat i"] dec_nat_digits(2) [of "nat (- i)"]
  by (auto simp: dec_int_def list_all_iff split: if_splits)

lemma parse_int_dec:
  assumes "- (2 ^ 63) \<le> i" "i < 2 ^ 63"
  shows "parse_int_literal (dec_int i) = Some i"
proof -
  have "CHR ''t'' \<notin> set (dec_int i)" "CHR ''f'' \<notin> set (dec_int i)"
    by (auto dest!: dec_int_chars simp: is_ascii_digit_def)
  then have "dec_int i \<noteq> ''true''" "dec_int i \<noteq> ''false''" by auto
  with assms show ?thesis
    by (simp add: parse_int_literal_def dec_int_tight dec_int_no_underscore parse_dec_int)
qed

section \<open>Format strings are filled in\<close>

text \<open>A format string by its pieces: text, \<open>{}\<close>, and \<open>{name}\<close>.\<close>

datatype piece = Text string | Hole | Named string

definition escape_braces :: "string \<Rightarrow> string" where
  "escape_braces s = concat (map (\<lambda>c. if c = CHR ''{'' \<or> c = CHR ''}'' then [c, c] else [c]) s)"

fun render_piece :: "piece \<Rightarrow> string" where
  "render_piece (Text s) = escape_braces s"
| "render_piece Hole = ''{}''"
| "render_piece (Named n) = ''{'' @ n @ ''}''"

fun piece_ok :: "piece \<Rightarrow> bool" where
  "piece_ok (Text s) \<longleftrightarrow> list_all (\<lambda>c. (of_char c :: nat) < 128) s"
| "piece_ok Hole \<longleftrightarrow> True"
| "piece_ok (Named n) \<longleftrightarrow> n \<noteq> [] \<and> list_all ident_char n"

text \<open>What the pieces mean: every hole takes the next argument, none is left over.\<close>

fun fill :: "VarEnv \<Rightarrow> RegisterSnapshot \<Rightarrow> piece list \<Rightarrow> string list \<Rightarrow> string option" where
  "fill env snap [] args = (if args = [] then Some [] else None)"
| "fill env snap (Text s # ps) args = map_option ((@) s) (fill env snap ps args)"
| "fill env snap (Hole # ps) args =
     (case args of
        [] \<Rightarrow> None
      | a # as \<Rightarrow> Option.bind (resolve_arg env a snap) (\<lambda>v. map_option ((@) (dec_int v)) (fill env snap ps as)))"
| "fill env snap (Named n # ps) args =
     Option.bind (resolve_arg env n snap) (\<lambda>v. map_option ((@) (dec_int v)) (fill env snap ps args))"

lemma subst_text:
  "list_all (\<lambda>c. (of_char c :: nat) < 128) s \<Longrightarrow>
   subst_loop env snap (escape_braces s @ u) args = apfst ((@) s) (subst_loop env snap u args)"
proof (induction s)
  case Nil
  then show ?case by (simp add: escape_braces_def apfst_def map_prod_def split: prod.splits)
next
  case (Cons c s)
  then show ?case
    by (auto simp: escape_braces_def subst_loop.simps is_prefix_def byte_as_char_def apfst_def map_prod_def
        split: prod.splits)
qed

lemma subst_hole:
  "subst_loop env snap (''{}'' @ u) args =
     (let resolved = (case args of a # _ \<Rightarrow> resolve_arg env a snap | [] \<Rightarrow> None);
          (out, ok) = subst_loop env snap u (tl args) in
      case resolved of Some v \<Rightarrow> (dec_int v @ out, ok) | None \<Rightarrow> (''{}'' @ out, False))"
  by (simp add: subst_loop.simps(2) [of env snap "CHR ''{''"] is_prefix_def find_char_def
      split: prod.splits option.splits)

lemma position_here: "list_all (\<lambda>x. \<not> P x) s \<Longrightarrow> P c \<Longrightarrow> position P (s @ c # u) = Some (length s)"
  by (induction s) auto

lemma ident_not: "ident_char c \<Longrightarrow> c \<noteq> CHR ''{'' \<and> c \<noteq> CHR ''}'' \<and> c \<noteq> CHR '':''"
  by (auto simp: ident_char_def is_ascii_digit_def is_ascii_uppercase_def is_ascii_lowercase_def)

lemma subst_named:
  assumes "n \<noteq> []" "list_all ident_char n"
  shows "subst_loop env snap (''{'' @ n @ ''}'' @ u) args =
     (let (out, ok) = subst_loop env snap u args in
      case resolve_arg env n snap of
        Some v \<Rightarrow> (dec_int v @ out, ok) | None \<Rightarrow> (''{'' @ n @ ''}'' @ out, False))"
proof -
  have n: "\<forall>c \<in> set n. c \<noteq> CHR ''{'' \<and> c \<noteq> CHR ''}'' \<and> c \<noteq> CHR '':''"
    using assms(2) ident_not by (auto simp: list_all_iff)
  then have "find_char (CHR ''}'') (n @ CHR ''}'' # u) = Some (length n)"
    unfolding find_char_def by (intro position_here) (auto simp: list_all_iff)
  moreover have tw: "takeWhile (\<lambda>c. c \<noteq> CHR '':'') n = n" using n by (auto simp: takeWhile_eq_all_conv)
  moreover have "\<not> is_prefix ''{'' (n @ CHR ''}'' # u)" using n assms(1) by (cases n) (auto simp: is_prefix_def)
  ultimately show ?thesis
    using assms(1) by (simp add: subst_loop.simps(2) [of env snap "CHR ''{''"] tw Let_def)
qed

text \<open>
  C20: format strings are filled in as \<open>format!\<close> would. For a format string of ASCII text with
  escaped braces, \<open>{}\<close> and \<open>{name}\<close>, the substitution succeeds exactly when every placeholder
  has a value and no argument is left over, and then the result is the text with the values
  of the placeholders, in order, in decimal.
\<close>

theorem substitute_format_fills:
  assumes "list_all piece_ok ps"
  shows "case fill env snap ps args of
     Some out \<Rightarrow> substitute_format (concat (map render_piece ps)) args env snap = (out, True)
   | None \<Rightarrow> \<not> snd (substitute_format (concat (map render_piece ps)) args env snap)"
  using assms unfolding substitute_format_def
proof (induction ps arbitrary: args)
  case Nil
  then show ?case by (simp add: subst_loop.simps)
next
  case (Cons p ps)
  then have IH: "case fill env snap ps as of
     Some out \<Rightarrow> subst_loop env snap (concat (map render_piece ps)) as = (out, True)
   | None \<Rightarrow> \<not> snd (subst_loop env snap (concat (map render_piece ps)) as)" for as by simp
  show ?case
  proof (cases p)
    case (Text s)
    with Cons.prems IH [of args] subst_text [of s env snap "concat (map render_piece ps)" args]
    show ?thesis by (auto split: option.splits)
  next
    case Hole
    with IH [of "tl args"] subst_hole [of env snap "concat (map render_piece ps)" args]
    show ?thesis by (cases args) (auto split: option.splits prod.splits)
  next
    case (Named n)
    with Cons.prems IH [of args] subst_named [of n env snap "concat (map render_piece ps)" args]
    show ?thesis by (auto split: option.splits prod.splits)
  qed
qed

theorem substitute_format_fills_witness:
  "substitute_format ''{{r1}} is {} of {n}'' [''7''] \<lparr>ve_names = [(''n'', 1)], emit_as_int = []\<rparr>
     \<lparr>registers = replicate 12 9\<rparr> = (''{r1} is 7 of 9'', True)"
proof -
  let ?ps = "[Text ''{r1} is '', Hole, Text '' of '', Named ''n'']"
  let ?env = "\<lparr>ve_names = [(''n'', 1)], emit_as_int = []\<rparr>"
  let ?snap = "\<lparr>registers = replicate 12 9\<rparr>"
  have fmt: "concat (map render_piece ?ps) = ''{{r1}} is {} of {n}''" by code_simp
  have out: "fill ?env ?snap ?ps [''7''] = Some ''{r1} is 7 of 9''" by code_simp
  have "list_all piece_ok ?ps" by code_simp
  from substitute_format_fills [OF this, of "[''7'']" ?env ?snap] show ?thesis
    unfolding fmt out option.case .
qed

end
