(* ===== verification/Source_Literals.thy ===== *)
theory Source_Literals
  imports Source_Text Trace_Writer
begin

text \<open>
  \<open>src/recorder.rs\<close>, the value literals of the source text: recognising arrays, tuples,
  structs, enum variants and borrowed slices on the right of a \<open>let\<close>, and decoding them into
  values of the trace, with the cache of the types they use.
\<close>

section \<open>Type identifiers\<close>

record TypeIdCache =
  tc_int :: type_id
  tc_seq :: type_id
  tc_tuple :: type_id
  tc_string :: type_id
  struct_default :: type_id
  variant_default :: type_id
  structs :: "string \<Rightarrow> type_id option"
  variants :: "string \<Rightarrow> type_id option"

type_synonym synth = "TypeIdCache \<times> trace"

definition new_type_ids :: "ids \<Rightarrow> trace \<Rightarrow> synth" where
  "new_type_ids W t0 =
     (let (i, t1) = ensure_type_id W KInt ''u64'' t0;
          (s, t2) = ensure_type_id W KSeq ''Vec<u64>'' t1;
          (tu, t3) = ensure_type_id W KTuple ''(u64, u64)'' t2;
          (st, t4) = ensure_type_id W KString ''string'' t3;
          (sd, t5) = ensure_type_id W KStruct ''Struct'' t4;
          (vd, t6) = ensure_type_id W KVariant ''Variant'' t5 in
      (\<lparr>tc_int = i, tc_seq = s, tc_tuple = tu, tc_string = st, struct_default = sd, variant_default = vd,
        structs = Map.empty, variants = Map.empty\<rparr>, t6))"

definition ensure_struct :: "ids \<Rightarrow> string \<Rightarrow> synth \<Rightarrow> type_id \<times> synth" where
  "ensure_struct W name = (\<lambda>(C, t).
     case structs C name of
       Some i \<Rightarrow> (i, C, t)
     | None \<Rightarrow>
         (let (i, t) = ensure_type_id W KStruct name t in
          (i, C\<lparr>structs := (structs C)(name \<mapsto> i)\<rparr>, t)))"

definition struct_type_for :: "string \<Rightarrow> TypeIdCache \<Rightarrow> type_id option" where
  "struct_type_for name C = structs C name"

definition ensure_variant :: "ids \<Rightarrow> string \<Rightarrow> synth \<Rightarrow> type_id \<times> synth" where
  "ensure_variant W enum_path = (\<lambda>(C, t).
     case variants C enum_path of
       Some i \<Rightarrow> (i, C, t)
     | None \<Rightarrow>
         (let (i, t) = ensure_type_id W KVariant enum_path t in
          (i, C\<lparr>variants := (variants C)(enum_path \<mapsto> i)\<rparr>, t)))"

interpretation struct_types: memo_table "\<lambda>(C, t). structs C" "ensure_struct W" for W
  by unfold_locales (auto simp: ensure_struct_def map_le_def split: prod.splits option.splits)

interpretation variant_types: memo_table "\<lambda>(C, t). variants C" "ensure_variant W" for W
  by unfold_locales (auto simp: ensure_variant_def map_le_def split: prod.splits option.splits)

section \<open>Recognising literals\<close>

definition is_borrowed_slice_rhs :: "string \<Rightarrow> bool" where
  "is_borrowed_slice_rhs rhs =
     (let trimmed = trim rhs in
      contains_str ''.try_borrow_data('' trimmed \<or> contains_str ''.try_borrow_mut_data('' trimmed
      \<or> (let body = strip_or ''mut '' (strip_or ''&'' trimmed) in
          case find_char (CHR ''['') body of
            None \<Rightarrow> False
          | Some op' \<Rightarrow>
              (let ident = trim (take op' body); after = drop (op' + 1) body in
               ident \<noteq> [] \<and> list_all ident_char ident
               \<and> (case find_char (CHR '']'') after of
                    None \<Rightarrow> False
                  | Some close \<Rightarrow> contains_str ''..'' (take close after)))))"

definition extract_array_or_vec_literal :: "string \<Rightarrow> string option" where
  "extract_array_or_vec_literal rhs =
     (case strip_prefix ''vec!['' rhs of
        Some after \<Rightarrow> map_option (\<lambda>e. trim (take e after)) (rfind_char (CHR '']'') after)
      | None \<Rightarrow>
          (case strip_prefix ''['' (trim (trim_start_char (CHR ''&'') rhs)) of
             None \<Rightarrow> None
           | Some after \<Rightarrow>
               (case rfind_char (CHR '']'') after of
                  None \<Rightarrow> None
                | Some e \<Rightarrow>
                    (let inner = trim (take e after) in
                     if contains_str '';'' inner \<or> inner = [] then None else Some inner))))"

definition extract_tuple_literal :: "string \<Rightarrow> string option" where
  "extract_tuple_literal rhs =
     (case strip_prefix ''('' (trim rhs) of
        None \<Rightarrow> None
      | Some after \<Rightarrow>
          (case rfind_char (CHR '')'') after of
             None \<Rightarrow> None
           | Some e \<Rightarrow>
               (let inner = trim (take e after) in
                if inner = [] \<or> length (split_top_level_commas inner) < 2 then None else Some inner)))"

definition int_elements :: "string \<Rightarrow> int list" where
  "int_elements csv = List.map_filter parse_int_literal (split_top_level_commas csv)"

definition build_sequence_value :: "string \<Rightarrow> type_id \<Rightarrow> type_id \<Rightarrow> value_record" where
  "build_sequence_value csv int_type seq_type =
     SequenceV (map (\<lambda>i. IntV i int_type) (int_elements csv)) False seq_type"

definition build_tuple_value :: "string \<Rightarrow> type_id \<Rightarrow> type_id \<Rightarrow> value_record" where
  "build_tuple_value csv int_type tuple_type =
     TupleV (map (\<lambda>i. IntV i int_type) (int_elements csv)) tuple_type"

section \<open>Enum variants and structs\<close>

datatype VariantPayload = StructPayload "(string \<times> int) list" | TuplePayload "int list" | UnitPayload

definition starts_upper :: "string \<Rightarrow> bool" where
  "starts_upper s \<longleftrightarrow> s \<noteq> [] \<and> is_ascii_uppercase (hd s)"

text \<open>The text without leading \<open>&\<close> and one \<open>mut\<close>.\<close>

definition strip_borrow :: "string \<Rightarrow> string" where
  "strip_borrow rhs = strip_or ''mut '' (trim (trim_start_char (CHR ''&'') rhs))"

text \<open>The path before the first brace, parenthesis or blank.\<close>

fun head_end :: "string \<Rightarrow> nat" where
  "head_end [] = 0"
| "head_end (c # s) =
     (if c = CHR ''{'' \<or> c = CHR ''('' \<or> leading whitespace (c # s) > 0 then 0 else Suc (head_end s))"

definition int_field :: "string \<Rightarrow> (string \<times> int) option" where
  "int_field tok =
     (case find_char (CHR '':'') tok of
        None \<Rightarrow> None
      | Some colon \<Rightarrow>
          map_option (\<lambda>i. (trim (take colon tok), i)) (parse_int_literal (trim (drop (colon + 1) tok))))"

definition variant_payload :: "string \<Rightarrow> VariantPayload option" where
  "variant_payload tail =
     (case strip_prefix ''{'' tail of
        Some after_brace \<Rightarrow>
          map_option (\<lambda>close. StructPayload (List.map_filter int_field (split_top_level_commas (take close after_brace))))
            (rfind_char (CHR ''}'') after_brace)
      | None \<Rightarrow>
          (case strip_prefix ''('' tail of
             Some after_paren \<Rightarrow>
               map_option (\<lambda>close. TuplePayload (int_elements (trim (take close after_paren))))
                 (rfind_char (CHR '')'') after_paren)
           | None \<Rightarrow> if tail = [] \<or> tail = '';'' then Some UnitPayload else None))"

definition parse_variant_construction :: "string \<Rightarrow> (string \<times> string \<times> VariantPayload) option" where
  "parse_variant_construction rhs0 =
     (let rhs = strip_borrow rhs0; e = head_end rhs; head = trim (take e rhs) in
      if head = [] then None
      else case rfind_str ''::'' head of
        None \<Rightarrow> None
      | Some i \<Rightarrow>
          (let enum_path = trim (take i head); variant = trim (drop (i + 2) head) in
           if \<not> starts_upper head \<or> enum_path = [] \<or> variant = [] \<or> \<not> starts_upper variant then None
           else map_option (\<lambda>p. (enum_path, variant, p)) (variant_payload (trim (drop e rhs)))))"

text \<open>The name and the body of \<open>Name { .. }\<close>, shared by the two struct parsers.\<close>

definition struct_parts :: "string \<Rightarrow> (string \<times> string) option" where
  "struct_parts rhs0 =
     (let rhs = strip_borrow rhs0 in
      case find_char (CHR ''{'') rhs of
        None \<Rightarrow> None
      | Some brace \<Rightarrow>
          (let name = trim (take brace rhs) in
           if \<not> starts_upper name then None
           else case rfind_char (CHR ''}'') rhs of
             None \<Rightarrow> None
           | Some close \<Rightarrow>
               if close \<le> brace then None else Some (name, take (close - (brace + 1)) (drop (brace + 1) rhs))))"

text \<open>A token without a colon makes the whole literal fail here, a value that is no integer
  only loses its field.\<close>

definition parse_struct_literal :: "string \<Rightarrow> (string \<times> (string \<times> int) list) option" where
  "parse_struct_literal rhs =
     (case struct_parts rhs of
        None \<Rightarrow> None
      | Some (name, body) \<Rightarrow>
          (let toks = split_top_level_commas body in
           if list_all (\<lambda>t. CHR '':'' \<in> set t) toks then Some (name, List.map_filter int_field toks) else None))"

definition parse_string_literal :: "string \<Rightarrow> string option" where
  "parse_string_literal s = Option.bind (strip_prefix [dquote] (trim s)) (strip_suffix [dquote])"

definition pubkey_call_to_string :: "string \<Rightarrow> string option" where
  "pubkey_call_to_string rhs =
     (let s = trim rhs in
      if s = ''Pubkey::default()'' then Some ''11111111111111111111111111111111''
      else case strip_prefix ''Pubkey::new_from_array('' s of
        None \<Rightarrow> None
      | Some after \<Rightarrow>
          map_option (\<lambda>close. ''Pubkey::new_from_array('' @ trim (take close after) @ '')'')
            (rfind_char (CHR '')'') after))"

definition rhs_is_structured :: "string \<Rightarrow> bool" where
  "rhs_is_structured rhs \<longleftrightarrow>
     is_borrowed_slice_rhs rhs \<or> parse_variant_construction rhs \<noteq> None
     \<or> extract_array_or_vec_literal rhs \<noteq> None \<or> extract_tuple_literal rhs \<noteq> None
     \<or> (case find_char (CHR ''{'') rhs of
          None \<Rightarrow> False
        | Some brace \<Rightarrow> (let before = trim_end (take brace rhs) in before \<noteq> [] \<and> ident_char (last before)))"

section \<open>Lengths\<close>

text \<open>Every piece a literal is taken apart into is shorter: the recursion below ends.\<close>

lemma length_strip_all: "length (strip_all ws s) \<le> length s"
proof (induction ws s rule: strip_all.induct)
  case (1 ws s)
  show ?case
  proof (cases "leading ws s = 0 \<or> s = []")
    case True
    then show ?thesis by (subst strip_all.simps) (auto simp: Let_def)
  next
    case False
    with 1 [of "leading ws s"] show ?thesis by (subst strip_all.simps) (simp add: Let_def)
  qed
qed

lemma length_trim: "length (trim s) \<le> length s"
  unfolding trim_def trim_end_def trim_start_def
  using length_strip_all [of "map rev whitespace" "rev (strip_all whitespace s)"] length_strip_all [of whitespace s]
  by simp

lemma length_strip_prefix: "strip_prefix p s = Some r \<Longrightarrow> length s = length p + length r"
proof -
  assume "strip_prefix p s = Some r"
  then have "take (length p) s = p" "r = drop (length p) s"
    by (auto simp: strip_prefix_def is_prefix_def split: if_splits)
  then show ?thesis by (metis append_take_drop_id length_append)
qed

lemma length_strip_or: "length (strip_or p s) \<le> length s"
  by (auto simp: strip_or_def dest: length_strip_prefix split: option.splits)

lemma rfind_char_less: "rfind_char c s = Some i \<Longrightarrow> i < length s"
  by (auto simp: rfind_char_def dest: position_Some)

lemma length_trim_start_char: "length (trim_start_char c s) \<le> length s"
  by (simp add: trim_start_char_def length_dropWhile_le)

lemma length_trim_end_char: "length (trim_end_char c s) \<le> length s"
  using length_dropWhile_le [of "\<lambda>x. x = c" "rev s"] by (simp add: trim_end_char_def)

lemma length_strip_borrow: "length (strip_borrow s) \<le> length s"
  unfolding strip_borrow_def
  by (rule order.trans [OF length_strip_or order.trans [OF length_trim length_trim_start_char]])

lemma between_less: "e < length r \<Longrightarrow> length (trim (take e r)) < length r"
  using length_trim [of "take e r"] by simp

lemma array_shorter:
  assumes "extract_array_or_vec_literal s = Some csv"
  shows "length csv + 2 \<le> length s"
proof (cases "strip_prefix ''vec!['' s")
  case (Some after)
  with assms obtain e where "rfind_char (CHR '']'') after = Some e" "csv = trim (take e after)"
    by (auto simp: extract_array_or_vec_literal_def)
  with between_less [OF rfind_char_less] have "length csv < length after" by blast
  with length_strip_prefix [OF Some] show ?thesis by simp
next
  case None
  let ?r = "trim (trim_start_char (CHR ''&'') s)"
  from None assms obtain after e where "strip_prefix ''['' ?r = Some after" "e < length after" "csv = trim (take e after)"
    by (auto simp: extract_array_or_vec_literal_def Let_def dest: rfind_char_less split: option.splits if_splits)
  moreover have "length ?r \<le> length s" by (rule order.trans [OF length_trim length_trim_start_char])
  ultimately show ?thesis using between_less [of e after] by (auto dest!: length_strip_prefix)
qed

lemma tuple_shorter:
  assumes "extract_tuple_literal s = Some csv"
  shows "length csv + 2 \<le> length s"
proof -
  from assms obtain after e where "strip_prefix ''('' (trim s) = Some after" "e < length after" "csv = trim (take e after)"
    by (auto simp: extract_tuple_literal_def Let_def dest: rfind_char_less split: option.splits if_splits)
  then show ?thesis using between_less [of e after] length_trim [of s] by (auto dest!: length_strip_prefix)
qed

lemma struct_shorter:
  assumes "struct_parts s = Some (name, body)"
  shows "length body + 2 \<le> length s"
proof -
  from assms obtain b c where "\<not> c \<le> b" "rfind_char (CHR ''}'') (strip_borrow s) = Some c"
    and "body = take (c - (b + 1)) (drop (b + 1) (strip_borrow s))"
    by (auto simp: struct_parts_def Let_def split: option.splits if_splits)
  moreover from this(2) have "c < length (strip_borrow s)" by (rule rfind_char_less)
  ultimately show ?thesis using length_strip_borrow [of s] by simp
qed

definition weight :: "string list \<Rightarrow> nat" where
  "weight toks = sum_list (map (\<lambda>t. length t + 1) toks)"

lemma weight_simps [simp]: "weight [] = 0" "weight (t # toks) = length t + 1 + weight toks"
  by (simp_all add: weight_def)

lemma weight_split_loop: "weight (split_loop s in_string prev depth current) \<le> length current + length s + 1"
proof (induction s in_string prev depth current rule: split_loop.induct)
  case (1 in_string prev depth current)
  then show ?case using length_trim [of current] by (simp add: Let_def)
next
  case (2 c s in_string prev depth current)
  show ?case
  proof (cases "\<not> in_string \<and> c = CHR '','' \<and> depth = 0")
    case True
    with 2(2) length_trim [of current] show ?thesis by simp
  next
    case False
    with 2(1,3) show ?thesis by (cases in_string) auto
  qed
qed

lemma weight_split: "weight (split_top_level_commas s) \<le> length s + 1"
  using weight_split_loop [of s False "CHR 0x00" 0 "[]"] by (simp add: split_top_level_commas_def)

end
