(* ===== verification/Step_Synthesis.thy ===== *)
theory Step_Synthesis
  imports Source_Literals
begin

text \<open>
  \<open>src/recorder.rs\<close>, what a visited source line adds to the trace: the decoding of literals
  with their nested values, the events and typed variables of a step, the value of a return,
  and the variables of a function. A function that registers types passes on the type cache
  and the trace.
\<close>

section \<open>Nested literals\<close>

lemma literal_shorter: "length (trim_end_char (CHR '','') (trim rhs)) \<le> length rhs"
  by (rule order.trans [OF length_trim_end_char length_trim])

lemma value_shorter: "length (trim (drop k tok)) \<le> length tok"
  using length_trim [of "drop k tok"] by simp

lemma tokens_lighter:
  "length csv + 2 \<le> length s \<Longrightarrow> s = trim_end_char (CHR '','') (trim rhs) \<Longrightarrow>
   2 * weight (split_top_level_commas csv) < 2 * length rhs + 1"
  using weight_split [of csv] literal_shorter [of rhs] by simp

function (sequential)
    decode_value_literal :: "ids \<Rightarrow> string \<Rightarrow> synth \<Rightarrow> value_record option \<times> synth"
  and decode_tokens :: "ids \<Rightarrow> string list \<Rightarrow> synth \<Rightarrow> value_record list \<times> synth"
  and decode_field_values :: "ids \<Rightarrow> string list \<Rightarrow> synth \<Rightarrow> (string \<times> value_record) list \<times> synth"
  and parse_struct_literal_rich ::
    "ids \<Rightarrow> string \<Rightarrow> synth \<Rightarrow> (string \<times> (string \<times> value_record) list) option \<times> synth"
where
  "decode_value_literal W rhs st =
     (let s = trim_end_char (CHR '','') (trim rhs) in
      if s = [] then (None, st)
      else if is_prefix ''Pubkey::'' s \<and> pubkey_call_to_string s \<noteq> None then
        (Some (StringV (the (pubkey_call_to_string s)) (tc_string (fst st))), st)
      else case parse_string_literal s of Some str \<Rightarrow> (Some (StringV str (tc_string (fst st))), st) | None \<Rightarrow>
      case parse_int_literal s of Some i \<Rightarrow> (Some (IntV i (tc_int (fst st))), st) | None \<Rightarrow>
      (let (elements, st) =
             (case extract_array_or_vec_literal s of
                Some csv \<Rightarrow> decode_tokens W (split_top_level_commas csv) st
              | None \<Rightarrow> ([], st)) in
       if elements \<noteq> [] then (Some (SequenceV elements False (tc_seq (fst st))), st)
       else
       (let (elements, st) =
              (case extract_tuple_literal s of
                 Some csv \<Rightarrow> decode_tokens W (split_top_level_commas csv) st
               | None \<Rightarrow> ([], st)) in
        if length elements \<ge> 2 then (Some (TupleV elements (tc_tuple (fst st))), st)
        else case parse_struct_literal_rich W s st of
          (None, st) \<Rightarrow> (None, st)
        | (Some (name, fvs), st) \<Rightarrow>
            (let (i, st) = ensure_struct W name st in (Some (StructV (map snd fvs) i), st)))))"
| "decode_tokens W [] st = ([], st)"
| "decode_tokens W (tok # toks) st =
     (let (v, st) = decode_value_literal W tok st; (vs, st) = decode_tokens W toks st in
      ((case v of Some v \<Rightarrow> [v] | None \<Rightarrow> []) @ vs, st))"
| "decode_field_values W [] st = ([], st)"
| "decode_field_values W (tok # toks) st =
     (case find_char (CHR '':'') tok of
        None \<Rightarrow> decode_field_values W toks st
      | Some colon \<Rightarrow>
          (let (v, st) = decode_value_literal W (trim (drop (colon + 1) tok)) st;
               (fs, st) = decode_field_values W toks st in
           ((case v of Some v \<Rightarrow> [(trim (take colon tok), v)] | None \<Rightarrow> []) @ fs, st)))"
| "parse_struct_literal_rich W rhs st =
     (case struct_parts rhs of
        None \<Rightarrow> (None, st)
      | Some (name, body) \<Rightarrow>
          if contains_str ''::'' name then (None, st)
          else (let (fvs, st) = decode_field_values W (split_top_level_commas body) st in
                (Some (name, fvs), st)))"
  by pat_completeness auto

termination
proof (relation "measure (\<lambda>x. case x of
    Inl (Inl (W, rhs, st)) \<Rightarrow> 2 * length rhs + 1
  | Inl (Inr (W, toks, st)) \<Rightarrow> 2 * weight toks
  | Inr (Inl (W, toks, st)) \<Rightarrow> 2 * weight toks
  | Inr (Inr (W, rhs, st)) \<Rightarrow> 2 * length rhs)", goal_cases)
  case 1
  show ?case by simp
next
  case (2 W rhs st s a)
  then show ?case using tokens_lighter [OF array_shorter] by simp
next
  case (3 W rhs st s)
  then show ?case using tokens_lighter [OF tuple_shorter] by simp
next
  case (4 W rhs st s)
  then show ?case using literal_shorter [of rhs] by simp
next
  case (5 W tok toks st)
  then show ?case by simp
next
  case (6 W tok toks st)
  then show ?case by simp
next
  case (7 W tok toks st)
  then show ?case by simp
next
  case (8 W tok toks st colon)
  then show ?case using value_shorter [of "colon + 1" tok] by simp
next
  case (9 W tok toks st)
  then show ?case by simp
next
  case (10 W rhs st a name body)
  then show ?case using struct_shorter [of rhs name body] weight_split [of body] by simp
qed

declare decode_value_literal.simps [simp del] parse_struct_literal_rich.simps [simp del]

section \<open>Returns\<close>

fun is_err_variant :: "value_record \<Rightarrow> bool" where
  "is_err_variant (VariantV d contents t) \<longleftrightarrow> d = ''Err''"
| "is_err_variant v \<longleftrightarrow> False"

text \<open>The value of a variant's payload; the same at a \<open>let\<close> and in a return.\<close>

definition payload_value :: "TypeIdCache \<Rightarrow> string \<Rightarrow> VariantPayload \<Rightarrow> value_record" where
  "payload_value C variant payload =
     (let ints = map (\<lambda>i. IntV i (tc_int C)) in
      case payload of
        StructPayload fvs \<Rightarrow>
          StructV (ints (map snd fvs))
            (case struct_type_for variant C of Some t \<Rightarrow> t | None \<Rightarrow> struct_default C)
      | TuplePayload values \<Rightarrow> TupleV (ints values) (tc_tuple C)
      | UnitPayload \<Rightarrow> TupleV [] (tc_tuple C))"

definition variant_value ::
  "ids \<Rightarrow> string \<times> string \<times> VariantPayload \<Rightarrow> synth \<Rightarrow> value_record \<times> synth" where
  "variant_value W = (\<lambda>(enum_path, variant, payload) st.
     let contents = payload_value (fst st) variant payload; (i, st) = ensure_variant W enum_path st in
     (VariantV variant contents i, st))"

definition decode_return_payload :: "ids \<Rightarrow> string \<Rightarrow> synth \<Rightarrow> value_record \<times> synth" where
  "decode_return_payload W payload st =
     (let s = trim payload in
      case parse_variant_construction s of
        Some v \<Rightarrow> variant_value W v st
      | None \<Rightarrow>
          (case decode_value_literal W s st of
             (Some v, st) \<Rightarrow> (v, st)
           | (None, st) \<Rightarrow> (StringV s (tc_string (fst st)), st)))"

text \<open>The parenthesis that closes \<open>Err(\<close>; one that closes it at once counts as none.\<close>

fun matching_paren :: "string \<Rightarrow> int \<Rightarrow> nat option" where
  "matching_paren [] depth = None"
| "matching_paren (c # s) depth =
     (if c = CHR '')'' \<and> depth - 1 = 0 then Some 0
      else map_option Suc (matching_paren s
             (if c = CHR ''('' then depth + 1 else if c = CHR '')'' then depth - 1 else depth)))"

definition extract_err_payload :: "string \<Rightarrow> string option" where
  "extract_err_payload s =
     Option.bind (find_str ''Err('' s) (\<lambda>i.
     let after = drop (i + 4) s in
     case matching_paren after 1 of
       None \<Rightarrow> None
     | Some e \<Rightarrow> if e = 0 then None else Some (take e after))"

definition starts_with_err_literal :: "string \<Rightarrow> bool" where
  "starts_with_err_literal s \<longleftrightarrow> is_prefix ''Err('' s"

definition ok_payload :: "string \<Rightarrow> string option" where
  "ok_payload stripped = map_option (\<lambda>close. trim (take close stripped)) (rfind_char (CHR '')'') stripped)"

text \<open>The discriminator and the payload text of a return expression.\<close>

definition return_parts :: "string \<Rightarrow> (string \<times> string) option" where
  "return_parts s =
     (if s = [] then None
      else if contains_str ''return Err('' s \<or> is_prefix ''Err('' s
      then map_option (Pair ''Err'') (extract_err_payload s)
      else case strip_prefix ''return Ok('' s of
        Some stripped \<Rightarrow> map_option (Pair ''Ok'') (ok_payload stripped)
      | None \<Rightarrow>
          Option.bind (strip_prefix ''Ok('' s) (\<lambda>stripped. map_option (Pair ''Ok'') (ok_payload stripped)))"

definition synthesise_return_value ::
  "ids \<Rightarrow> SourceModel \<Rightarrow> u32 \<Rightarrow> synth \<Rightarrow> value_record option \<times> synth" where
  "synthesise_return_value W M line_no st =
     (case return_parts (strip_line_for_match (model_line M line_no)) of
        None \<Rightarrow> (None, st)
      | Some (discriminator, payload) \<Rightarrow>
          (let (inner, st) = decode_return_payload W payload st; (i, st) = ensure_variant W ''Result'' st in
           (Some (VariantV discriminator inner i), st)))"

fun propagates :: "string \<Rightarrow> bool \<Rightarrow> char \<Rightarrow> bool" where
  "propagates [] in_string prev \<longleftrightarrow> False"
| "propagates (c # s) in_string prev \<longleftrightarrow>
     (if in_string then propagates s (\<not> (c = dquote \<and> prev \<noteq> backslash)) c
      else if c = dquote then propagates s True c
      else if c = CHR ''?'' then True
      else propagates s False c)"

definition line_carries_propagation :: "string \<Rightarrow> bool" where
  "line_carries_propagation s \<longleftrightarrow> propagates s False (CHR '' '')"

definition synthesise_return_value_with_propagation ::
  "ids \<Rightarrow> SourceModel \<Rightarrow> u32 \<Rightarrow> value_record option \<Rightarrow> synth \<Rightarrow> value_record option \<times> synth" where
  "synthesise_return_value_with_propagation W M line_no last_err st =
     (case synthesise_return_value W M line_no st of
        (Some v, st) \<Rightarrow> (Some v, st)
      | (None, st) \<Rightarrow>
          (if line_carries_propagation (strip_line_for_match (model_line M line_no)) then last_err else None, st))"

section \<open>Struct literals over several lines\<close>

definition count_change :: "char \<Rightarrow> char \<Rightarrow> string \<Rightarrow> int" where
  "count_change up down s = int (length (filter ((=) up) s)) - int (length (filter ((=) down) s))"

fun collect_lines :: "string list \<Rightarrow> int \<Rightarrow> string \<Rightarrow> string" where
  "collect_lines [] depth acc = acc"
| "collect_lines (raw # rest) depth acc =
     (let stripped = strip_line_for_match raw;
          acc = (if acc = [] then stripped else acc @ '' '' @ stripped);
          depth = depth + count_change (CHR ''{'') (CHR ''}'') stripped in
      if depth \<le> 0 \<and> CHR ''}'' \<in> set acc then acc else collect_lines rest depth acc)"

definition collect_struct_literal_lines :: "SourceModel \<Rightarrow> u32 \<Rightarrow> string" where
  "collect_struct_literal_lines M start_line =
     (let first = model_line M start_line in
      if CHR ''{'' \<notin> set first then trim first
      else collect_lines (drop (unat start_line) (sm_lines M)) 0 [])"

text \<open>The right side of a binding, its lines put together.\<close>

definition candidate_rhs :: "SourceModel \<Rightarrow> u32 \<Rightarrow> string \<Rightarrow> string" where
  "candidate_rhs M line_no rhs =
     (let candidate = (if CHR ''{'' \<in> set rhs \<and> CHR ''}'' \<notin> set rhs
                       then collect_struct_literal_lines M line_no else rhs) in
      case find_char (CHR ''='') candidate of
        Some eq \<Rightarrow> trim (trim_end_char (CHR '';'') (trim (drop (eq + 1) candidate)))
      | None \<Rightarrow> candidate)"

section \<open>Events of a step\<close>

text \<open>The arguments of a macro as written; \<open>None\<close> when its parenthesis does not close.\<close>

fun args_end :: "string \<Rightarrow> bool \<Rightarrow> char \<Rightarrow> int \<Rightarrow> nat option" where
  "args_end [] in_string prev depth = None"
| "args_end (c # s) in_string prev depth =
     (if in_string then map_option Suc (args_end s (\<not> (c = dquote \<and> prev \<noteq> backslash)) c depth)
      else if c = CHR '')'' \<and> depth - 1 = 0 then Some 0
      else map_option Suc (args_end s (c = dquote) c
             (if c = CHR ''('' then depth + 1 else if c = CHR '')'' then depth - 1 else depth)))"

definition extract_macro_args_raw :: "string \<Rightarrow> string \<Rightarrow> string option" where
  "extract_macro_args_raw s macro_name =
     Option.bind (find_str (macro_name @ ''!('') s) (\<lambda>i.
     let after = drop (i + length (macro_name @ ''!('')) s in
     map_option (\<lambda>e. trim (take e after)) (args_end after False (CHR '' '') 1))"

definition macro_payload :: "VarEnv \<Rightarrow> RegisterSnapshot \<Rightarrow> string \<Rightarrow> string \<Rightarrow> string" where
  "macro_payload env snap s macro_name =
     (case extract_macro_call s macro_name of
        Some (fmt, args) \<Rightarrow>
          (let (substituted, all_ok) = substitute_format fmt args env snap in
           if all_ok then substituted else fmt)
      | None \<Rightarrow> ''<'' @ macro_name @ ''!>'')"

definition compute_units_payload :: "string \<Rightarrow> string" where
  "compute_units_payload s =
     (case Option.bind (extract_macro_args_raw s ''sol_log_compute_units'') (\<lambda>a. parse_i64 (trim a)) of
        Some n \<Rightarrow> ''compute_units_remaining='' @ dec_int n
      | None \<Rightarrow> ''compute_units_remaining=?'')"

definition special_events :: "VarEnv \<Rightarrow> RegisterSnapshot \<Rightarrow> string \<Rightarrow> trace" where
  "special_events env snap s =
     (if contains_str ''msg!('' s then [Special WriteEvent ''SolanaMsg'' (macro_payload env snap s ''msg'')] else [])
     @ (if contains_str ''panic!('' s then [Special ErrorEvent ''SolanaPanic'' (macro_payload env snap s ''panic'')] else [])
     @ (if contains_str ''return Err('' s \<or> starts_with_err_literal s
        then [Special ErrorEvent ''SolanaError''
               (case extract_err_payload s of Some p \<Rightarrow> p | None \<Rightarrow> ''<Err>'')] else [])
     @ (if contains_str ''sol_log_data!('' s
        then [Special TraceLogEvent ''SolanaLogData''
               (case extract_macro_args_raw s ''sol_log_data'' of Some a \<Rightarrow> ''data:'' @ a | None \<Rightarrow> ''<sol_log_data>'')]
        else [])
     @ (if contains_str ''sol_log_compute_units!('' s
        then [Special TraceLogEvent ''SolanaCompute'' (compute_units_payload s)] else [])"

section \<open>Typed variables of a step\<close>

definition array_value :: "TypeIdCache \<Rightarrow> string \<Rightarrow> value_record option" where
  "array_value C rhs =
     (case extract_array_or_vec_literal rhs of
        Some csv \<Rightarrow> if int_elements csv \<noteq> [] then Some (build_sequence_value csv (tc_int C) (tc_seq C)) else None
      | None \<Rightarrow> None)"

definition let_value :: "ids \<Rightarrow> SourceModel \<Rightarrow> u32 \<Rightarrow> string \<Rightarrow> synth \<Rightarrow> value_record option \<times> synth" where
  "let_value W M line_no rhs st =
     (if is_borrowed_slice_rhs rhs then (Some (SequenceV [] True (tc_seq (fst st))), st)
      else case parse_variant_construction rhs of
        Some v \<Rightarrow> (let (value, st) = variant_value W v st in (Some value, st))
      | None \<Rightarrow>
          (case array_value (fst st) rhs of Some value \<Rightarrow> (Some value, st) | None \<Rightarrow>
          (case extract_tuple_literal rhs of
             Some csv \<Rightarrow> (Some (build_tuple_value csv (tc_int (fst st)) (tc_tuple (fst st))), st)
           | None \<Rightarrow>
               (case parse_struct_literal_rich W (candidate_rhs M line_no rhs) st of
                  (None, st) \<Rightarrow> (None, st)
                | (Some (name, fvs), st) \<Rightarrow>
                    (let (i, st) = (case struct_type_for name (fst st) of
                                      Some t \<Rightarrow> (t, st) | None \<Rightarrow> ensure_struct W name st) in
                     (Some (StructV (map snd fvs) i), st))))))"

definition synthesise_step_events ::
  "ids \<Rightarrow> SourceModel \<Rightarrow> u32 \<Rightarrow> VarEnv \<Rightarrow> RegisterSnapshot \<Rightarrow> synth \<Rightarrow> synth" where
  "synthesise_step_events W M line_no env snap = (\<lambda>(C, t).
     let s = strip_line_for_match (model_line M line_no) in
     if s = [] then (C, t)
     else (let t = t @ special_events env snap s in
       case (extract_let_lhs s, extract_let_rhs s) of
         (Some name, Some rhs) \<Rightarrow>
           (case let_value W M line_no rhs (C, t) of
              (Some value, C, t) \<Rightarrow> (C, t @ [Variable name value])
            | (None, C, t) \<Rightarrow> (C, t))
       | _ \<Rightarrow> (C, t)))"

section \<open>The variables of a function\<close>

fun prepopulate_lets :: "string list \<Rightarrow> nat \<Rightarrow> VarEnv \<Rightarrow> VarEnv" where
  "prepopulate_lets [] next_reg env = env"
| "prepopulate_lets (raw # rest) next_reg env =
     (let s = strip_line_for_match raw in
      case (extract_let_lhs s, extract_let_rhs s) of
        (Some name, Some rhs) \<Rightarrow>
          if map_of (ve_names env) name = None then
            prepopulate_lets rest (min (next_reg + 1) 10)
              (let env = bind_name name (min next_reg 10) env in
               if rhs_is_structured rhs then env else emit_name name env)
          else prepopulate_lets rest next_reg env
      | _ \<Rightarrow> prepopulate_lets rest next_reg env)"

definition prepopulate_lets_from_body :: "SourceModel \<Rightarrow> u32 \<Rightarrow> u32 \<Rightarrow> VarEnv \<Rightarrow> VarEnv" where
  "prepopulate_lets_from_body M start_line end_line env =
     (let next_reg = (case map snd (ve_names env) of [] \<Rightarrow> 1 | rs \<Rightarrow> Max (set rs) + 1) in
      prepopulate_lets (map (\<lambda>l. model_line M (of_nat l)) [unat start_line..<unat end_line + 1]) next_reg env)"

text \<open>The declaration of a function, from its line to the one that closes its parenthesis.\<close>

fun collect_declaration :: "string list \<Rightarrow> int \<Rightarrow> bool \<Rightarrow> string \<Rightarrow> string" where
  "collect_declaration [] depth saw_open acc = acc"
| "collect_declaration (raw # rest) depth saw_open acc =
     (let stripped = strip_line_for_match raw;
          acc = (if acc = [] then stripped else acc @ '' '' @ stripped);
          depth = depth + count_change (CHR ''('') (CHR '')'') stripped;
          saw_open = (saw_open \<or> CHR ''('' \<in> set stripped) in
      if saw_open \<and> depth = 0 then acc else collect_declaration rest depth saw_open acc)"

definition var_env_for_fn :: "SourceModel \<Rightarrow> string \<Rightarrow> VarEnv" where
  "var_env_for_fn M fn_name =
     (case List.find (\<lambda>(s, e, name). name = fn_name) (sm_functions M) of
        None \<Rightarrow> new_env
      | Some (decl_line, end_line, name) \<Rightarrow>
          prepopulate_lets_from_body M decl_line end_line
            (load_params_from_fn (collect_declaration (drop (unat decl_line) (sm_lines M)) 0 False []) new_env))"

end
