(* ===== verification/Source_Paths.thy ===== *)
theory Source_Paths
  imports Rust_Text Path_Resolver Source_Files Trace_Writer
begin

text \<open>
  \<open>src/recorder.rs\<close>, its source paths: which files of the debug information are the user's,
  under which path each is recorded, and the registration of every path with its line table
  before anything names it (\<open>SourcePaths\<close>). The file system is the record \<open>host_fs\<close>.
\<close>

record host_fs = fs +
  fs_bytes :: "string \<Rightarrow> bytes option"
  fs_entries :: "string \<Rightarrow> string list option"

section \<open>Classifying paths\<close>

definition is_third_party_source :: "string \<Rightarrow> bool" where
  "is_third_party_source path \<longleftrightarrow>
     contains_str ''.cargo/registry/'' path \<or> contains_str ''/rust/library/'' path
     \<or> contains_str ''/rustlib/src/rust/library/'' path
     \<or> file_name path = Some ''lib.rs''"

definition ends_at_separator :: "string \<Rightarrow> bool" where
  "ends_at_separator tail \<longleftrightarrow> tail = [] \<or> last tail = sep"

definition same_logical_source :: "string \<Rightarrow> string \<Rightarrow> bool" where
  "same_logical_source anchor candidate \<longleftrightarrow>
     anchor = candidate
     \<or> (\<exists>tail. strip_suffix candidate anchor = Some tail \<and> ends_at_separator tail)
     \<or> (\<exists>tail. strip_suffix anchor candidate = Some tail \<and> ends_at_separator tail)"

lemma same_logical_source_code [code]:
  "same_logical_source anchor candidate \<longleftrightarrow>
     anchor = candidate
     \<or> (case strip_suffix candidate anchor of Some tail \<Rightarrow> ends_at_separator tail | None \<Rightarrow> False)
     \<or> (case strip_suffix anchor candidate of Some tail \<Rightarrow> ends_at_separator tail | None \<Rightarrow> False)"
  by (auto simp: same_logical_source_def split: option.splits)

definition is_third_party_for_user :: "host_fs \<Rightarrow> string \<Rightarrow> string \<Rightarrow> string option \<Rightarrow> bool" where
  "is_third_party_for_user F source file root =
     (if same_logical_source source file then False
      else case root of
        Some r \<Rightarrow> if is_absolute file then \<not> fs_exists F file else \<not> fs_exists F (join_path r file)
      | None \<Rightarrow> is_third_party_source file)"

definition canonical_step_path :: "host_fs \<Rightarrow> string \<Rightarrow> string \<Rightarrow> string option \<Rightarrow> string" where
  "canonical_step_path F file source root =
     (if same_logical_source source file then source
      else case root of
        Some r \<Rightarrow>
          if is_absolute file then file
          else if fs_exists F (join_path r file) then join_path r file
          else file
      | None \<Rightarrow> file)"

section \<open>Locating the source of an ELF\<close>

definition ancestors :: "string \<Rightarrow> string list" where
  "ancestors p = p # ancestors_above p"

definition resolve_source_against_elf_crate :: "host_fs \<Rightarrow> string \<Rightarrow> string \<Rightarrow> string" where
  "resolve_source_against_elf_crate F dwarf_path elf_path =
     (if is_absolute dwarf_path \<or> fs_exists F dwarf_path then dwarf_path
      else case List.find (\<lambda>anc. fs_exists F (join_path anc ''Cargo.toml'') \<and> fs_exists F (join_path anc dwarf_path))
                  (ancestors elf_path) of
        Some anc \<Rightarrow> join_path anc dwarf_path
      | None \<Rightarrow> dwarf_path)"

text \<open>\<open>Path::extension\<close>: what follows the last dot of the file name, unless the dot begins it.\<close>

definition extension :: "string \<Rightarrow> string option" where
  "extension p =
     (case file_name p of
        None \<Rightarrow> None
      | Some n \<Rightarrow>
          (case rfind_char (CHR ''.'') n of
             None \<Rightarrow> None
           | Some i \<Rightarrow> if i = 0 then None else Some (drop (i + 1) n)))"

definition sibling_rs_source :: "host_fs \<Rightarrow> string \<Rightarrow> string option" where
  "sibling_rs_source F elf_path =
     Option.bind (parent elf_path) (\<lambda>a.
     Option.bind (parent a) (\<lambda>b.
     Option.bind (parent b) (\<lambda>crate_root.
     Option.bind (fs_entries F (join_path crate_root ''src'')) (\<lambda>entries.
       case filter (\<lambda>p. extension p = Some ''rs'') entries of
         [e] \<Rightarrow> Some e
       | _ \<Rightarrow> None))))"

section \<open>The paths of a recording\<close>

record SourcePaths =
  source_path :: string
  source_path_str :: string
  user_crate_root :: "string option"
  canonical :: "string \<Rightarrow> string option"
  tabled :: "component list \<Rightarrow> bool option"

definition new_source_paths :: "host_fs \<Rightarrow> string \<Rightarrow> SourcePaths" where
  "new_source_paths F source =
     \<lparr>source_path = source, source_path_str = source,
      user_crate_root =
        (if is_absolute source
         then List.find (\<lambda>anc. fs_exists F (join_path anc ''Cargo.toml'')) (ancestors source)
         else None),
      canonical = Map.empty, tabled = Map.empty\<rparr>"

definition table_of :: "host_fs \<Rightarrow> SourcePaths \<Rightarrow> string \<Rightarrow> string \<Rightarrow> u32 list" where
  "table_of F P path file =
     (let v = read_line_lengths_for_path (fs_bytes F) path in
      if v \<noteq> [] then v
      else case parent (source_path P) of
        Some p \<Rightarrow> read_line_lengths_for_path (fs_bytes F) (join_path p file)
      | None \<Rightarrow> [])"

text \<open>Paths are compared by their components, spellings by their text.\<close>

definition ensure_path :: "host_fs \<Rightarrow> string \<Rightarrow> SourcePaths \<times> trace \<Rightarrow> string \<times> SourcePaths \<times> trace" where
  "ensure_path F file = (\<lambda>(P, t).
     case canonical P file of
       Some path \<Rightarrow> (path, P, t)
     | None \<Rightarrow>
         (let path = canonical_step_path F file (source_path_str P) (user_crate_root P);
              (P, t) =
                (if tabled P (path_components path) = None then
                   (let lengths = table_of F P path file in
                    (P\<lparr>tabled := (tabled P)(path_components path \<mapsto> lengths \<noteq> [])\<rparr>,
                     t @ [RegisterPath path (map unat lengths)]))
                 else (P, t))
          in (path, P\<lparr>canonical := (canonical P)(file \<mapsto> path)\<rparr>, t)))"

definition has_table :: "SourcePaths \<Rightarrow> string \<Rightarrow> bool" where
  "has_table P path \<longleftrightarrow> tabled P (path_components path) = Some True"

section \<open>Registrations\<close>

text \<open>The registered_paths of a trace, each the path by its components and whether it has a
  table.\<close>

fun registered_paths :: "trace \<Rightarrow> (component list \<times> bool) list" where
  "registered_paths [] = []"
| "registered_paths (RegisterPath p lengths # t) = (path_components p, lengths \<noteq> []) # registered_paths t"
| "registered_paths (_ # t) = registered_paths t"

fun names_path :: "event \<Rightarrow> string option" where
  "names_path (Start p l) = Some p"
| "names_path (EnsureFunction n p l) = Some p"
| "names_path (Step p l c) = Some p"
| "names_path _ = None"

lemma registered_paths_append [simp]: "registered_paths (t @ u) = registered_paths t @ registered_paths u"
  by (induction t rule: registered_paths.induct) auto

fun is_registration :: "event \<Rightarrow> bool" where
  "is_registration (RegisterPath p lengths) = True"
| "is_registration _ = False"

lemma registered_paths_none: "list_all (\<lambda>e. \<not> is_registration e) t \<Longrightarrow> registered_paths t = []"
  by (induction t rule: registered_paths.induct) auto

text \<open>The state agrees with the trace: what it calls tabled are the paths registered so far,
  each once, and it only hands out registered paths.\<close>

definition paths_ok :: "host_fs \<Rightarrow> SourcePaths \<Rightarrow> trace \<Rightarrow> bool" where
  "paths_ok F P t \<longleftrightarrow>
     distinct (map fst (registered_paths t)) \<and> map_of (registered_paths t) = tabled P
     \<and> (\<forall>file path. canonical P file = Some path \<longrightarrow>
          path = canonical_step_path F file (source_path_str P) (user_crate_root P)
          \<and> tabled P (path_components path) \<noteq> None)"

lemma paths_ok_append:
  "paths_ok F P t \<Longrightarrow> list_all (\<lambda>e. \<not> is_registration e) u \<Longrightarrow> paths_ok F P (t @ u)"
  by (simp add: paths_ok_def registered_paths_none)

lemma paths_ok_new: "list_all (\<lambda>e. \<not> is_registration e) t \<Longrightarrow> paths_ok F (new_source_paths F source) t"
  by (simp add: paths_ok_def registered_paths_none new_source_paths_def)

lemma map_of_snoc_new: "k \<notin> fst ` set xs \<Longrightarrow> map_of (xs @ [(k, v)]) = (map_of xs)(k \<mapsto> v)"
  using map_add_upd_left [of k "map_of xs" Map.empty v] by (simp add: dom_map_of_conv_image_fst)

text \<open>What one call does: it hands out the canonical path, registered, and at most adds its
  registration to the trace.\<close>

definition same_source :: "SourcePaths \<Rightarrow> SourcePaths \<Rightarrow> bool" where
  "same_source P Q \<longleftrightarrow>
     source_path Q = source_path P \<and> source_path_str Q = source_path_str P \<and> user_crate_root Q = user_crate_root P"

interpretation paths: memo_table "\<lambda>(P, t). canonical P" "ensure_path F" for F
  by unfold_locales
    (auto simp: ensure_path_def Let_def map_le_def split: prod.splits option.splits if_splits)

lemma ensure_path_known:
  "canonical P file = Some p \<Longrightarrow> ensure_path F file (P, t) = (p, P, t)"
  by (simp add: ensure_path_def)

lemma ensure_path_tabled:
  assumes "canonical P file = None" "p = canonical_step_path F file (source_path_str P) (user_crate_root P)"
    and "tabled P (path_components p) \<noteq> None"
  shows "ensure_path F file (P, t) = (p, P\<lparr>canonical := (canonical P)(file \<mapsto> p)\<rparr>, t)"
  using assms by (auto simp: ensure_path_def Let_def)

lemma ensure_path_fresh:
  assumes "canonical P file = None" "p = canonical_step_path F file (source_path_str P) (user_crate_root P)"
    and "tabled P (path_components p) = None"
  shows "ensure_path F file (P, t) =
     (p, P\<lparr>tabled := (tabled P)(path_components p \<mapsto> table_of F P p file \<noteq> []),
           canonical := (canonical P)(file \<mapsto> p)\<rparr>,
      t @ [RegisterPath p (map unat (table_of F P p file))])"
  using assms by (auto simp: ensure_path_def Let_def)

lemma ensure_path_step:
  assumes ok: "paths_ok F P t" and e: "ensure_path F file (P, t) = (path, Q, u)"
  shows "paths_ok F Q u \<and> same_source P Q
       \<and> path = canonical_step_path F file (source_path_str P) (user_crate_root P)
       \<and> tabled Q (path_components path) \<noteq> None \<and> canonical Q file = Some path
       \<and> tabled P \<subseteq>\<^sub>m tabled Q \<and> canonical P \<subseteq>\<^sub>m canonical Q
       \<and> (\<exists>es. u = t @ es \<and> list_all is_registration es)"
proof (cases "canonical P file")
  case (Some p)
  with e ok show ?thesis by (simp add: ensure_path_known paths_ok_def same_source_def)
next
  case None
  define p where p: "p = canonical_step_path F file (source_path_str P) (user_crate_root P)"
  note ok' = ok [unfolded paths_ok_def]
  show ?thesis
  proof (cases "tabled P (path_components p)")
    case fresh: None
    then have "path_components p \<notin> fst ` set (registered_paths t)"
      using ok' by (metis map_of_eq_None_iff)
    then have "map_of (registered_paths (t @ [RegisterPath p (map unat (table_of F P p file))])) =
        (tabled P)(path_components p \<mapsto> table_of F P p file \<noteq> [])"
      and "distinct (map fst (registered_paths (t @ [RegisterPath p (map unat (table_of F P p file))])))"
      using ok' by (simp_all add: map_of_snoc_new del: map_of_append)
    with fresh None e ok' ensure_path_fresh [OF None p fresh, of t] p show ?thesis
      unfolding paths_ok_def same_source_def
      by (auto simp: map_le_def dom_def simp del: map_of_append registered_paths_append split: if_splits)
  next
    case (Some b)
    with None e ok' ensure_path_tabled [OF None p, of t] p show ?thesis
      unfolding paths_ok_def same_source_def by (auto simp: map_le_def dom_def split: if_splits)
  qed
qed

text \<open>Offering a list of spellings, as the recorder does before it starts the trace.\<close>

definition ensure_all :: "host_fs \<Rightarrow> string list \<Rightarrow> SourcePaths \<times> trace \<Rightarrow> SourcePaths \<times> trace" where
  "ensure_all F files s = fold (\<lambda>file s. snd (ensure_path F file s)) files s"

lemma ensure_all_simps [simp]:
  "ensure_all F [] s = s" "ensure_all F (file # files) s = ensure_all F files (snd (ensure_path F file s))"
  by (simp_all add: ensure_all_def)

lemma same_source_trans: "same_source P Q \<Longrightarrow> same_source Q R \<Longrightarrow> same_source P R"
  by (simp add: same_source_def)

lemma ensure_all_step:
  assumes "paths_ok F P t" "ensure_all F files (P, t) = (Q, u)"
  shows "paths_ok F Q u \<and> same_source P Q \<and> (\<exists>es. u = t @ es \<and> list_all is_registration es)"
  using assms
proof (induction files arbitrary: P t)
  case Nil
  then show ?case by (auto simp: same_source_def)
next
  case (Cons f fs)
  obtain path P1 t1 where e: "ensure_path F f (P, t) = (path, P1, t1)"
    by (metis prod.exhaust)
  from ensure_path_step [OF Cons.prems(1) e]
  have 1: "paths_ok F P1 t1" "same_source P P1" and es: "\<exists>es. t1 = t @ es \<and> list_all is_registration es"
    by auto
  from Cons.IH [OF 1(1)] Cons.prems(2) e
  have 2: "paths_ok F Q u" "same_source P1 Q" and es': "\<exists>es. u = t1 @ es \<and> list_all is_registration es"
    by auto
  have "\<exists>es. u = t @ es \<and> list_all is_registration es" using es es' by fastforce
  then show ?case using 1(2) 2 same_source_trans [OF 1(2) 2(2)] by auto
qed

lemma ensure_all_held: "ensure_all F files s = (Q, u) \<Longrightarrow> f \<in> set files \<Longrightarrow> canonical Q f \<noteq> None"
  using paths.all_held [where k = f and ks = files and s = s and F = F] by (auto simp: ensure_all_def)


definition sample_host :: host_fs where
  "sample_host = \<lparr>fs_exists = (\<lambda>p. p \<in> {''/w/Cargo.toml'', ''/w/a.rs'', ''/w/b.rs''}), fs_is_file = (\<lambda>p. False),
     fs_read_to_string = (\<lambda>p. None), fs_bytes = (\<lambda>p. if p = ''/w/a.rs'' then Some [97, 10] else None),
     fs_entries = (\<lambda>p. None)\<rparr>"


text \<open>Two spellings of one file that differ in a repeated separator keep two names, and only
  the first is registered: equal as paths, they are different strings for the writer.\<close>

lemma canonical_fixture: "\<not> same_logical_source source f \<Longrightarrow> canonical_step_path F f source None = f"
  by (simp add: canonical_step_path_def)

lemma spellings_kept_apart:
  "let P = new_source_paths F ''a.rs'';
       (p, s) = ensure_path F ''s/b.rs'' (P, []);
       (q, s') = ensure_path F ''s//b.rs'' s
   in path_components p = path_components q \<and> p \<noteq> q \<and> snd s' = snd s"
proof -
  let ?P = "new_source_paths F ''a.rs''"
  have "\<not> same_logical_source ''a.rs'' ''s/b.rs''" "\<not> same_logical_source ''a.rs'' ''s//b.rs''"
    by (simp_all add: same_logical_source_code strip_suffix_def strip_prefix_def is_prefix_def)
  note canon = this [THEN canonical_fixture]
  have comps: "path_components ''s/b.rs'' = path_components ''s//b.rs''"
    by (simp add: path_components_def piece_component_def map_filter_def)
  have root: "user_crate_root ?P = None" "source_path_str ?P = ''a.rs''"
    by (simp_all add: new_source_paths_def is_absolute_def)
  let ?Q = "?P\<lparr>tabled := (tabled ?P)(path_components ''s/b.rs'' \<mapsto> table_of F ?P ''s/b.rs'' ''s/b.rs'' \<noteq> []),
                canonical := (canonical ?P)(''s/b.rs'' \<mapsto> ''s/b.rs'')\<rparr>"
  have 1: "ensure_path F ''s/b.rs'' (?P, []) =
      (''s/b.rs'', ?Q, [] @ [RegisterPath ''s/b.rs'' (map unat (table_of F ?P ''s/b.rs'' ''s/b.rs''))])"
    by (rule ensure_path_fresh) (simp_all add: canon root, simp_all add: new_source_paths_def)
  have 2: "ensure_path F ''s//b.rs'' (?Q, u) = (''s//b.rs'', ?Q\<lparr>canonical := (canonical ?Q)(''s//b.rs'' \<mapsto> ''s//b.rs'')\<rparr>, u)" for u
    by (rule ensure_path_tabled) (simp_all add: canon root comps, simp_all add: new_source_paths_def)
  show ?thesis unfolding Let_def 1 prod.case 2 using comps by simp
qed

text \<open>What is kept as the user's resolves: its recorded path is the anchor or exists.\<close>

lemma user_path_resolves:
  "\<not> is_third_party_for_user F source file (Some r) \<Longrightarrow>
   canonical_step_path F file source (Some r) = source \<or> fs_exists F (canonical_step_path F file source (Some r))"
  by (auto simp: is_third_party_for_user_def canonical_step_path_def split: if_splits)

end
