(* ===== verification/Snapshot_Recorder.thy ===== *)
theory Snapshot_Recorder
  imports Step_Synthesis Source_Paths Tracer Dwarf
begin

text \<open>
  \<open>src/recorder.rs\<close>, the recording of register snapshots with source locations
  (\<open>record_from_snapshots_into_writer\<close> and its entry points): the walk over the snapshots
  with its stack of functions and of variables, the call and return heuristic on jumps, the
  steps, and the values of registers and variables.
\<close>

section \<open>State\<close>

text \<open>What stays fixed during a recording. \<open>cx_order\<close> is the order in which a hash set of
  names is iterated.\<close>

record recorder_context =
  cx_ids :: ids
  cx_fs :: host_fs
  cx_model :: SourceModel
  cx_order :: "string list \<Rightarrow> string list"

text \<open>Both stacks have the innermost frame first.\<close>

record snap_state =
  ss_paths :: SourcePaths
  ss_types :: TypeIdCache
  ss_trace :: trace
  ss_fns :: "string list"
  ss_envs :: "VarEnv list"
  ss_line :: "u32 option"
  ss_column :: "u32 option"
  ss_pc :: "u64 option"
  ss_regs :: "u64 list"
  ss_err :: "value_record option"

definition emit_in :: "trace \<Rightarrow> snap_state \<Rightarrow> snap_state" where
  "emit_in es st = st\<lparr>ss_trace := ss_trace st @ es\<rparr>"

definition ensure_in :: "recorder_context \<Rightarrow> string \<Rightarrow> snap_state \<Rightarrow> string \<times> snap_state" where
  "ensure_in X f st =
     (let (path, P, t) = ensure_path (cx_fs X) f (ss_paths st, ss_trace st) in
      (path, st\<lparr>ss_paths := P, ss_trace := t\<rparr>))"

section \<open>The types of the source text\<close>

text \<open>One line of the scan that registers the types of all literals before the first step.\<close>

definition scan_types :: "ids \<Rightarrow> SourceModel \<Rightarrow> u32 \<Rightarrow> synth \<Rightarrow> synth" where
  "scan_types W M line_no st =
     (let s = strip_line_for_match (model_line M line_no) in
      case (extract_let_lhs s, extract_let_rhs s) of
        (Some _, Some rhs) \<Rightarrow>
          (case parse_variant_construction rhs of
             Some (enum_path, _, _) \<Rightarrow> snd (ensure_variant W enum_path st)
           | None \<Rightarrow>
               (case parse_struct_literal (candidate_rhs M line_no rhs) of
                  Some (struct_name, _) \<Rightarrow> snd (ensure_struct W struct_name st)
                | None \<Rightarrow> st))
      | _ \<Rightarrow> st)"

definition scan_all_types :: "ids \<Rightarrow> SourceModel \<Rightarrow> synth \<Rightarrow> synth" where
  "scan_all_types W M st = fold (\<lambda>l. scan_types W M (of_nat l)) [1..<length (sm_lines M)] st"

section \<open>Calls and returns\<close>

definition push_frame :: "recorder_context \<Rightarrow> string \<Rightarrow> string \<Rightarrow> u32 \<Rightarrow> snap_state \<Rightarrow> snap_state" where
  "push_frame X callee f line st =
     (let (path, st) = ensure_in X f st;
          (i, t) = ensure_function_id (cx_ids X) callee path (uint line) (ss_trace st) in
      st\<lparr>ss_trace := t @ [Call i []], ss_envs := var_env_for_fn (cx_model X) callee # ss_envs st,
         ss_fns := callee # ss_fns st\<rparr>)"

text \<open>How many frames lie above the innermost frame of a function; the outermost stays.\<close>

fun frames_above :: "string \<Rightarrow> string list \<Rightarrow> nat" where
  "frames_above target (f # g # rest) = (if f = target then 0 else Suc (frames_above target (g # rest)))"
| "frames_above target _ = 0"

definition pop_frames :: "nat \<Rightarrow> value_record \<Rightarrow> snap_state \<Rightarrow> snap_state" where
  "pop_frames n v st =
     st\<lparr>ss_trace := ss_trace st @ replicate n (Return v), ss_fns := drop n (ss_fns st), ss_envs := drop n (ss_envs st)\<rparr>"

text \<open>Back to a known function, or one frame when it is unknown; a return is recorded even
  when only the outermost frame is left.\<close>

definition unwind :: "string option \<Rightarrow> value_record \<Rightarrow> snap_state \<Rightarrow> snap_state" where
  "unwind curr_fn v st =
     (case curr_fn of
        Some target \<Rightarrow> pop_frames (frames_above target (ss_fns st)) v st
      | None \<Rightarrow> if length (ss_fns st) > 1 then pop_frames 1 v st else emit_in [Return v] st)"

definition far_jump :: "u64 \<Rightarrow> u64 \<Rightarrow> bool" where
  "far_jump a prev \<longleftrightarrow> (if a > prev then a - prev else prev - a) > 2"

definition prev_fn :: "SourceModel \<Rightarrow> snap_state \<Rightarrow> string option" where
  "prev_fn M st = Option.bind (ss_line st) (fn_at M)"

definition crosses :: "string option \<Rightarrow> string option \<Rightarrow> bool" where
  "crosses a b = (case (a, b) of (Some f, Some g) \<Rightarrow> f \<noteq> g | _ \<Rightarrow> True)"

definition callee_name :: "string option \<Rightarrow> u64 \<Rightarrow> string" where
  "callee_name curr_fn a = (case curr_fn of Some f \<Rightarrow> f | None \<Rightarrow> ''fn_at_pc_'' @ dec_word a)"

text \<open>The value of the last visited line, with the error that \<open>?\<close> passes on.\<close>

definition line_return :: "recorder_context \<Rightarrow> snap_state \<Rightarrow> value_record \<times> snap_state" where
  "line_return X st =
     (case ss_line st of
        None \<Rightarrow> (NoneValue, st)
      | Some l \<Rightarrow>
          (let (v, C, t) = synthesise_return_value_with_propagation (cx_ids X) (cx_model X) l (ss_err st)
                             (ss_types st, ss_trace st) in
           (case v of Some v \<Rightarrow> v | None \<Rightarrow> NoneValue, st\<lparr>ss_types := C, ss_trace := t\<rparr>)))"

definition remember_err :: "value_record \<Rightarrow> snap_state \<Rightarrow> snap_state" where
  "remember_err v st =
     (if is_err_variant v then st\<lparr>ss_err := Some v\<rparr>
      else if (case v of NoneV t \<Rightarrow> True | NoneValue \<Rightarrow> True | _ \<Rightarrow> False) then st
      else st\<lparr>ss_err := None\<rparr>)"

definition snap_jump :: "recorder_context \<Rightarrow> u64 \<Rightarrow> string \<Rightarrow> u32 \<Rightarrow> snap_state \<Rightarrow> snap_state" where
  "snap_jump X a f line st =
     (case ss_pc st of
        None \<Rightarrow> st
      | Some prev \<Rightarrow>
          (let curr_fn = fn_at (cx_model X) line in
           if far_jump a prev \<and> crosses (prev_fn (cx_model X) st) curr_fn then
             (if a > prev then push_frame X (callee_name curr_fn a) f line st
              else (let (v, st) = line_return X st in unwind curr_fn v (remember_err v st)))
           else st))"

section \<open>Steps and values\<close>

text \<open>A step with what its line adds: a binding for the active frame, events and typed
  variables.\<close>

definition visit_line ::
  "recorder_context \<Rightarrow> string \<Rightarrow> u32 \<Rightarrow> u32 option \<Rightarrow> RegisterSnapshot \<Rightarrow> snap_state \<Rightarrow> snap_state" where
  "visit_line X path line column snap st =
     (let t = ss_trace st @ [Step path (uint line) (map_option uint column)];
          envs = (case (ss_envs st, extract_let_lhs (strip_line_for_match (model_line (cx_model X) line))) of
                    (env # rest, Some name) \<Rightarrow> record_let name (ss_regs st) snap env # rest
                  | (envs, _) \<Rightarrow> envs);
          active = (case envs of env # _ \<Rightarrow> env | [] \<Rightarrow> new_env);
          (C, t) = synthesise_step_events (cx_ids X) (cx_model X) line active snap (ss_types st, t) in
      st\<lparr>ss_trace := t, ss_types := C, ss_envs := envs, ss_line := Some line, ss_column := column\<rparr>)"

definition snap_visit ::
  "recorder_context \<Rightarrow> string \<Rightarrow> u32 \<Rightarrow> u32 option \<Rightarrow> RegisterSnapshot \<Rightarrow> snap_state \<Rightarrow> snap_state" where
  "snap_visit X f line column snap st =
     (if ss_line st \<noteq> Some line \<or> column \<noteq> None \<and> ss_column st \<noteq> column then
        (let (path, st) = ensure_in X f st;
             column = (if has_table (ss_paths st) path then column else None) in
         visit_line X path line column snap st)
      else st)"

definition register_values :: "type_id \<Rightarrow> RegisterSnapshot \<Rightarrow> trace" where
  "register_values tid snap =
     map (\<lambda>r. Variable (CHR ''r'' # dec_nat r) (IntV (sint (registers snap ! r)) tid)) [0..<11]"

definition named_values :: "(string list \<Rightarrow> string list) \<Rightarrow> type_id \<Rightarrow> RegisterSnapshot \<Rightarrow> VarEnv \<Rightarrow> trace" where
  "named_values ord tid snap env =
     List.map_filter (\<lambda>name. map_option (\<lambda>r. Variable name (IntV (sint (registers snap ! r)) tid))
                               (map_of (ve_names env) name))
       (ord (emit_as_int env))"

definition env_values :: "recorder_context \<Rightarrow> RegisterSnapshot \<Rightarrow> snap_state \<Rightarrow> trace" where
  "env_values X snap st =
     (case ss_envs st of
        env # _ \<Rightarrow> named_values (cx_order X) (tc_int (ss_types st)) snap env
      | [] \<Rightarrow> [])"

section \<open>The walk\<close>

type_synonym locations = "u64 \<Rightarrow> (string \<times> u32 \<times> u32 option) option"

definition after_snapshot :: "RegisterSnapshot \<Rightarrow> snap_state \<Rightarrow> snap_state" where
  "after_snapshot snap st = st\<lparr>ss_pc := Some (pc snap), ss_regs := registers snap\<rparr>"

definition third_party :: "recorder_context \<Rightarrow> snap_state \<Rightarrow> string \<Rightarrow> bool" where
  "third_party X st f =
     is_third_party_for_user (cx_fs X) (source_path_str (ss_paths st)) f (user_crate_root (ss_paths st))"

definition snap_step :: "recorder_context \<Rightarrow> locations \<Rightarrow> RegisterSnapshot \<Rightarrow> snap_state \<Rightarrow> snap_state" where
  "snap_step X locs snap st =
     (case locs (pc snap) of
        None \<Rightarrow> st
      | Some (f, line, column) \<Rightarrow>
          if third_party X st f then after_snapshot snap st
          else
            (let st = snap_jump X (pc snap) f line st;
                 st = snap_visit X f line column snap st;
                 st = emit_in (register_values (tc_int (ss_types st)) snap) st in
             after_snapshot snap (emit_in (env_values X snap st) st)))"

definition snap_loop :: "recorder_context \<Rightarrow> locations \<Rightarrow> RegisterSnapshot list \<Rightarrow> snap_state \<Rightarrow> snap_state" where
  "snap_loop X locs snaps st = fold (snap_step X locs) snaps st"

text \<open>The function that holds the first mapped line inside one.\<close>

definition outer_fn :: "SourceModel \<Rightarrow> (u64 \<Rightarrow> u32 option) \<Rightarrow> RegisterSnapshot list \<Rightarrow> string" where
  "outer_fn M line_at snaps =
     (case find_map (\<lambda>s. Option.bind (line_at (pc s)) (fn_at M)) snaps of Some f \<Rightarrow> f | None \<Rightarrow> ''main'')"

text \<open>From the start of the trace to the call of the outermost function.\<close>

definition open_recording ::
  "recorder_context \<Rightarrow> string \<Rightarrow> string \<Rightarrow> SourcePaths \<times> trace \<Rightarrow> snap_state" where
  "open_recording X source outer = (\<lambda>(P, t0).
     let (C, t1) = scan_all_types (cx_ids X) (cx_model X) (new_type_ids (cx_ids X) (t0 @ [Start source 1]));
         (i, t2) = ensure_function_id (cx_ids X) outer source 1 t1 in
     \<lparr>ss_paths = P, ss_types = C, ss_trace = t2 @ [Call i []], ss_fns = [outer],
      ss_envs = [var_env_for_fn (cx_model X) outer], ss_line = None, ss_column = None, ss_pc = None,
      ss_regs = replicate 12 0, ss_err = None\<rparr>)"

definition location_map :: "(u64 \<times> string \<times> u32 \<times> u32 option) list \<Rightarrow> locations" where
  "location_map locs = map_of (rev locs)"

definition start_recording ::
  "recorder_context \<Rightarrow> RegisterSnapshot list \<Rightarrow> (u64 \<times> string \<times> u32 \<times> u32 option) list \<Rightarrow> string \<Rightarrow> trace
   \<Rightarrow> snap_state" where
  "start_recording X snaps locs source t =
     (let t = t @ [EnableColumnAwareSteps, EnableColumnBreakpoints, EnableColumnMotions];
          s = snd (ensure_path (cx_fs X) source (new_source_paths (cx_fs X) source, t));
          s = ensure_all (cx_fs X) (map (\<lambda>(_, f, _, _). f) locs) s;
          outer = outer_fn (cx_model X) (\<lambda>a. map_option (\<lambda>(f, l, c). l) (location_map locs a)) snaps;
          st = open_recording X source outer s in
      case snaps of [] \<Rightarrow> st | first # _ \<Rightarrow> emit_in (env_values X first st) st)"

definition record_from_snapshots_into_writer ::
  "ids \<Rightarrow> host_fs \<Rightarrow> (string list \<Rightarrow> string list) \<Rightarrow> RegisterSnapshot list
   \<Rightarrow> (u64 \<times> string \<times> u32 \<times> u32 option) list \<Rightarrow> string \<Rightarrow> trace \<Rightarrow> trace" where
  "record_from_snapshots_into_writer W F ord snaps locs source t =
     (let X = \<lparr>cx_ids = W, cx_fs = F, cx_model = load_model (fs_read_to_string F) source, cx_order = ord\<rparr>;
          st = snap_loop X (location_map locs) snaps (start_recording X snaps locs source t);
          (v, st) = line_return X st in
      ss_trace st @ [Return v])"

section \<open>Entry points\<close>

definition close_recording :: "tracer_io \<Rightarrow> trace \<Rightarrow> (string, trace) outcome" where
  "close_recording io t =
     bind_outcome (check_io (io_finish io t) ()) (\<lambda>_.
     bind_outcome (check_io (io_write_meta io (t @ [FinishEvents])) ()) (\<lambda>_.
     bind_outcome (check_io (io_close io (t @ [FinishEvents, WriteMeta ''codetracer-solana-recorder''])) ()) (\<lambda>_.
     Ok (t @ [FinishEvents, WriteMeta ''codetracer-solana-recorder'', Close]))))"

definition begin_recording :: "tracer_io \<Rightarrow> string \<Rightarrow> (string, trace) outcome" where
  "begin_recording io out_dir =
     bind_outcome (check_io (io_create_dir io out_dir) ()) (\<lambda>_.
     bind_outcome (check_io (io_begin io (path_join out_dir ''trace.bin'')) ()) (\<lambda>_.
     Ok [BeginEvents (path_join out_dir ''trace.bin'')]))"

definition record_from_snapshots_with_columns ::
  "ids \<Rightarrow> host_fs \<Rightarrow> tracer_io \<Rightarrow> (string list \<Rightarrow> string list) \<Rightarrow> RegisterSnapshot list
   \<Rightarrow> (u64 \<times> string \<times> u32 \<times> u32 option) list \<Rightarrow> string \<Rightarrow> string \<Rightarrow> (string, trace) outcome" where
  "record_from_snapshots_with_columns W F io ord snaps locs source out_dir =
     bind_outcome (begin_recording io out_dir) (\<lambda>t.
     close_recording io (record_from_snapshots_into_writer W F ord snaps locs source t))"

definition record_from_snapshots ::
  "ids \<Rightarrow> host_fs \<Rightarrow> tracer_io \<Rightarrow> (string list \<Rightarrow> string list) \<Rightarrow> RegisterSnapshot list
   \<Rightarrow> (u64 \<times> string \<times> u32) list \<Rightarrow> string \<Rightarrow> string \<Rightarrow> (string, trace) outcome" where
  "record_from_snapshots W F io ord snaps locs source out_dir =
     record_from_snapshots_with_columns W F io ord snaps (map (\<lambda>(a, f, l). (a, f, l, None)) locs) source out_dir"

text \<open>The locations of all snapshots, and the file the trace is about: the first that is not
  third-party, a single source beside the ELF, the first at all, the ELF.\<close>

definition traced_locations :: "DwarfParser \<Rightarrow> RegisterSnapshot list \<Rightarrow> (u64 \<times> string \<times> u32 \<times> u32 option) list" where
  "traced_locations dwarf snaps =
     List.map_filter (\<lambda>s. map_option (\<lambda>loc. (pc s, sl_file loc, sl_line loc, sl_column loc))
                            (dwarf_find_location dwarf (pc s))) snaps"

definition trace_source_path :: "host_fs \<Rightarrow> (u64 \<times> string \<times> u32 \<times> u32 option) list \<Rightarrow> string \<Rightarrow> string" where
  "trace_source_path F locs elf_path =
     (let chosen =
        (case List.find (\<lambda>(_, f, _, _). \<not> is_third_party_source f) locs of
           Some (_, f, _, _) \<Rightarrow> f
         | None \<Rightarrow>
             (case sibling_rs_source F elf_path of
                Some rs \<Rightarrow> rs
              | None \<Rightarrow> (case locs of (_, f, _, _) # _ \<Rightarrow> f | [] \<Rightarrow> elf_path)))
      in resolve_source_against_elf_crate F chosen elf_path)"

definition record_from_traces ::
  "ids \<Rightarrow> host_fs \<Rightarrow> tracer_io \<Rightarrow> (string list \<Rightarrow> string list) \<Rightarrow> (bytes \<Rightarrow> string + DwarfParser)
   \<Rightarrow> bytes \<Rightarrow> bytes \<Rightarrow> string \<Rightarrow> string \<Rightarrow> (string, trace) outcome" where
  "record_from_traces W F io ord parser regs_bytes elf_data elf_path out_dir =
     bind_outcome (case parse_regs_file regs_bytes of
         Ok snaps \<Rightarrow> Ok snaps
       | Err (LengthNotMultiple n) \<Rightarrow> Err (''regs data length '' @ dec_nat n @ '' is not a multiple of '' @ dec_nat ROW_SIZE)
       | Panic \<Rightarrow> Panic) (\<lambda>snaps.
     case parser elf_data of
       Inl e \<Rightarrow> Err e
     | Inr dwarf \<Rightarrow>
         (let locs = traced_locations dwarf snaps in
          record_from_snapshots_with_columns W F io ord snaps locs (trace_source_path F locs elf_path) out_dir))"

end
