(* ===== verification/Cpi_Recorder.thy ===== *)
theory Cpi_Recorder
  imports Snapshot_Recorder Cpi Multi_Program
begin

text \<open>
  \<open>record_with_cpi\<close> of \<open>src/recorder.rs\<close>: the recording of snapshots that cross programs. The
  detector decides on calls and returns between programs, jumps inside one program are
  judged as in \<open>Snapshot_Recorder\<close>. \<open>None\<close> is a panic of the detector.
\<close>

section \<open>Between programs\<close>

definition sbf_file :: "string \<Rightarrow> string" where
  "sbf_file name = name @ ''.sbf''"

definition cpi_call :: "recorder_context \<Rightarrow> ProgramRegistry \<Rightarrow> u64 \<Rightarrow> snap_state \<Rightarrow> snap_state" where
  "cpi_call X r target st =
     (let name = (case owner_name r target of Some n \<Rightarrow> n | None \<Rightarrow> ''unknown_program'');
          (f, line) = (case find_location r target of Some l \<Rightarrow> l | None \<Rightarrow> (sbf_file name, 0));
          callee = (case fn_at (cx_model X) line of Some g \<Rightarrow> g | None \<Rightarrow> name);
          (path, st) = ensure_in X f st;
          (i, t) = ensure_function_id (cx_ids X) callee path (uint line) (ss_trace st);
          (pc_type, t) = ensure_type_id (cx_ids X) KInt ''u64'' t;
          (str_type, t) = ensure_type_id (cx_ids X) KString ''string'' t;
          t = t @ [Arg ''target_program'' (StringV name str_type), Arg ''target_pc'' (IntV (sint target) pc_type),
                   Call i []] in
      st\<lparr>ss_trace := t, ss_envs := var_env_for_fn (cx_model X) callee # ss_envs st,
         ss_fns := callee # ss_fns st, ss_line := None, ss_column := None\<rparr>)"

definition cpi_return :: "snap_state \<Rightarrow> snap_state" where
  "cpi_return st =
     st\<lparr>ss_trace := ss_trace st @ [Return NoneValue],
        ss_envs := (if length (ss_envs st) > 1 then tl (ss_envs st) else ss_envs st),
        ss_fns := (if length (ss_fns st) > 1 then tl (ss_fns st) else ss_fns st),
        ss_line := None, ss_column := None\<rparr>"

section \<open>Inside a program\<close>

definition cpi_jump :: "recorder_context \<Rightarrow> ProgramRegistry \<Rightarrow> string \<Rightarrow> u64 \<Rightarrow> snap_state \<Rightarrow> snap_state" where
  "cpi_jump X r program a st =
     (case ss_pc st of
        None \<Rightarrow> st
      | Some prev \<Rightarrow>
          if far_jump a prev then
            (let (f, line) = (case find_location r a of Some l \<Rightarrow> l | None \<Rightarrow> (sbf_file program, 0));
                 curr_fn = fn_at (cx_model X) line in
             if crosses (prev_fn (cx_model X) st) curr_fn then
               (if a > prev then push_frame X (callee_name curr_fn a) f line st
                else unwind curr_fn NoneValue st)
             else st)
          else st)"

definition cpi_visit ::
  "recorder_context \<Rightarrow> string \<Rightarrow> u32 \<Rightarrow> u32 option \<Rightarrow> RegisterSnapshot \<Rightarrow> snap_state \<Rightarrow> snap_state" where
  "cpi_visit X f line column snap st =
     (let (path, st) = ensure_in X f st;
          column = (if has_table (ss_paths st) path then column else None) in
      if ss_line st \<noteq> Some line \<or> column \<noteq> None \<and> ss_column st \<noteq> column
      then visit_line X path line column snap st else st)"

definition cpi_step ::
  "bool \<Rightarrow> recorder_context \<Rightarrow> ProgramRegistry \<Rightarrow> RegisterSnapshot \<Rightarrow> CpiDetector \<times> snap_state
   \<Rightarrow> (CpiDetector \<times> snap_state) option" where
  "cpi_step chk X r snap = (\<lambda>(d, st).
     Option.bind (process_snapshot chk d snap) (\<lambda>(event, d).
     Option.bind (current_program d) (\<lambda>program.
     let st = (case event of
                 CpiCall target \<Rightarrow> cpi_call X r target st
               | CpiReturn a \<Rightarrow> cpi_return st
               | SameProgram \<Rightarrow> cpi_jump X r program (pc snap) st);
         (f, line, column) =
           (case find_location_with_column r (pc snap) of
              Some l \<Rightarrow> l | None \<Rightarrow> (sbf_file program, ucast (pc snap), None));
         st = cpi_visit X f line column snap st;
         st = emit_in (register_values (tc_int (ss_types st)) snap) st in
     Some (d, after_snapshot snap st))))"

fun cpi_loop ::
  "bool \<Rightarrow> recorder_context \<Rightarrow> ProgramRegistry \<Rightarrow> RegisterSnapshot list \<Rightarrow> CpiDetector \<times> snap_state
   \<Rightarrow> (CpiDetector \<times> snap_state) option" where
  "cpi_loop chk X r [] s = Some s"
| "cpi_loop chk X r (snap # snaps) s = Option.bind (cpi_step chk X r snap s) (cpi_loop chk X r snaps)"

section \<open>The recording\<close>

definition cpi_start ::
  "recorder_context \<Rightarrow> ProgramRegistry \<Rightarrow> RegisterSnapshot list \<Rightarrow> string \<Rightarrow> trace \<Rightarrow> snap_state" where
  "cpi_start X r snaps source t =
     (let t = t @ [EnableColumnAwareSteps, EnableColumnBreakpoints, EnableColumnMotions];
          s = snd (ensure_path (cx_fs X) source (new_source_paths (cx_fs X) source, t)) in
      open_recording X source (outer_fn (cx_model X) (\<lambda>a. map_option snd (find_location r a)) snaps) s)"

text \<open>The returns at the end: one for every open context of the detector, one for every frame.\<close>

definition cpi_closing :: "nat \<Rightarrow> snap_state \<Rightarrow> trace" where
  "cpi_closing depth st =
     replicate depth (Return NoneValue) @ replicate (length (ss_fns st) - 1) (Return NoneValue) @ [Return NoneValue]"

definition cpi_body ::
  "bool \<Rightarrow> ids \<Rightarrow> host_fs \<Rightarrow> (string list \<Rightarrow> string list) \<Rightarrow> RegisterSnapshot list \<Rightarrow> ProgramRegistry
   \<Rightarrow> string \<Rightarrow> CpiDetector \<Rightarrow> trace \<Rightarrow> (CpiDetector \<times> trace) option" where
  "cpi_body chk W F ord snaps r source d t =
     (let X = \<lparr>cx_ids = W, cx_fs = F, cx_model = load_model (fs_read_to_string F) source, cx_order = ord\<rparr> in
      Option.bind (cpi_loop chk X r snaps (d, cpi_start X r snaps source t)) (\<lambda>(d, st).
      Option.bind (call_depth d) (\<lambda>depth.
      Some (d, ss_trace st @ cpi_closing depth st))))"

definition record_with_cpi ::
  "bool \<Rightarrow> ids \<Rightarrow> host_fs \<Rightarrow> tracer_io \<Rightarrow> (string list \<Rightarrow> string list) \<Rightarrow> RegisterSnapshot list
   \<Rightarrow> ProgramRegistry \<Rightarrow> CpiDetector \<Rightarrow> string \<Rightarrow> string \<Rightarrow> (string, CpiDetector \<times> trace) outcome" where
  "record_with_cpi chk W F io ord snaps r d source out_dir =
     bind_outcome (begin_recording io out_dir) (\<lambda>t.
     bind_outcome (of_option (cpi_body chk W F ord snaps r source d t)) (\<lambda>(d, t).
     bind_outcome (close_recording io t) (\<lambda>t. Ok (d, t))))"

end
