(* ===== verification/Recorder_Facts.thy ===== *)
theory Recorder_Facts
  imports Cpi_Recorder
begin

text \<open>
  What the operations of the snapshot recorders do to the trace: the synthesis of values only
  declares types and records events and variables; paths are registered before they are
  named; calls and returns follow the stack of frames.
\<close>

section \<open>What synthesis adds\<close>

fun value_event :: "event \<Rightarrow> bool" where
  "value_event (EnsureType k n) = True"
| "value_event (Special k m p) = True"
| "value_event (Variable n v) = True"
| "value_event _ = False"

definition silent :: "event \<Rightarrow> bool" where
  "silent e \<longleftrightarrow> \<not> is_registration e \<and> names_path e = None"

lemma value_event_plain: "value_event e \<Longrightarrow> plain e"
  by (cases e) auto

lemma value_event_silent: "value_event e \<Longrightarrow> silent e"
  by (cases e) (auto simp: silent_def)

lemma all_plain: "list_all value_event es \<Longrightarrow> list_all plain es"
  by (auto simp: list_all_iff value_event_plain)

lemma all_silent: "list_all value_event es \<Longrightarrow> list_all silent es"
  by (auto simp: list_all_iff value_event_silent)

definition appends :: "(event \<Rightarrow> bool) \<Rightarrow> trace \<Rightarrow> trace \<Rightarrow> bool" where
  "appends Q t u \<longleftrightarrow> (\<exists>es. u = t @ es \<and> list_all Q es)"

lemma appends_refl [simp, intro]: "appends Q t t"
  by (simp add: appends_def)

lemma appends_trans [trans]: "appends Q t u \<Longrightarrow> appends Q u v \<Longrightarrow> appends Q t v"
  unfolding appends_def by (metis append.assoc list_all_append)

lemma appends_here: "list_all Q es \<Longrightarrow> appends Q t (t @ es)"
  by (auto simp: appends_def)

lemma appends_weaken: "appends Q t u \<Longrightarrow> (\<And>e. Q e \<Longrightarrow> R e) \<Longrightarrow> appends R t u"
  unfolding appends_def by (metis list.pred_mono_strong)

lemma appendsE: "appends Q t u \<Longrightarrow> (\<And>es. u = t @ es \<Longrightarrow> list_all Q es \<Longrightarrow> thesis) \<Longrightarrow> thesis"
  by (auto simp: appends_def)

abbreviation grows :: "synth \<Rightarrow> synth \<Rightarrow> bool" where
  "grows s s' \<equiv> appends value_event (snd s) (snd s')"

lemma ensure_struct_grows: "grows st (snd (ensure_struct W name st))"
  by (auto simp: ensure_struct_def ensure_type_id_def appends_here split: prod.splits option.splits)

lemma ensure_variant_grows: "grows st (snd (ensure_variant W name st))"
  by (auto simp: ensure_variant_def ensure_type_id_def appends_here split: prod.splits option.splits)

lemma literals_grow:
  "grows st (snd (decode_value_literal W rhs st))"
  "grows st (snd (decode_tokens W toks st))"
  "grows st (snd (decode_field_values W toks' st))"
  "grows st (snd (parse_struct_literal_rich W rhs' st))"
proof (induction W rhs st and W toks st and W toks' st and W rhs' st
    rule: decode_value_literal_decode_tokens_decode_field_values_parse_struct_literal_rich.induct)
  case (1 W rhs st)
  let ?s = "trim_end_char (CHR '','') (trim rhs)"
  show ?case
  proof (cases "?s = [] \<or> (is_prefix ''Pubkey::'' ?s \<and> pubkey_call_to_string ?s \<noteq> None)
      \<or> parse_string_literal ?s \<noteq> None \<or> parse_int_literal ?s \<noteq> None")
    case True
    then show ?thesis by (auto simp: decode_value_literal.simps Let_def split: option.splits)
  next
    case False
    define r1 where "r1 = (case extract_array_or_vec_literal ?s of
        Some csv \<Rightarrow> decode_tokens W (split_top_level_commas csv) st | None \<Rightarrow> ([], st))"
    define r2 where "r2 = (case extract_tuple_literal ?s of
        Some csv \<Rightarrow> decode_tokens W (split_top_level_commas csv) (snd r1) | None \<Rightarrow> ([], snd r1))"
    define r3 where "r3 = parse_struct_literal_rich W ?s (snd r2)"
    from False have pre: "?s \<noteq> []" "\<not> (is_prefix ''Pubkey::'' ?s \<and> pubkey_call_to_string ?s \<noteq> None)"
      "parse_string_literal ?s = None" "parse_int_literal ?s = None" by auto
    have g1: "grows st (snd r1)"
      using 1(1) [OF refl pre] by (cases "extract_array_or_vec_literal ?s") (simp_all add: r1_def)
    have g2: "grows (snd r1) (snd r2)" if "fst r1 = []"
      using 1(2) [OF refl pre r1_def prod.collapse] that
      by (cases "extract_tuple_literal ?s") (simp_all add: r2_def)
    have g3: "grows (snd r2) (snd r3)" if "fst r1 = []" "\<not> 2 \<le> length (fst r2)"
      unfolding r3_def by (rule 1(3) [OF refl pre r1_def prod.collapse _ r2_def prod.collapse]) (use that in simp_all)
    have eq: "snd (decode_value_literal W rhs st) =
        (if fst r1 \<noteq> [] then snd r1 else if 2 \<le> length (fst r2) then snd r2
         else case fst r3 of None \<Rightarrow> snd r3 | Some (name, fvs) \<Rightarrow> snd (ensure_struct W name (snd r3)))"
      unfolding decode_value_literal.simps Let_def case_prod_beta r1_def [symmetric] r2_def [symmetric] r3_def [symmetric]
      using pre by (auto split: option.splits prod.splits simp: prod_eq_iff)
    show ?thesis
      using appends_trans [OF g1 g2] appends_trans [OF appends_trans [OF g1 g2] g3] g1
        appends_trans [OF _ ensure_struct_grows] by (auto simp: eq split: option.splits)
  qed
next
  case (3 W tok toks st)
  from appends_trans [OF 3(1) 3(2) [OF refl prod.collapse]] show ?case by (simp add: case_prod_beta Let_def)
next
  case (5 W tok toks st)
  show ?case
  proof (cases "find_char (CHR '':'') tok")
    case None
    with 5(1) show ?thesis by simp
  next
    case (Some colon)
    from appends_trans [OF 5(2) [OF Some] 5(3) [OF Some refl prod.collapse]] Some show ?thesis
      by (simp add: case_prod_beta Let_def)
  qed
qed (auto simp: case_prod_beta Let_def parse_struct_literal_rich.simps split: option.splits)

lemma variant_value_grows: "grows st (snd (variant_value W v st))"
  by (cases v) (simp add: variant_value_def Let_def case_prod_beta ensure_variant_grows)

lemma decode_return_payload_grows: "grows st (snd (decode_return_payload W p st))"
  using literals_grow(1) [of st W "trim p"] variant_value_grows
  by (auto simp: decode_return_payload_def Let_def split: option.splits prod.splits)

lemma synthesise_return_value_grows: "grows st (snd (synthesise_return_value W M l st))"
  by (auto simp: synthesise_return_value_def case_prod_beta Let_def split: option.splits
      intro: appends_trans [OF decode_return_payload_grows ensure_variant_grows])

lemma propagation_grows: "grows st (snd (synthesise_return_value_with_propagation W M l e st))"
  using synthesise_return_value_grows [of st W M l]
  by (auto simp: synthesise_return_value_with_propagation_def split: prod.splits option.splits)

lemma let_value_grows: "grows st (snd (let_value W M l rhs st))"
proof -
  have "grows st (snd (case parse_struct_literal_rich W (candidate_rhs M l rhs) st of
      (None, st) \<Rightarrow> (None, st)
    | (Some (name, fvs), st) \<Rightarrow>
        (let (i, st) = (case struct_type_for name (fst st) of Some t \<Rightarrow> (t, st) | None \<Rightarrow> ensure_struct W name st) in
         (Some (StructV (map snd fvs) i), st))))"
    using literals_grow(4) [of st W "candidate_rhs M l rhs"] appends_trans [OF _ ensure_struct_grows]
    by (auto simp: case_prod_beta Let_def split: option.splits prod.splits)
  then show ?thesis
    using variant_value_grows by (auto simp: let_value_def case_prod_beta Let_def split: option.splits)
qed

lemma special_events_value: "list_all value_event (special_events env snap s)"
  by (simp add: special_events_def)

lemma step_events_grow: "grows st (synthesise_step_events W M l env snap st)"
proof (cases st)
  case (Pair C t)
  let ?s = "strip_line_for_match (model_line M l)"
  have g: "appends value_event t (snd (snd (let_value W M l rhs (C, t @ special_events env snap ?s))))" for rhs
  proof (rule appends_trans)
    show "appends value_event t (t @ special_events env snap ?s)" by (rule appends_here) (rule special_events_value)
    show "appends value_event (t @ special_events env snap ?s) (snd (snd (let_value W M l rhs (C, t @ special_events env snap ?s))))"
      using let_value_grows [of "(C, t @ special_events env snap ?s)"] by simp
  qed
  have h: "appends value_event t (snd (snd (let_value W M l rhs (C, t @ special_events env snap ?s))) @ [Variable n v])" for rhs n v
    by (rule appends_trans [OF g appends_here]) simp
  show ?thesis
    using g h by (auto simp: Pair synthesise_step_events_def Let_def appends_here special_events_value
        split: option.splits prod.splits) (metis snd_conv)+
qed

lemma scan_types_grows: "grows st (scan_types W M l st)"
  by (auto simp: scan_types_def Let_def ensure_variant_grows ensure_struct_grows split: option.splits)

lemma scan_all_types_grows: "grows st (scan_all_types W M st)"
proof -
  have "grows st (fold (\<lambda>l. scan_types W M (of_nat l)) ls st)" for ls
  proof (induction ls arbitrary: st)
    case (Cons l ls)
    from appends_trans [OF scan_types_grows Cons.IH] show ?case by simp
  qed simp
  then show ?thesis by (simp add: scan_all_types_def)
qed

lemma new_type_ids_grows: "appends value_event t (snd (new_type_ids W t))"
  by (simp add: new_type_ids_def ensure_type_id_def appends_def)

section \<open>Paths are registered before they are named\<close>

text \<open>An event may name a path only when it is registered, and give a column only when the
  path was registered with a line table.\<close>

fun event_ok :: "(component list \<times> bool) list \<Rightarrow> event \<Rightarrow> bool" where
  "event_ok registered (Step p l c) \<longleftrightarrow>
     path_components p \<in> fst ` set registered \<and> (c \<noteq> None \<longrightarrow> (path_components p, True) \<in> set registered)"
| "event_ok registered e \<longleftrightarrow>
     (case names_path e of Some p \<Rightarrow> path_components p \<in> fst ` set registered | None \<Rightarrow> True)"

fun mentions_ok :: "(component list \<times> bool) list \<Rightarrow> trace \<Rightarrow> bool" where
  "mentions_ok registered [] \<longleftrightarrow> True"
| "mentions_ok registered (e # t) \<longleftrightarrow> event_ok registered e \<and> mentions_ok (registered @ registered_paths [e]) t"

lemma mentions_append:
  "mentions_ok registered (t @ u) \<longleftrightarrow> mentions_ok registered t \<and> mentions_ok (registered @ registered_paths t) u"
proof (induction t arbitrary: registered)
  case (Cons e t)
  have "registered_paths (e # t) = registered_paths [e] @ registered_paths t"
    using registered_paths_append [of "[e]" t] by simp
  with Cons show ?case by simp
qed simp

lemma event_ok_unnamed: "names_path e = None \<Longrightarrow> event_ok registered e"
  by (cases e) auto

lemma mentions_unnamed: "list_all (\<lambda>e. names_path e = None) t \<Longrightarrow> mentions_ok registered t"
  by (induction t arbitrary: registered) (auto simp: event_ok_unnamed)

definition tidy :: "host_fs \<Rightarrow> SourcePaths \<Rightarrow> trace \<Rightarrow> bool" where
  "tidy F P t \<longleftrightarrow> paths_ok F P t \<and> mentions_ok [] t"

lemma tidy_silent: "tidy F P t \<Longrightarrow> list_all silent es \<Longrightarrow> tidy F P (t @ es)"
  unfolding tidy_def
  by (auto simp: mentions_append list_all_iff silent_def intro!: paths_ok_append mentions_unnamed)

lemma tidy_values: "tidy F P t \<Longrightarrow> appends value_event t u \<Longrightarrow> tidy F P u"
  by (auto elim!: appendsE intro: tidy_silent all_silent)

lemma tidy_ensure:
  assumes "tidy F P t" "ensure_path F f (P, t) = (path, Q, u)"
  shows "tidy F Q u \<and> same_source P Q \<and> tabled Q (path_components path) \<noteq> None
       \<and> path = canonical_step_path F f (source_path_str P) (user_crate_root P)
       \<and> appends is_registration t u"
proof -
  from assms(1) have "paths_ok F P t" by (simp add: tidy_def)
  from ensure_path_step [OF this assms(2)]
  have ok: "paths_ok F Q u" "same_source P Q" "tabled Q (path_components path) \<noteq> None"
    "path = canonical_step_path F f (source_path_str P) (user_crate_root P)" "appends is_registration t u"
    by (auto simp: appends_def)
  obtain es where es: "u = t @ es" "list_all is_registration es" using ok(5) by (rule appendsE)
  have "is_registration e \<Longrightarrow> names_path e = None" for e by (cases e) auto
  then have "list_all (\<lambda>e. names_path e = None) es" using es(2) by (auto simp: list_all_iff)
  then have "mentions_ok [] u"
    using assms(1) by (simp add: es(1) tidy_def mentions_append mentions_unnamed)
  with ok show ?thesis by (simp add: tidy_def)
qed

lemma tabled_registered:
  assumes "tidy F P t"
  shows "tabled P k = Some b \<longleftrightarrow> (k, b) \<in> set (registered_paths t)"
  using assms by (auto simp: tidy_def paths_ok_def) (metis map_of_SomeD, metis map_of_eq_Some_iff)

lemma tidy_named:
  assumes t: "tidy F P t" and e: "names_path e = Some p" and p: "tabled P (path_components p) \<noteq> None"
    and step: "\<And>l c. e = Step p l c \<Longrightarrow> c \<noteq> None \<Longrightarrow> has_table P p"
  shows "tidy F P (t @ [e])"
proof -
  have "\<not> is_registration e" using e by (cases e) auto
  moreover have "path_components p \<in> fst ` set (registered_paths t)"
    using p tabled_registered [OF t] by force
  moreover have "has_table P p \<longleftrightarrow> (path_components p, True) \<in> set (registered_paths t)"
    using tabled_registered [OF t] by (simp add: has_table_def)
  ultimately have "event_ok (registered_paths t) e" "\<not> is_registration e"
    using e step by (cases e; auto)+
  with t show ?thesis by (simp add: tidy_def mentions_append paths_ok_append)
qed

section \<open>What the operations of a recording do\<close>

lemma registration_plain: "is_registration e \<Longrightarrow> plain e"
  by (cases e) auto

abbreviation st_tidy :: "recorder_context \<Rightarrow> snap_state \<Rightarrow> bool" where
  "st_tidy X st \<equiv> tidy (cx_fs X) (ss_paths st) (ss_trace st)"

lemma ensure_in_frame:
  assumes "ensure_in X f st = (path, st')"
  shows "\<exists>P t. ensure_path (cx_fs X) f (ss_paths st, ss_trace st) = (path, P, t) \<and> st' = st\<lparr>ss_paths := P, ss_trace := t\<rparr>"
  using assms by (auto simp: ensure_in_def split: prod.splits)

lemma ensure_in_appends:
  assumes "ensure_in X f st = (path, st')"
  shows "appends is_registration (ss_trace st) (ss_trace st') \<and> ss_fns st' = ss_fns st \<and> ss_envs st' = ss_envs st
       \<and> ss_line st' = ss_line st \<and> ss_types st' = ss_types st"
  using assms
  by (auto simp: ensure_in_def ensure_path_def appends_def Let_def split: prod.splits option.splits if_splits)

lemma ensure_in_tidy:
  assumes "st_tidy X st" "ensure_in X f st = (path, st')"
  shows "st_tidy X st' \<and> same_source (ss_paths st) (ss_paths st') \<and> tabled (ss_paths st') (path_components path) \<noteq> None
       \<and> path = canonical_step_path (cx_fs X) f (source_path_str (ss_paths st)) (user_crate_root (ss_paths st))"
  using tidy_ensure [OF assms(1)] ensure_in_frame [OF assms(2)] by fastforce

lemma visit_line_frame:
  "\<exists>es. ss_trace (visit_line X path line column snap st) =
          ss_trace st @ Step path (uint line) (map_option uint column) # es \<and> list_all value_event es"
  "ss_paths (visit_line X path line column snap st) = ss_paths st"
  "ss_fns (visit_line X path line column snap st) = ss_fns st"
  "ss_line (visit_line X path line column snap st) = Some line"
  "length (ss_envs (visit_line X path line column snap st)) = length (ss_envs st)"
proof -
  define active where "active = (case (case (ss_envs st, extract_let_lhs (strip_line_for_match (model_line (cx_model X) line))) of
      (env # rest, Some name) \<Rightarrow> record_let name (ss_regs st) snap env # rest
    | (envs, _) \<Rightarrow> envs) of env # _ \<Rightarrow> env | [] \<Rightarrow> new_env)"
  show "\<exists>es. ss_trace (visit_line X path line column snap st) =
          ss_trace st @ Step path (uint line) (map_option uint column) # es \<and> list_all value_event es"
    using step_events_grow [of "(ss_types st, ss_trace st @ [Step path (uint line) (map_option uint column)])" "cx_ids X" "cx_model X" line active snap]
    by (auto simp: visit_line_def Let_def active_def appends_def case_prod_beta)
qed (auto simp: visit_line_def Let_def case_prod_beta split: list.splits option.splits)

lemma line_return_frame:
  assumes "line_return X st = (v, st')"
  shows "appends value_event (ss_trace st) (ss_trace st') \<and> ss_paths st' = ss_paths st \<and> ss_fns st' = ss_fns st
       \<and> ss_envs st' = ss_envs st \<and> ss_line st' = ss_line st"
proof (cases "ss_line st")
  case None
  with assms show ?thesis by (auto simp: line_return_def)
next
  case (Some l)
  with assms propagation_grows [of "(ss_types st, ss_trace st)" "cx_ids X" "cx_model X" l "ss_err st"]
  show ?thesis by (auto simp: line_return_def split: prod.splits)
qed

lemma frames_above_less: "fs \<noteq> [] \<Longrightarrow> frames_above target fs < length fs"
  by (induction target fs rule: frames_above.induct) auto

lemma unwind_frame:
  assumes "ss_fns st \<noteq> []"
  obtains n where "n < length (ss_fns st)"
    "unwind cf v st = pop_frames n v st \<or> (cf = None \<and> length (ss_fns st) = 1 \<and> unwind cf v st = emit_in [Return v] st)"
proof (cases cf)
  case None
  show thesis
  proof (cases "length (ss_fns st) > 1")
    case True
    with None that [of 1] show thesis by (simp add: unwind_def)
  next
    case False
    with assms have "length (ss_fns st) = 1" by (cases "ss_fns st") auto
    with None that [of 0] show thesis by (simp add: unwind_def)
  qed
next
  case (Some target)
  with that [of "frames_above target (ss_fns st)"] frames_above_less [OF assms] show thesis by (simp add: unwind_def)
qed

lemma remember_err_frame [simp]:
  "ss_trace (remember_err v st) = ss_trace st" "ss_paths (remember_err v st) = ss_paths st"
  "ss_fns (remember_err v st) = ss_fns st" "ss_envs (remember_err v st) = ss_envs st"
  "ss_line (remember_err v st) = ss_line st"
  by (simp_all add: remember_err_def)

lemma emit_in_frame [simp]:
  "ss_trace (emit_in es st) = ss_trace st @ es" "ss_paths (emit_in es st) = ss_paths st"
  "ss_fns (emit_in es st) = ss_fns st" "ss_envs (emit_in es st) = ss_envs st" "ss_line (emit_in es st) = ss_line st"
  "ss_types (emit_in es st) = ss_types st"
  by (simp_all add: emit_in_def)

lemma after_snapshot_frame [simp]:
  "ss_trace (after_snapshot snap st) = ss_trace st" "ss_paths (after_snapshot snap st) = ss_paths st"
  "ss_fns (after_snapshot snap st) = ss_fns st" "ss_envs (after_snapshot snap st) = ss_envs st"
  "ss_line (after_snapshot snap st) = ss_line st"
  by (simp_all add: after_snapshot_def)

lemma pop_frames_frame [simp]:
  "ss_trace (pop_frames n v st) = ss_trace st @ replicate n (Return v)" "ss_paths (pop_frames n v st) = ss_paths st"
  "ss_fns (pop_frames n v st) = drop n (ss_fns st)" "ss_envs (pop_frames n v st) = drop n (ss_envs st)"
  "ss_line (pop_frames n v st) = ss_line st"
  by (simp_all add: pop_frames_def)

lemma register_values_value: "list_all value_event (register_values tid snap)"
  by (auto simp: register_values_def list_all_iff)

lemma env_values_value: "list_all value_event (env_values X snap st)"
  by (auto simp: env_values_def named_values_def map_filter_def list_all_iff split: list.splits)

section \<open>Calls, returns and frames\<close>

text \<open>The trace has no more open calls than frames; or exactly as many.\<close>

definition depth_le :: "snap_state \<Rightarrow> bool" where
  "depth_le st \<longleftrightarrow> ss_fns st \<noteq> [] \<and> (\<forall>d. nest 0 (ss_trace st) = Some d \<longrightarrow> d \<le> length (ss_fns st))"

definition depth_eq :: "snap_state \<Rightarrow> bool" where
  "depth_eq st \<longleftrightarrow> ss_fns st \<noteq> [] \<and> nest 0 (ss_trace st) = Some (length (ss_fns st))"

lemma nest_appends: "appends plain t u \<Longrightarrow> nest n u = nest n t"
  by (auto elim!: appendsE simp: nest_append nest_plain bind_eq_Some_conv split: bind_splits)

lemma depth_same:
  assumes "appends plain (ss_trace st) (ss_trace st')" "ss_fns st' = ss_fns st"
  shows "depth_le st' \<longleftrightarrow> depth_le st" "depth_eq st' \<longleftrightarrow> depth_eq st"
  using nest_appends [OF assms(1)] assms(2) by (simp_all add: depth_le_def depth_eq_def)

lemma depth_values:
  assumes "appends value_event (ss_trace st) (ss_trace st')" "ss_fns st' = ss_fns st"
  shows "depth_le st' \<longleftrightarrow> depth_le st" "depth_eq st' \<longleftrightarrow> depth_eq st"
  by (rule depth_same [OF appends_weaken [OF assms(1) value_event_plain] assms(2)]; assumption)+

lemma depth_ensure:
  assumes "ensure_in X f st = (path, st')"
  shows "depth_le st' \<longleftrightarrow> depth_le st" "depth_eq st' \<longleftrightarrow> depth_eq st"
  using depth_same [OF appends_weaken [OF conjunct1 [OF ensure_in_appends [OF assms]] registration_plain]]
    ensure_in_appends [OF assms] by auto

text \<open>A call with a frame, and returns that pop frames.\<close>

lemma depth_call:
  assumes "appends plain (ss_trace st) t" "ss_trace st' = t @ [Call i a]" "ss_fns st' = f # ss_fns st"
  shows "depth_le st \<Longrightarrow> depth_le st'" "depth_eq st \<Longrightarrow> depth_eq st'"
  using nest_appends [OF assms(1)] assms(2,3)
  by (auto simp: depth_le_def depth_eq_def nest_append bind_eq_Some_conv)

lemma depth_pop:
  assumes "n < length (ss_fns st)"
  shows "depth_le st \<Longrightarrow> depth_le (pop_frames n v st)" "depth_eq st \<Longrightarrow> depth_eq (pop_frames n v st)"
  using assms by (auto simp: depth_le_def depth_eq_def nest_append nest_returns bind_eq_Some_conv split: if_splits)

lemma depth_lone_return: "depth_le st \<Longrightarrow> depth_le (emit_in [Return v] st)"
  by (auto simp: depth_le_def nest_append bind_eq_Some_conv split: if_splits)

lemma depth_unwind:
  assumes "ss_fns st \<noteq> []"
  shows "depth_le st \<Longrightarrow> depth_le (unwind cf v st)" "depth_eq st \<Longrightarrow> cf \<noteq> None \<Longrightarrow> depth_eq (unwind cf v st)"
  by (rule unwind_frame [OF assms, of cf v]; use depth_pop depth_lone_return in auto)+

lemma push_frame_trace:
  "\<exists>t i. appends plain (ss_trace st) t \<and> ss_trace (push_frame X name f line st) = t @ [Call i []]
     \<and> ss_fns (push_frame X name f line st) = name # ss_fns st
     \<and> ss_line (push_frame X name f line st) = ss_line st"
proof -
  obtain path st' where e: "ensure_in X f st = (path, st')" by (metis prod.exhaust)
  from ensure_in_appends [OF e] have a: "appends is_registration (ss_trace st) (ss_trace st')"
    "ss_fns st' = ss_fns st" "ss_line st' = ss_line st" by auto
  have "appends plain (ss_trace st) (ss_trace st' @ [EnsureFunction name path (uint line)])"
    by (rule appends_trans [OF appends_weaken [OF a(1) registration_plain] appends_here]) auto
  with a(2,3) e show ?thesis
    by (auto simp: push_frame_def ensure_function_id_def)
qed

lemma depth_push:
  "depth_le st \<Longrightarrow> depth_le (push_frame X name f line st)"
  "depth_eq st \<Longrightarrow> depth_eq (push_frame X name f line st)"
  using push_frame_trace [of st X name f line] depth_call by metis+

lemma visit_line_plain: "appends plain (ss_trace st) (ss_trace (visit_line X path line column snap st))"
proof -
  obtain es where es: "ss_trace (visit_line X path line column snap st) =
      ss_trace st @ Step path (uint line) (map_option uint column) # es" "list_all value_event es"
    using visit_line_frame(1) by blast
  have "list_all plain (Step path (uint line) (map_option uint column) # es)" using all_plain [OF es(2)] by simp
  then show ?thesis unfolding es(1) by (rule appends_here)
qed

lemma depth_visit_line:
  "depth_le (visit_line X path line column snap st) \<longleftrightarrow> depth_le st"
  "depth_eq (visit_line X path line column snap st) \<longleftrightarrow> depth_eq st"
  using depth_same [OF visit_line_plain visit_line_frame(3)] by auto

lemma push_frame_tidy:
  assumes "st_tidy X st"
  shows "st_tidy X (push_frame X name f line st) \<and> same_source (ss_paths st) (ss_paths (push_frame X name f line st))"
proof -
  obtain path st' where e: "ensure_in X f st = (path, st')" by (metis prod.exhaust)
  from ensure_in_tidy [OF assms e] have t: "st_tidy X st'" "same_source (ss_paths st) (ss_paths st')"
    "tabled (ss_paths st') (path_components path) \<noteq> None" by auto
  have "tidy (cx_fs X) (ss_paths st') (ss_trace st' @ [EnsureFunction name path (uint line)])"
    by (rule tidy_named [OF t(1) _ t(3)]) auto
  from tidy_silent [OF this, of "[Call i []]" for i] t(2) e show ?thesis
    by (auto simp: push_frame_def ensure_function_id_def silent_def)
qed

lemma unwind_tidy:
  assumes "st_tidy X st" "ss_fns st \<noteq> []"
  shows "st_tidy X (unwind cf v st) \<and> ss_paths (unwind cf v st) = ss_paths st"
proof -
  have "st_tidy X (pop_frames n v st)" for n
    using tidy_silent [OF assms(1), of "replicate n (Return v)"] by (auto simp: silent_def list_all_iff)
  moreover have "st_tidy X (emit_in [Return v] st)"
    using tidy_silent [OF assms(1), of "[Return v]"] by (simp add: silent_def)
  ultimately show ?thesis by (rule_tac unwind_frame [OF assms(2), of cf v]) auto
qed

lemma visit_line_tidy:
  assumes t: "st_tidy X st" and p: "tabled (ss_paths st) (path_components path) \<noteq> None"
    and c: "column \<noteq> None \<Longrightarrow> has_table (ss_paths st) path"
  shows "st_tidy X (visit_line X path line column snap st)"
proof -
  obtain es where es: "ss_trace (visit_line X path line column snap st) =
      (ss_trace st @ [Step path (uint line) (map_option uint column)]) @ es" "list_all value_event es"
    using visit_line_frame(1) [of X path line column snap st] by auto
  have "tidy (cx_fs X) (ss_paths st) (ss_trace st @ [Step path (uint line) (map_option uint column)])"
    by (rule tidy_named [OF t _ p]) (use c in auto)
  from tidy_silent [OF this all_silent [OF es(2)]] show ?thesis
    unfolding es(1) visit_line_frame(2) .
qed

end
