(* ===== verification/Recorder_Properties.thy ===== *)
theory Recorder_Properties
  imports Recorder_Facts
begin

text \<open>
  What the snapshot recorders guarantee: paths are registered before they are named, calls
  and returns match the frames, every visited line has its step; and where the recorder for
  cross-program traces returns more often than it calls.
\<close>

section \<open>One snapshot\<close>

lemma snap_jump_tidy:
  assumes "st_tidy X st" "ss_fns st \<noteq> []"
  shows "st_tidy X (snap_jump X a f line st) \<and> same_source (ss_paths st) (ss_paths (snap_jump X a f line st))
       \<and> ss_fns (snap_jump X a f line st) \<noteq> []"
proof -
  have "st_tidy X (unwind cf v (remember_err v st'))" "ss_paths (unwind cf v (remember_err v st')) = ss_paths st"
    and "ss_fns (unwind cf v (remember_err v st')) \<noteq> []"
    if "line_return X st = (v, st')" for cf v st'
  proof -
    from line_return_frame [OF that] have fr: "appends value_event (ss_trace st) (ss_trace st')"
      "ss_paths st' = ss_paths st" "ss_fns st' = ss_fns st" by auto
    have t: "st_tidy X (remember_err v st')" using tidy_values [OF assms(1) fr(1)] fr(2) by simp
    have ne: "ss_fns (remember_err v st') \<noteq> []" using assms(2) fr(3) by simp
    from unwind_tidy [OF t ne, of cf v] fr(2)
    show "st_tidy X (unwind cf v (remember_err v st'))" "ss_paths (unwind cf v (remember_err v st')) = ss_paths st"
      by auto
    show "ss_fns (unwind cf v (remember_err v st')) \<noteq> []"
      by (rule unwind_frame [OF ne, of cf v]) (use ne in auto)
  qed
  then show ?thesis
    using assms push_frame_tidy [OF assms(1)] push_frame_trace [of st X]
    by (auto simp: snap_jump_def Let_def case_prod_beta same_source_def split: option.splits)
       (metis list.distinct(1))+
qed

lemma snap_jump_depth:
  assumes "depth_eq st" "fn_at (cx_model X) line \<noteq> None"
  shows "depth_eq (snap_jump X a f line st)"
proof -
  have "depth_eq (unwind (fn_at (cx_model X) line) v (remember_err v st'))" if "line_return X st = (v, st')" for v st'
  proof -
    from line_return_frame [OF that] depth_values(2) [of st "remember_err v st'"] assms(1)
    have "depth_eq (remember_err v st')" by simp
    moreover from this have "ss_fns (remember_err v st') \<noteq> []" by (simp add: depth_eq_def)
    ultimately show ?thesis using depth_unwind(2) assms(2) by blast
  qed
  then show ?thesis
    using assms(1) depth_push(2) by (auto simp: snap_jump_def Let_def case_prod_beta split: option.splits)
qed

lemma snap_visit_frame:
  assumes "st_tidy X st"
  shows "st_tidy X (snap_visit X f line column snap st)
       \<and> same_source (ss_paths st) (ss_paths (snap_visit X f line column snap st))
       \<and> appends plain (ss_trace st) (ss_trace (snap_visit X f line column snap st))
       \<and> ss_fns (snap_visit X f line column snap st) = ss_fns st
       \<and> ss_line (snap_visit X f line column snap st) = Some line"
proof (cases "ss_line st \<noteq> Some line \<or> column \<noteq> None \<and> ss_column st \<noteq> column")
  case True
  obtain path st' where e: "ensure_in X f st = (path, st')" by (metis prod.exhaust)
  from ensure_in_tidy [OF assms e] have t: "st_tidy X st'" "same_source (ss_paths st) (ss_paths st')"
    "tabled (ss_paths st') (path_components path) \<noteq> None" by auto
  from ensure_in_appends [OF e] have a: "appends is_registration (ss_trace st) (ss_trace st')" "ss_fns st' = ss_fns st"
    by auto
  let ?c = "if has_table (ss_paths st') path then column else None"
  have "appends plain (ss_trace st) (ss_trace (visit_line X path line ?c snap st'))"
    by (rule appends_trans [OF appends_weaken [OF a(1) registration_plain] visit_line_plain])
  moreover have "st_tidy X (visit_line X path line ?c snap st')"
    by (rule visit_line_tidy [OF t(1,3)]) (simp split: if_splits)
  ultimately show ?thesis
    using True e t(2) a(2) visit_line_frame(2-4) [of X path line ?c snap st'] by (auto simp: snap_visit_def Let_def)
next
  case False
  with assms show ?thesis by (auto simp: snap_visit_def same_source_def)
qed

text \<open>A state keeps to the source it was opened for, names only registered paths, has the step
  of its current line, and has a frame.\<close>

definition recording_ok :: "recorder_context \<Rightarrow> SourcePaths \<Rightarrow> snap_state \<Rightarrow> bool" where
  "recording_ok X P st \<longleftrightarrow>
     st_tidy X st \<and> same_source P (ss_paths st) \<and> ss_fns st \<noteq> []
     \<and> (\<forall>l. ss_line st = Some l \<longrightarrow> (\<exists>p c. Step p (uint l) c \<in> set (ss_trace st)))"

lemma appends_set: "appends Q t u \<Longrightarrow> set t \<subseteq> set u"
  by (auto elim: appendsE)

lemma snap_jump_line:
  "ss_line (snap_jump X a f line st) = ss_line st \<and> set (ss_trace st) \<subseteq> set (ss_trace (snap_jump X a f line st))"
proof -
  have "ss_line (unwind cf v (remember_err v st')) = ss_line st
      \<and> set (ss_trace st) \<subseteq> set (ss_trace (unwind cf v (remember_err v st')))"
    if "line_return X st = (v, st')" for cf v st'
    using line_return_frame [OF that] appends_set [of value_event "ss_trace st" "ss_trace st'"]
    by (auto simp: unwind_def split: option.splits)
  moreover have "set (ss_trace st) \<subseteq> set (ss_trace (push_frame X n f line st)) \<and> ss_line (push_frame X n f line st) = ss_line st" for n
    using push_frame_trace [of st X n f line] appends_set [of plain "ss_trace st"] by fastforce
  ultimately show ?thesis
    by (auto simp: snap_jump_def Let_def case_prod_beta split: option.splits)
qed

lemma snap_visit_step:
  assumes "st_tidy X st" "\<forall>l. ss_line st = Some l \<longrightarrow> (\<exists>p c. Step p (uint l) c \<in> set (ss_trace st))"
  shows "\<exists>p c. Step p (uint line) c \<in> set (ss_trace (snap_visit X f line column snap st))"
proof (cases "ss_line st \<noteq> Some line \<or> column \<noteq> None \<and> ss_column st \<noteq> column")
  case True
  obtain path st' where e: "ensure_in X f st = (path, st')" by (metis prod.exhaust)
  let ?c = "if has_table (ss_paths st') path then column else None"
  have "Step path (uint line) (map_option uint ?c) \<in> set (ss_trace (visit_line X path line ?c snap st'))"
    using visit_line_frame(1) [of X path line ?c snap st'] by auto
  moreover have "snap_visit X f line column snap st = visit_line X path line ?c snap st'"
    using True e by (simp add: snap_visit_def)
  ultimately show ?thesis by metis
next
  case False
  with assms(2) show ?thesis by (auto simp: snap_visit_def)
qed

definition user_location :: "recorder_context \<Rightarrow> SourcePaths \<Rightarrow> locations \<Rightarrow> RegisterSnapshot \<Rightarrow> u32 \<Rightarrow> bool" where
  "user_location X P locs snap line \<longleftrightarrow>
     (\<exists>f c. locs (pc snap) = Some (f, line, c)
          \<and> \<not> is_third_party_for_user (cx_fs X) (source_path_str P) f (user_crate_root P))"

text \<open>What one snapshot guarantees.\<close>

definition advanced :: "recorder_context \<Rightarrow> SourcePaths \<Rightarrow> locations \<Rightarrow> RegisterSnapshot \<Rightarrow> snap_state \<Rightarrow> snap_state \<Rightarrow> bool" where
  "advanced X P locs snap st st' \<longleftrightarrow>
     recording_ok X P st' \<and> set (ss_trace st) \<subseteq> set (ss_trace st')
     \<and> (\<forall>line. user_location X P locs snap line \<longrightarrow> (\<exists>p c. Step p (uint line) c \<in> set (ss_trace st')))
     \<and> (depth_eq st \<longrightarrow> (\<forall>line. user_location X P locs snap line \<longrightarrow> fn_at (cx_model X) line \<noteq> None) \<longrightarrow> depth_eq st')"

lemma snap_step_elsewhere:
  assumes ok: "recording_ok X P st" and other: "\<nexists>line. user_location X P locs snap line"
  shows "advanced X P locs snap st (snap_step X locs snap st)"
proof -
  from ok have "same_source P (ss_paths st)" by (simp add: recording_ok_def)
  then have third: "third_party X st f = is_third_party_for_user (cx_fs X) (source_path_str P) f (user_crate_root P)" for f
    by (simp add: third_party_def same_source_def)
  have "snap_step X locs snap st \<in> {st, after_snapshot snap st}"
    using other third by (auto simp: snap_step_def user_location_def split: option.splits prod.splits)
  moreover have "depth_eq (after_snapshot snap st) = depth_eq st" by (simp add: depth_eq_def)
  ultimately show ?thesis using ok other by (auto simp: recording_ok_def advanced_def)
qed

lemma snap_step_here:
  assumes ok: "recording_ok X P st" and loc: "locs (pc snap) = Some (f, l, c)"
    and user: "\<not> is_third_party_for_user (cx_fs X) (source_path_str P) f (user_crate_root P)"
  shows "advanced X P locs snap st (snap_step X locs snap st)"
proof -
  from ok have t: "st_tidy X st" and same: "same_source P (ss_paths st)" and ne: "ss_fns st \<noteq> []"
    and line: "\<forall>l. ss_line st = Some l \<longrightarrow> (\<exists>p c. Step p (uint l) c \<in> set (ss_trace st))"
    by (auto simp: recording_ok_def)
  from same user have "\<not> third_party X st f" by (simp add: third_party_def same_source_def)
  note here = loc this
  define s1 where "s1 = snap_jump X (pc snap) f l st"
  define s2 where "s2 = snap_visit X f l c snap s1"
  define s3 where "s3 = snap_step X locs snap st"
  have tr: "appends value_event (ss_trace s2) (ss_trace s3)"
    and rest: "ss_paths s3 = ss_paths s2" "ss_fns s3 = ss_fns s2" "ss_line s3 = ss_line s2"
    using here register_values_value env_values_value
    by (auto simp: snap_step_def Let_def s1_def s2_def s3_def appends_def)
  have j: "st_tidy X s1" "same_source (ss_paths st) (ss_paths s1)" "ss_fns s1 \<noteq> []"
    using snap_jump_tidy [OF t ne] by (auto simp: s1_def)
  have jl: "ss_line s1 = ss_line st" "set (ss_trace st) \<subseteq> set (ss_trace s1)"
    using snap_jump_line by (auto simp: s1_def)
  from snap_visit_frame [OF j(1), of f l c snap]
  have v: "st_tidy X s2" "same_source (ss_paths s1) (ss_paths s2)" "appends plain (ss_trace s1) (ss_trace s2)"
    "ss_fns s2 = ss_fns s1" "ss_line s2 = Some l" by (simp_all add: s2_def)
  have line1: "\<forall>l. ss_line s1 = Some l \<longrightarrow> (\<exists>p c. Step p (uint l) c \<in> set (ss_trace s1))"
    using line jl by (metis subsetD)
  have sub: "set (ss_trace s2) \<subseteq> set (ss_trace s3)" "set (ss_trace st) \<subseteq> set (ss_trace s3)"
    using appends_set [OF tr] appends_set [OF v(3)] jl(2) by auto
  have step: "\<exists>p c. Step p (uint l) c \<in> set (ss_trace s3)"
    using snap_visit_step [OF j(1) line1, of l f c snap] sub(1) unfolding s2_def by blast
  have "st_tidy X s3" using tidy_values [OF v(1) tr] rest(1) by simp
  then have "recording_ok X P s3"
    using rest v j(2,3) same step same_source_trans by (auto simp: recording_ok_def)
  moreover have "depth_eq s3" if "depth_eq st" "fn_at (cx_model X) l \<noteq> None"
  proof -
    have "depth_eq s1" using snap_jump_depth [OF that] by (simp add: s1_def)
    then have "depth_eq s2" using depth_same(2) [OF v(3,4)] by blast
    then show ?thesis using depth_values(2) [OF tr rest(2)] by blast
  qed
  ultimately show ?thesis
    using sub(2) step loc user by (auto simp: user_location_def advanced_def s3_def)
qed

lemma snap_step_ok: "recording_ok X P st \<Longrightarrow> advanced X P locs snap st (snap_step X locs snap st)"
  using snap_step_elsewhere snap_step_here by (metis user_location_def)

section \<open>A whole recording\<close>

lemma open_recording_ok:
  fixes outer :: string
  assumes t: "tidy (cx_fs X) P t" and p: "tabled P (path_components source) \<noteq> None"
  defines "st \<equiv> open_recording X source outer (P, t)"
  shows "recording_ok X P st \<and> ss_line st = None \<and> ss_fns st = [outer]
       \<and> (nest 0 t = Some 0 \<longrightarrow> depth_eq st)"
proof -
  define s0 where "s0 = new_type_ids (cx_ids X) (t @ [Start source 1])"
  define s1 where "s1 = scan_all_types (cx_ids X) (cx_model X) s0"
  have grow: "appends value_event (t @ [Start source 1]) (snd s1)"
    unfolding s1_def s0_def by (rule appends_trans [OF new_type_ids_grows scan_all_types_grows])
  have trace: "ss_trace st = (snd s1 @ [EnsureFunction outer source 1]) @ [Call (function_id_of (cx_ids X) (snd s1) outer source 1) []]"
    and paths: "ss_paths st = P" and rest: "ss_line st = None" "ss_fns st = [outer]"
    by (simp_all add: st_def open_recording_def s1_def s0_def ensure_function_id_def case_prod_beta Let_def)
  have "tidy (cx_fs X) P (snd s1)"
    by (rule tidy_values [OF tidy_named [OF t _ p] grow]) auto
  then have "tidy (cx_fs X) P (snd s1 @ [EnsureFunction outer source 1])" by (rule tidy_named [OF _ _ p]) auto
  from tidy_silent [OF this, of "[Call i []]" for i] have "st_tidy X st"
    unfolding paths trace by (simp add: silent_def)
  moreover have "depth_eq st" if "nest 0 t = Some 0"
    using that nest_appends [OF appends_weaken [OF grow value_event_plain], of 0]
    unfolding depth_eq_def trace rest by (simp add: nest_append)
  ultimately show ?thesis using paths rest by (simp add: recording_ok_def same_source_def)
qed

text \<open>The source itself is registered first, under its own name.\<close>

lemma source_registered:
  assumes "list_all silent t" "ensure_path F source (new_source_paths F source, t) = (path, P, u)"
  shows "tidy F P u \<and> same_source (new_source_paths F source) P \<and> tabled P (path_components source) \<noteq> None
       \<and> appends is_registration t u"
proof -
  have "tidy F (new_source_paths F source) t"
    using assms(1) by (auto simp: tidy_def list_all_iff silent_def intro!: paths_ok_new mentions_unnamed)
  from tidy_ensure [OF this assms(2)] show ?thesis
    by (auto simp: canonical_step_path_def same_logical_source_def new_source_paths_def)
qed

lemma tidy_ensure_all:
  assumes "tidy F P t"
  shows "tidy F (fst (ensure_all F files (P, t))) (snd (ensure_all F files (P, t)))
       \<and> same_source P (fst (ensure_all F files (P, t)))
       \<and> (\<forall>k. tabled P k \<noteq> None \<longrightarrow> tabled (fst (ensure_all F files (P, t))) k \<noteq> None)
       \<and> appends is_registration t (snd (ensure_all F files (P, t)))"
  using assms
proof (induction files arbitrary: P t)
  case Nil
  then show ?case by (simp add: same_source_def)
next
  case (Cons f fs)
  obtain path Q u where e: "ensure_path F f (P, t) = (path, Q, u)" by (metis prod.exhaust)
  from tidy_ensure [OF Cons.prems e] have 1: "tidy F Q u" "same_source P Q" "appends is_registration t u" by auto
  have "tabled P \<subseteq>\<^sub>m tabled Q"
    using ensure_path_step [OF _ e] Cons.prems by (simp add: tidy_def)
  then have "tabled P k \<noteq> None \<Longrightarrow> tabled Q k \<noteq> None" for k by (metis domIff map_le_def)
  with Cons.IH [OF 1(1)] 1(2,3) e show ?case
    by (auto intro: same_source_trans appends_trans)
qed

lemma start_recording_ok:
  assumes t: "list_all silent t" and st_def: "st = start_recording X snaps locs source t"
  shows "recording_ok X (new_source_paths (cx_fs X) source) st \<and> (nest 0 t = Some 0 \<longrightarrow> depth_eq st)"
proof -
  let ?N = "new_source_paths (cx_fs X) source"
  let ?t = "t @ [EnableColumnAwareSteps, EnableColumnBreakpoints, EnableColumnMotions]"
  have t': "list_all silent ?t" using t by (simp add: silent_def)
  obtain path P u where e: "ensure_path (cx_fs X) source (?N, ?t) = (path, P, u)" by (metis prod.exhaust)
  note 1 = source_registered [OF t' e]
  obtain Q v where f: "ensure_all (cx_fs X) (map (\<lambda>(_, f, _, _). f) locs) (P, u) = (Q, v)" by (metis prod.exhaust)
  from tidy_ensure_all [of "cx_fs X" P u] 1 f
  have 2: "tidy (cx_fs X) Q v" "same_source P Q" "tabled Q (path_components source) \<noteq> None"
    "appends is_registration u v" by (metis fst_conv snd_conv)+
  define st0 where "st0 = open_recording X source
    (outer_fn (cx_model X) (\<lambda>a. map_option (\<lambda>(f, l, c). l) (location_map locs a)) snaps) (Q, v)"
  have st: "\<exists>es. st = emit_in es st0 \<and> list_all value_event es"
  proof (cases snaps)
    case Nil
    then have "st = emit_in [] st0"
      using e f by (simp add: st_def start_recording_def Let_def st0_def emit_in_def)
    then show ?thesis by auto
  next
    case (Cons first rest)
    with e f have "st = emit_in (env_values X first st0) st0"
      by (simp add: st_def start_recording_def Let_def st0_def)
    with env_values_value show ?thesis by blast
  qed
  then obtain es where es: "st = emit_in es st0" "list_all value_event es" by blast
  have o: "recording_ok X Q st0" "ss_line st0 = None" "nest 0 v = Some 0 \<longrightarrow> depth_eq st0"
    using open_recording_ok [OF 2(1,3)] by (simp_all add: st0_def)
  have "appends value_event (ss_trace st0) (ss_trace st)" unfolding es(1) using es(2) by (simp add: appends_here)
  note grow = this
  have "recording_ok X ?N st"
    using o(1,2) tidy_values [OF _ grow] 1 2(2) es(1) same_source_trans
    by (auto simp: recording_ok_def)
  moreover have "nest 0 v = nest 0 t"
    using nest_appends [OF appends_weaken [OF appends_trans [OF conjunct2 [OF conjunct2 [OF conjunct2 [OF 1]]] 2(4)] registration_plain], of 0]
    by (simp add: nest_append bind_eq_Some_conv split: bind_splits)
  ultimately show ?thesis using o(3) depth_values(2) [OF grow] es(1) by simp
qed

lemma snap_loop_ok:
  assumes "recording_ok X P st"
  shows "recording_ok X P (snap_loop X locs snaps st) \<and> set (ss_trace st) \<subseteq> set (ss_trace (snap_loop X locs snaps st))
       \<and> (\<forall>snap \<in> set snaps. \<forall>line. user_location X P locs snap line \<longrightarrow>
            (\<exists>p c. Step p (uint line) c \<in> set (ss_trace (snap_loop X locs snaps st))))
       \<and> (depth_eq st \<longrightarrow> (\<forall>snap \<in> set snaps. \<forall>line. user_location X P locs snap line \<longrightarrow> fn_at (cx_model X) line \<noteq> None)
            \<longrightarrow> depth_eq (snap_loop X locs snaps st))"
  using assms
proof (induction snaps arbitrary: st)
  case Nil
  then show ?case by (simp add: snap_loop_def)
next
  case (Cons snap snaps)
  let ?s = "snap_step X locs snap st"
  from snap_step_ok [OF Cons.prems, of locs snap] have 1: "recording_ok X P ?s" "set (ss_trace st) \<subseteq> set (ss_trace ?s)"
    "\<And>line. user_location X P locs snap line \<Longrightarrow> \<exists>p c. Step p (uint line) c \<in> set (ss_trace ?s)"
    "depth_eq st \<Longrightarrow> (\<And>line. user_location X P locs snap line \<Longrightarrow> fn_at (cx_model X) line \<noteq> None) \<Longrightarrow> depth_eq ?s"
    by (auto simp: advanced_def)
  have 2: "snap_loop X locs (snap # snaps) st = snap_loop X locs snaps ?s" by (simp add: snap_loop_def)
  note 3 = Cons.IH [OF 1(1)]
  have "\<exists>p c. Step p (uint line) c \<in> set (ss_trace (snap_loop X locs snaps ?s))"
    if "user_location X P locs snap line" for line
    using 1(3) [OF that] 3 by blast
  with 1(2,4) 3 show ?case unfolding 2 by (intro conjI impI) (auto 0 3)
qed

text \<open>The state after the last snapshot, and the trace that the closing return completes.\<close>

definition context_of :: "ids \<Rightarrow> host_fs \<Rightarrow> (string list \<Rightarrow> string list) \<Rightarrow> string \<Rightarrow> recorder_context" where
  "context_of W F ord source =
     \<lparr>cx_ids = W, cx_fs = F, cx_model = load_model (fs_read_to_string F) source, cx_order = ord\<rparr>"

definition last_state ::
  "recorder_context \<Rightarrow> RegisterSnapshot list \<Rightarrow> (u64 \<times> string \<times> u32 \<times> u32 option) list \<Rightarrow> string \<Rightarrow> trace \<Rightarrow> snap_state" where
  "last_state X snaps locs source t = snap_loop X (location_map locs) snaps (start_recording X snaps locs source t)"

lemma into_writer_trace:
  assumes "X = context_of W F ord source" "u = record_from_snapshots_into_writer W F ord snaps locs source t"
  obtains es v where "u = ss_trace (last_state X snaps locs source t) @ es @ [Return v]" "list_all value_event es"
proof -
  obtain v st where r: "line_return X (last_state X snaps locs source t) = (v, st)" by (metis prod.exhaust)
  from line_return_frame [OF r] obtain es
    where es: "ss_trace st = ss_trace (last_state X snaps locs source t) @ es" "list_all value_event es"
    by (auto elim!: appendsE)
  from assms r have "u = ss_trace st @ [Return v]"
    by (simp add: record_from_snapshots_into_writer_def last_state_def context_of_def)
  with es that show thesis by simp
qed

lemma last_state_ok:
  assumes "list_all silent t" "cx_fs X = F"
  shows "recording_ok X (new_source_paths F source) (last_state X snaps locs source t)"
  unfolding last_state_def assms(2) [symmetric]
  by (rule conjunct1 [OF snap_loop_ok [OF conjunct1 [OF start_recording_ok [OF assms(1) refl]]]])

text \<open>
  C6: whatever the snapshots, the locations and the files of the host are, a recording
  registers every path exactly once, and before any step, function or start names it; and a
  step gives a column only when its path was registered with a table of line lengths.
\<close>

theorem snapshot_paths_first:
  assumes "list_all silent t" "u = record_from_snapshots_into_writer W F ord snaps locs source t"
  shows "mentions_ok [] u \<and> distinct (map fst (registered_paths u))"
proof -
  let ?X = "context_of W F ord source"
  have F: "cx_fs ?X = F" by (simp add: context_of_def)
  obtain es v where u: "u = ss_trace (last_state ?X snaps locs source t) @ es @ [Return v]" "list_all value_event es"
    using into_writer_trace [OF refl assms(2)] .
  from last_state_ok [OF assms(1) F] have ok: "tidy F (ss_paths (last_state ?X snaps locs source t)) (ss_trace (last_state ?X snaps locs source t))"
    by (simp add: recording_ok_def F)
  have "list_all silent (es @ [Return v])" using all_silent [OF u(2)] by (simp add: silent_def)
  from tidy_silent [OF ok this] show ?thesis unfolding u(1) by (simp add: tidy_def paths_ok_def)
qed


text \<open>
  C7: calls and returns of a recording follow its frames. When every line in a file of the
  user lies in a known function, no return of the trace lacks its call, and the calls left
  open at the end are exactly the frames above the outermost function.
\<close>

theorem snapshot_calls:
  assumes "list_all silent t" "nest 0 t = Some 0" "X = context_of W F ord source"
    and "\<And>snap line. snap \<in> set snaps \<Longrightarrow>
           user_location X (new_source_paths F source) (location_map locs) snap line \<Longrightarrow> fn_at (cx_model X) line \<noteq> None"
  shows "nest 0 (record_from_snapshots_into_writer W F ord snaps locs source t)
       = Some (length (ss_fns (last_state X snaps locs source t)) - 1)"
proof -
  have F: "cx_fs X = F" by (simp add: assms(3) context_of_def)
  from start_recording_ok [OF assms(1) refl, of X] assms(2)
  have "recording_ok X (new_source_paths F source) (start_recording X snaps locs source t)"
    "depth_eq (start_recording X snaps locs source t)" by (simp_all add: F)
  with snap_loop_ok assms(4) have "depth_eq (last_state X snaps locs source t)"
    unfolding last_state_def by blast
  moreover obtain es v where u: "record_from_snapshots_into_writer W F ord snaps locs source t
      = ss_trace (last_state X snaps locs source t) @ es @ [Return v]" "list_all value_event es"
    using into_writer_trace [OF assms(3) refl] .
  ultimately show ?thesis
    unfolding u(1) by (auto simp: depth_eq_def nest_append nest_plain all_plain)
qed

section \<open>Two functions\<close>

text \<open>A program that calls once and stops in the callee: the call stays open.\<close>

definition plain_ids :: ids where
  "plain_ids = \<lparr>type_id_of = (\<lambda>t k n. 0), raw_type_id_of = (\<lambda>t r. 0), function_id_of = (\<lambda>t n p l. 0)\<rparr>"

definition two_functions :: host_fs where
  "two_functions = \<lparr>fs_exists = (\<lambda>p. False), fs_is_file = (\<lambda>p. False),
     fs_read_to_string = (\<lambda>p. Some ''fn a() {\<newline>  b();\<newline>}\<newline>fn b() {\<newline>  x;\<newline>}\<newline>''),
     fs_bytes = (\<lambda>p. None), fs_entries = (\<lambda>p. None)\<rparr>"

abbreviation two_context :: recorder_context where
  "two_context \<equiv> context_of plain_ids two_functions id ''m.rs''"

definition two_locations :: "(u64 \<times> string \<times> u32 \<times> u32 option) list" where
  "two_locations = [(0, ''m.rs'', 2, None), (10, ''m.rs'', 5, None)]"

lemma two_model: "fn_at (cx_model two_context) 2 = Some ''a''" "fn_at (cx_model two_context) 5 = Some ''b''"
  by code_simp+

lemma two_located:
  "user_location X P (location_map two_locations) snap line \<Longrightarrow> line = 2 \<or> line = 5"
  by (auto simp: user_location_def two_locations_def location_map_def split: if_splits)

lemma snap_step_user:
  assumes "recording_ok X P st" "locs (pc snap) = Some (f, l, c)"
    and "\<not> is_third_party_for_user (cx_fs X) (source_path_str P) f (user_crate_root P)"
  shows "ss_fns (snap_step X locs snap st) = ss_fns (snap_jump X (pc snap) f l st)
       \<and> ss_line (snap_step X locs snap st) = Some l \<and> ss_pc (snap_step X locs snap st) = Some (pc snap)"
proof -
  from assms(1) have "st_tidy X (snap_jump X (pc snap) f l st)" "same_source P (ss_paths st)"
    using snap_jump_tidy by (auto simp: recording_ok_def)
  with snap_visit_frame [of X "snap_jump X (pc snap) f l st" f l c snap] assms(2,3) show ?thesis
    by (simp add: snap_step_def Let_def third_party_def same_source_def after_snapshot_def)
qed

lemma start_recording_idle: "ss_pc (start_recording X snaps locs source t) = None"
  "length (ss_fns (start_recording X snaps locs source t)) = 1"
  by (auto simp: start_recording_def Let_def open_recording_def emit_in_def case_prod_beta split: list.splits)

lemma two_frames: "length (ss_fns (last_state two_context [snap_at 0, snap_at 10] two_locations ''m.rs'' [])) = 2"
proof -
  let ?X = two_context and ?P = "new_source_paths two_functions ''m.rs''" and ?L = "location_map two_locations"
  define s0 where "s0 = start_recording ?X [snap_at 0, snap_at 10] two_locations ''m.rs'' []"
  define s1 where "s1 = snap_step ?X ?L (snap_at 0) s0"
  have F: "cx_fs ?X = two_functions" by (simp add: context_of_def)
  have user: "\<not> is_third_party_for_user (cx_fs ?X) (source_path_str ?P) ''m.rs'' (user_crate_root ?P)"
    by (simp add: is_third_party_for_user_def same_logical_source_def new_source_paths_def)
  have locs: "?L (pc (snap_at 0)) = Some (''m.rs'', 2, None)" "?L (pc (snap_at 10)) = Some (''m.rs'', 5, None)"
    by (simp_all add: two_locations_def location_map_def)
  have ok0: "recording_ok ?X ?P s0"
    using start_recording_ok [OF _ refl, of "[]" ?X] by (simp add: s0_def F)
  have ok1: "recording_ok ?X ?P s1"
    using snap_step_ok [OF ok0] by (simp add: advanced_def s1_def)
  have fns: "ss_fns s1 = ss_fns s0" "ss_line s1 = Some 2" "ss_pc s1 = Some 0"
    using snap_step_user [where locs = ?L, OF ok0 locs(1) user] start_recording_idle(1)
    by (simp_all add: s1_def snap_jump_def s0_def)
  have "ss_fns (snap_jump ?X 10 ''m.rs'' 5 s1) = ''b'' # ss_fns s1"
    using push_frame_trace [of s1 ?X "''b''" "''m.rs''" 5]
    by (auto simp: snap_jump_def fns(2,3) Let_def two_model far_jump_def crosses_def prev_fn_def callee_name_def)
  then show ?thesis
    using snap_step_user [where locs = ?L, OF ok1 locs(2) user] fns(1) start_recording_idle(2) [of ?X]
    by (simp add: last_state_def snap_loop_def s1_def s0_def)
qed

theorem snapshot_calls_witness:
  "nest 0 (record_from_snapshots_into_writer plain_ids two_functions id [snap_at 0, snap_at 10] two_locations ''m.rs'' [])
   = Some 1"
proof -
  have "fn_at (cx_model two_context) line \<noteq> None"
    if "user_location two_context (new_source_paths two_functions ''m.rs'') (location_map two_locations) snap line" for snap line
    using two_located [OF that] by (auto simp: two_model)
  from snapshot_calls [OF _ _ refl this, of "[]"] show ?thesis by (simp add: two_frames)
qed


theorem snapshot_paths_first_witness:
  "\<exists>u. u = record_from_snapshots_into_writer plain_ids two_functions id [snap_at 0] two_locations ''m.rs'' [BeginEvents ''trace.bin'']
     \<and> mentions_ok [] u"
  using snapshot_paths_first [OF _ refl, of "[BeginEvents ''trace.bin'']"] by (simp add: silent_def)

section \<open>A recording only appends\<close>

abbreviation extends_trace :: "trace \<Rightarrow> trace \<Rightarrow> bool" where
  "extends_trace \<equiv> appends (\<lambda>_. True)"

lemma list_all_True [simp]: "list_all (\<lambda>_. True) es"
  by (simp add: list_all_iff)

lemma appends_extends: "appends Q t u \<Longrightarrow> extends_trace t u"
  by (erule appends_weaken) simp

lemma snap_jump_extends: "extends_trace (ss_trace st) (ss_trace (snap_jump X a f line st))"
proof -
  have "extends_trace (ss_trace st) (ss_trace (unwind cf v (remember_err v st')))" if "line_return X st = (v, st')" for cf v st'
  proof -
    have "extends_trace (ss_trace st) (ss_trace st')" using line_return_frame [OF that] by (blast intro: appends_extends)
    moreover have "extends_trace (ss_trace st') (ss_trace (unwind cf v (remember_err v st')))"
      by (auto simp: unwind_def appends_def list_all_iff split: option.splits)
    ultimately show ?thesis by (rule appends_trans)
  qed
  moreover have "extends_trace (ss_trace st) (ss_trace (push_frame X n f line st))" for n
    using push_frame_trace [of st X n f line] by (auto simp: appends_def)
  ultimately show ?thesis
    by (auto simp: snap_jump_def Let_def case_prod_beta split: option.splits)
qed

lemma snap_step_extends:
  assumes "recording_ok X P st"
  shows "extends_trace (ss_trace st) (ss_trace (snap_step X locs snap st))"
proof -
  have "extends_trace (ss_trace st) (ss_trace (snap_visit X f l c snap (snap_jump X a f l st)))" for a f l c
  proof -
    have "st_tidy X (snap_jump X a f l st)" using assms snap_jump_tidy by (auto simp: recording_ok_def)
    from snap_visit_frame [OF this] snap_jump_extends show ?thesis
      by (blast intro: appends_trans appends_extends)
  qed
  note visit = this
  have "extends_trace (ss_trace st) (ss_trace (snap_visit X f l c snap (snap_jump X a f l st)) @ es)" for a f l c es
    by (rule appends_trans [OF visit appends_here]) simp
  then show ?thesis
    by (auto simp: snap_step_def Let_def split: option.splits)
qed

lemma snap_loop_extends:
  "recording_ok X P st \<Longrightarrow> extends_trace (ss_trace st) (ss_trace (snap_loop X locs snaps st))"
proof (induction snaps arbitrary: st)
  case Nil
  then show ?case by (simp add: snap_loop_def)
next
  case (Cons snap snaps)
  have "recording_ok X P (snap_step X locs snap st)"
    using snap_step_ok [OF Cons.prems] by (simp add: advanced_def)
  from appends_trans [OF snap_step_extends [OF Cons.prems] Cons.IH [OF this]] show ?case
    by (simp add: snap_loop_def)
qed

lemma open_recording_extends: "extends_trace t (ss_trace (open_recording X source outer (P, t)))"
proof -
  define s0 where "s0 = new_type_ids (cx_ids X) (t @ [Start source 1])"
  have "extends_trace (t @ [Start source 1]) (snd (scan_all_types (cx_ids X) (cx_model X) s0))"
    unfolding s0_def by (rule appends_extends [OF appends_trans [OF new_type_ids_grows scan_all_types_grows]])
  then show ?thesis
    by (auto simp: open_recording_def s0_def ensure_function_id_def case_prod_beta Let_def appends_def)
qed

lemma start_recording_extends:
  assumes "list_all silent t"
  shows "extends_trace t (ss_trace (start_recording X snaps locs source t))"
proof -
  let ?t = "t @ [EnableColumnAwareSteps, EnableColumnBreakpoints, EnableColumnMotions]"
  have t': "list_all silent ?t" using assms by (simp add: silent_def)
  obtain path P u where e: "ensure_path (cx_fs X) source (new_source_paths (cx_fs X) source, ?t) = (path, P, u)"
    by (metis prod.exhaust)
  note 1 = source_registered [OF t' e]
  obtain Q v where f: "ensure_all (cx_fs X) (map (\<lambda>(_, f, _, _). f) locs) (P, u) = (Q, v)" by (metis prod.exhaust)
  define st0 where "st0 = open_recording X source
    (outer_fn (cx_model X) (\<lambda>a. map_option (\<lambda>(f, l, c). l) (location_map locs a)) snaps) (Q, v)"
  have "appends is_registration u v" using tidy_ensure_all [of "cx_fs X" P u "map (\<lambda>(_, f, _, _). f) locs"] 1 f by simp
  moreover have "extends_trace v (ss_trace st0)" unfolding st0_def by (rule open_recording_extends)
  moreover have "extends_trace (ss_trace st0) (ss_trace (start_recording X snaps locs source t))"
    using e f by (auto simp: start_recording_def Let_def st0_def appends_def list_all_iff split: list.splits)
  ultimately have "extends_trace ?t (ss_trace (start_recording X snaps locs source t))"
    using 1 by (blast intro: appends_trans appends_extends)
  then show ?thesis by (auto simp: appends_def)
qed

lemma into_writer_extends:
  assumes "list_all silent t"
  obtains es where "record_from_snapshots_into_writer W F ord snaps locs source t = t @ es"
proof -
  let ?X = "context_of W F ord source"
  obtain es v where u: "record_from_snapshots_into_writer W F ord snaps locs source t
      = ss_trace (last_state ?X snaps locs source t) @ es @ [Return v]"
    using into_writer_trace [OF refl refl] .
  have "recording_ok ?X (new_source_paths (cx_fs ?X) source) (start_recording ?X snaps locs source t)"
    using start_recording_ok [OF assms refl] by blast
  from appends_trans [OF start_recording_extends [OF assms] snap_loop_extends [OF this]]
  have "extends_trace t (ss_trace (last_state ?X snaps locs source t))" by (simp add: last_state_def)
  then obtain fs where "ss_trace (last_state ?X snaps locs source t) = t @ fs" by (auto simp: appends_def)
  with u that show thesis by simp
qed

end
