(* ===== verification/Cpi_Recording.thy ===== *)
theory Cpi_Recording
  imports Recorder_Properties
begin

text \<open>
  What \<open>record_with_cpi\<close> guarantees: paths are registered before they are named, no call stays
  open, and a recording inside one program is balanced; one that ends inside an invoked
  program returns more often than it calls.
\<close>

section \<open>Between programs\<close>

definition cpi_ok :: "recorder_context \<Rightarrow> snap_state \<Rightarrow> bool" where
  "cpi_ok X st \<longleftrightarrow> st_tidy X st \<and> depth_le st"

lemma cpi_ok_frames: "cpi_ok X st \<Longrightarrow> ss_fns st \<noteq> []"
  by (simp add: cpi_ok_def depth_le_def)

lemma cpi_call_ok:
  assumes "cpi_ok X st"
  shows "cpi_ok X (cpi_call X r target st)"
proof -
  let ?u = "cpi_call X r target st"
  define name where "name = (case owner_name r target of Some n \<Rightarrow> n | None \<Rightarrow> ''unknown_program'')"
  obtain f line where loc: "(case find_location r target of Some l \<Rightarrow> l | None \<Rightarrow> (sbf_file name, 0)) = (f, line)"
    by (metis prod.exhaust)
  define callee where "callee = (case fn_at (cx_model X) line of Some g \<Rightarrow> g | None \<Rightarrow> name)"
  obtain path st' where e: "ensure_in X f st = (path, st')" by (metis prod.exhaust)
  from assms have t: "st_tidy X st" and d: "depth_le st" by (simp_all add: cpi_ok_def)
  from ensure_in_tidy [OF t e] have 1: "st_tidy X st'" "tabled (ss_paths st') (path_components path) \<noteq> None" by auto
  define i where "i = function_id_of (cx_ids X) (ss_trace st') callee path (uint line)"
  obtain es where u: "ss_trace ?u = (ss_trace st' @ [EnsureFunction callee path (uint line)]) @ es @ [Call i []]"
      "list_all silent (es @ [Call i []])" "list_all plain es"
    and fns: "ss_fns ?u = callee # ss_fns st'" and paths: "ss_paths ?u = ss_paths st'"
    unfolding cpi_call_def Let_def name_def [symmetric] loc prod.case callee_def [symmetric] e
      ensure_function_id_def ensure_type_id_def i_def
    by (simp add: silent_def)
  have "tidy (cx_fs X) (ss_paths st') (ss_trace st' @ [EnsureFunction callee path (uint line)])"
    by (rule tidy_named [OF 1(1) _ 1(2)]) auto
  from tidy_silent [OF this u(2)] have "st_tidy X ?u" unfolding paths u(1) .
  moreover have "depth_le ?u"
  proof -
    have "list_all plain (EnsureFunction callee path (uint line) # es)" using u(3) by simp
    then have "appends plain (ss_trace st') (ss_trace st' @ EnsureFunction callee path (uint line) # es)"
      by (rule appends_here)
    moreover have "ss_trace ?u = (ss_trace st' @ EnsureFunction callee path (uint line) # es) @ [Call i []]"
      unfolding u(1) by simp
    ultimately show ?thesis using depth_call(1) fns depth_ensure(1) [OF e] d by blast
  qed
  ultimately show ?thesis by (simp add: cpi_ok_def)
qed

lemma cpi_return_ok:
  assumes "cpi_ok X st"
  shows "cpi_ok X (cpi_return st)"
proof -
  from assms have "tidy (cx_fs X) (ss_paths st) (ss_trace st @ [Return NoneValue])"
    by (intro tidy_silent) (simp_all add: cpi_ok_def silent_def)
  moreover have "depth_le (cpi_return st)"
    using assms by (cases "ss_fns st") (auto simp: cpi_ok_def cpi_return_def depth_le_def nest_append bind_eq_Some_conv split: if_splits)
  ultimately show ?thesis by (simp add: cpi_ok_def cpi_return_def)
qed

section \<open>Inside a program\<close>

lemma cpi_jump_shape:
  "cpi_jump X r program a st = st
   \<or> (\<exists>name f line. cpi_jump X r program a st = push_frame X name f line st)
   \<or> (\<exists>f line. (case find_location r a of Some l \<Rightarrow> l | None \<Rightarrow> (sbf_file program, 0)) = (f, line)
        \<and> cpi_jump X r program a st = unwind (fn_at (cx_model X) line) NoneValue st)"
  by (auto simp: cpi_jump_def Let_def split: option.splits)

lemma cpi_jump_ok:
  assumes "cpi_ok X st"
  shows "cpi_ok X (cpi_jump X r program a st)"
proof -
  have t: "st_tidy X st" and d: "depth_le st" using assms by (simp_all add: cpi_ok_def)
  note ne = cpi_ok_frames [OF assms]
  have "cpi_ok X (push_frame X name f line st)" for name f line
    using push_frame_tidy [OF t] depth_push(1) [OF d] by (simp add: cpi_ok_def)
  moreover have "cpi_ok X (unwind cf NoneValue st)" for cf
    using unwind_tidy [OF t ne] depth_unwind(1) [OF ne d] unfolding cpi_ok_def by blast
  ultimately show ?thesis using cpi_jump_shape [of X r program a st] assms by auto
qed

lemma cpi_visit_frame:
  assumes "st_tidy X st"
  shows "st_tidy X (cpi_visit X f line column snap st)
       \<and> appends plain (ss_trace st) (ss_trace (cpi_visit X f line column snap st))
       \<and> ss_fns (cpi_visit X f line column snap st) = ss_fns st"
proof -
  obtain path st' where e: "ensure_in X f st = (path, st')" by (metis prod.exhaust)
  from ensure_in_tidy [OF assms e] have t: "st_tidy X st'" "tabled (ss_paths st') (path_components path) \<noteq> None" by auto
  from ensure_in_appends [OF e] have a: "appends plain (ss_trace st) (ss_trace st')" "ss_fns st' = ss_fns st"
    using appends_weaken [OF _ registration_plain] by auto
  let ?c = "if has_table (ss_paths st') path then column else None"
  have v: "st_tidy X (visit_line X path line ?c snap st')"
    by (rule visit_line_tidy [OF t]) (simp split: if_splits)
  have "cpi_visit X f line column snap st \<in> {st', visit_line X path line ?c snap st'}"
    using e by (simp add: cpi_visit_def Let_def)
  with t(1) a v visit_line_frame(2,3) [of X path line ?c snap st'] appends_trans [OF a(1) visit_line_plain]
  show ?thesis by fastforce
qed

text \<open>What follows the judgement of the detector, for any event.\<close>

definition cpi_record :: "recorder_context \<Rightarrow> ProgramRegistry \<Rightarrow> string \<Rightarrow> RegisterSnapshot \<Rightarrow> snap_state \<Rightarrow> snap_state" where
  "cpi_record X r program snap st =
     (let (f, line, column) =
           (case find_location_with_column r (pc snap) of
              Some l \<Rightarrow> l | None \<Rightarrow> (sbf_file program, ucast (pc snap), None));
          st = cpi_visit X f line column snap st in
      after_snapshot snap (emit_in (register_values (tc_int (ss_types st)) snap) st))"

lemma cpi_step_record:
  "cpi_step chk X r snap (d, st) =
     Option.bind (process_snapshot chk d snap) (\<lambda>(event, d).
     Option.bind (current_program d) (\<lambda>program.
       Some (d, cpi_record X r program snap
         (case event of
            CpiCall target \<Rightarrow> cpi_call X r target st
          | CpiReturn a \<Rightarrow> cpi_return st
          | SameProgram \<Rightarrow> cpi_jump X r program (pc snap) st))))"
  by (simp add: cpi_step_def cpi_record_def Let_def case_prod_beta)

lemma cpi_record_frame:
  assumes "st_tidy X st"
  shows "st_tidy X (cpi_record X r program snap st)
       \<and> (depth_le st \<longrightarrow> depth_le (cpi_record X r program snap st))
       \<and> (depth_eq st \<longrightarrow> depth_eq (cpi_record X r program snap st))
       \<and> ss_pc (cpi_record X r program snap st) = Some (pc snap)"
proof -
  obtain f line column where loc: "(case find_location_with_column r (pc snap) of
      Some l \<Rightarrow> l | None \<Rightarrow> (sbf_file program, ucast (pc snap), None)) = (f, line, column)"
    by (metis prod.exhaust)
  define s1 where "s1 = cpi_visit X f line column snap st"
  define s2 where "s2 = cpi_record X r program snap st"
  have rec: "s2 = after_snapshot snap (emit_in (register_values (tc_int (ss_types s1)) snap) s1)"
    unfolding s2_def cpi_record_def Let_def loc prod.case s1_def ..
  then have tr: "appends value_event (ss_trace s1) (ss_trace s2)"
    and rest: "ss_paths s2 = ss_paths s1" "ss_fns s2 = ss_fns s1"
    by (simp_all add: appends_here register_values_value)
  from cpi_visit_frame [OF assms, of f line column snap, folded s1_def]
  have v: "st_tidy X s1" "appends plain (ss_trace st) (ss_trace s1)" "ss_fns s1 = ss_fns st" by auto
  have "st_tidy X s2" using tidy_values [OF v(1) tr] rest(1) by simp
  with depth_values [OF tr rest(2)] depth_same [OF v(2,3)] rec show ?thesis
    by (simp add: s2_def [symmetric] after_snapshot_def)
qed

lemma cpi_step_ok:
  assumes "cpi_ok X st" "cpi_step chk X r snap (d, st) = Some (d', st')"
  shows "cpi_ok X st'"
proof -
  from assms(2) obtain e program where e: "process_snapshot chk d snap = Some (e, d')"
    and st': "st' = cpi_record X r program snap
         (case e of CpiCall target \<Rightarrow> cpi_call X r target st | CpiReturn a \<Rightarrow> cpi_return st
          | SameProgram \<Rightarrow> cpi_jump X r program (pc snap) st)"
    by (auto simp: cpi_step_record bind_eq_Some_conv)
  have "cpi_ok X (case e of CpiCall target \<Rightarrow> cpi_call X r target st | CpiReturn a \<Rightarrow> cpi_return st
          | SameProgram \<Rightarrow> cpi_jump X r program (pc snap) st)"
    using assms(1) cpi_call_ok cpi_return_ok cpi_jump_ok by (cases e) auto
  with cpi_record_frame show ?thesis unfolding st' by (simp add: cpi_ok_def)
qed

lemma cpi_loop_ok:
  "cpi_ok X st \<Longrightarrow> cpi_loop chk X r snaps (d, st) = Some (d', st') \<Longrightarrow> cpi_ok X st'"
proof (induction snaps arbitrary: d st)
  case (Cons snap snaps)
  from Cons.prems(2) obtain d1 s1 where "cpi_step chk X r snap (d, st) = Some (d1, s1)"
    "cpi_loop chk X r snaps (d1, s1) = Some (d', st')" by (auto simp: bind_eq_Some_conv)
  with Cons.IH cpi_step_ok [OF Cons.prems(1)] show ?case by blast
qed simp

section \<open>A whole recording\<close>

lemma cpi_start_ok:
  assumes "list_all silent t" "nest 0 t = Some 0"
  shows "cpi_ok X (cpi_start X r snaps source t) \<and> depth_eq (cpi_start X r snaps source t)
       \<and> ss_pc (cpi_start X r snaps source t) = None"
proof -
  let ?t = "t @ [EnableColumnAwareSteps, EnableColumnBreakpoints, EnableColumnMotions]"
  have t': "list_all silent ?t" using assms(1) by (simp add: silent_def)
  obtain path P u where e: "ensure_path (cx_fs X) source (new_source_paths (cx_fs X) source, ?t) = (path, P, u)"
    by (metis prod.exhaust)
  note 1 = source_registered [OF t' e]
  have n: "nest 0 u = Some 0"
    using nest_appends [OF appends_weaken [OF conjunct2 [OF conjunct2 [OF conjunct2 [OF 1]]] registration_plain], of 0] assms(2)
    by (simp add: nest_append)
  define outer where "outer = outer_fn (cx_model X) (\<lambda>a. map_option snd (find_location r a)) snaps"
  have st: "cpi_start X r snaps source t = open_recording X source outer (P, u)"
    using e by (simp add: cpi_start_def outer_def)
  have "ss_pc (open_recording X source outer (P, u)) = None"
    by (simp add: open_recording_def Let_def case_prod_beta)
  with open_recording_ok [of X P u source outer] 1 n show ?thesis
    unfolding st cpi_ok_def by (auto simp: recording_ok_def depth_eq_def depth_le_def)
qed

lemma cpi_body_Some:
  assumes "cpi_body chk W F ord snaps r source d t = Some (d', u)"
  obtains st depth where
    "cpi_loop chk (context_of W F ord source) r snaps (d, cpi_start (context_of W F ord source) r snaps source t) = Some (d', st)"
    "call_depth d' = Some depth" "u = ss_trace st @ cpi_closing depth st"
  using assms that by (auto simp: cpi_body_def Let_def context_of_def bind_eq_Some_conv)

lemma nest_closing:
  assumes "ss_fns st \<noteq> []"
  shows "nest n (cpi_closing depth st) = (if depth + length (ss_fns st) \<le> n then Some (n - (depth + length (ss_fns st))) else None)"
proof -
  have "cpi_closing depth st = replicate (depth + length (ss_fns st)) (Return NoneValue)"
    using assms by (cases "ss_fns st") (simp_all add: cpi_closing_def replicate_add replicate_append_same)
  then show ?thesis by (simp add: nest_returns)
qed

text \<open>
  A recording across programs registers every path exactly once, before any event names
  it, and gives columns only for paths registered with a table of line lengths.
\<close>

theorem cpi_paths_first:
  assumes "list_all silent t" "nest 0 t = Some 0" "cpi_body chk W F ord snaps r source d t = Some (d', u)"
  shows "mentions_ok [] u \<and> distinct (map fst (registered_paths u))"
proof -
  obtain st depth where run: "cpi_loop chk (context_of W F ord source) r snaps
      (d, cpi_start (context_of W F ord source) r snaps source t) = Some (d', st)"
    and u: "u = ss_trace st @ cpi_closing depth st"
    using cpi_body_Some [OF assms(3)] by metis
  have "cpi_ok (context_of W F ord source) st" using cpi_loop_ok [OF _ run] cpi_start_ok [OF assms(1,2)] by blast
  moreover have "list_all silent (cpi_closing depth st)"
    by (auto simp: cpi_closing_def list_all_iff silent_def)
  ultimately show ?thesis using tidy_silent unfolding u cpi_ok_def tidy_def paths_ok_def by metis
qed

text \<open>
  C8: a recording across programs never leaves a call open, and returns too often when it ends
  inside an invoked program: the frames of open invocations are closed once for the detector's
  contexts and once more for the recorder's own frames.
\<close>

theorem cpi_overreturns:
  assumes "list_all silent t" "nest 0 t = Some 0" "cpi_body chk W F ord snaps r source d t = Some (d', u)"
  shows "nest 0 u \<in> {None, Some 0} \<and> (call_depth d' \<noteq> Some 0 \<longrightarrow> nest 0 u = None)"
proof -
  obtain st depth where run: "cpi_loop chk (context_of W F ord source) r snaps
      (d, cpi_start (context_of W F ord source) r snaps source t) = Some (d', st)"
    and depth: "call_depth d' = Some depth" and u: "u = ss_trace st @ cpi_closing depth st"
    using cpi_body_Some [OF assms(3)] by metis
  have "depth_le st" using cpi_loop_ok [OF _ run] cpi_start_ok [OF assms(1,2)] by (simp add: cpi_ok_def)
  then show ?thesis
    using depth by (cases "nest 0 (ss_trace st)") (auto simp: u nest_append nest_closing depth_le_def)
qed

lemma two_programs_recorded:
  defines "d \<equiv> add_program_range (new_detector (Range 0 100)) ''token'' (Range 500 600)"
  shows "\<exists>d' u. cpi_body True W F ord [snap_at 510] r source d t = Some (d', u) \<and> call_depth d' = Some 1"
  using two_programs_step
  by (simp add: cpi_body_def Let_def cpi_step_record current_program_def d_def call_depth_def)

theorem cpi_overreturns_witness:
  "\<exists>d' u. cpi_body True plain_ids two_functions id [snap_at 510] new_registry ''m.rs''
      (add_program_range (new_detector (Range 0 100)) ''token'' (Range 500 600)) [] = Some (d', u) \<and> nest 0 u = None"
proof -
  obtain d' u where run: "cpi_body True plain_ids two_functions id [snap_at 510] new_registry ''m.rs''
      (add_program_range (new_detector (Range 0 100)) ''token'' (Range 500 600)) [] = Some (d', u)" "call_depth d' = Some 1"
    using two_programs_recorded by blast
  from cpi_overreturns [OF _ _ run(1)] run show ?thesis by auto
qed

theorem cpi_paths_first_witness:
  "\<exists>d' u. cpi_body True plain_ids two_functions id [snap_at 510] new_registry ''m.rs''
      (add_program_range (new_detector (Range 0 100)) ''token'' (Range 500 600)) [] = Some (d', u) \<and> mentions_ok [] u"
proof -
  obtain d' u where run: "cpi_body True plain_ids two_functions id [snap_at 510] new_registry ''m.rs''
      (add_program_range (new_detector (Range 0 100)) ''token'' (Range 500 600)) [] = Some (d', u)"
    using two_programs_recorded by blast
  from cpi_paths_first [OF _ _ run] run show ?thesis by auto
qed

section \<open>One program\<close>

definition inside :: "ProgramRegistry \<Rightarrow> SourceModel \<Rightarrow> CpiDetector \<Rightarrow> RegisterSnapshot \<Rightarrow> bool" where
  "inside r M d snap \<longleftrightarrow>
     (case find_location r (pc snap) of Some (f, line) \<Rightarrow> fn_at M line \<noteq> None | None \<Rightarrow> False)
     \<and> range_contains (pc_range (last (context_stack d))) (pc snap)"

lemma cpi_jump_depth:
  assumes "st_tidy X st" "depth_eq st" "find_location r a = Some (f, line)" "fn_at (cx_model X) line \<noteq> None"
  shows "depth_eq (cpi_jump X r program a st)"
proof -
  have "ss_fns st \<noteq> []" using assms(2) by (simp add: depth_eq_def)
  from depth_unwind(2) [OF this assms(2,4)] depth_push(2) [OF assms(2)] assms(2,3)
    cpi_jump_shape [of X r program a st] show ?thesis by auto
qed

lemma cpi_loop_inside:
  assumes "cpi_ok X st" "depth_eq st" "detector_ok d" "list_all (inside r (cx_model X) d) snaps"
  shows "\<exists>st'. cpi_loop chk X r snaps (d, st) = Some (d, st') \<and> cpi_ok X st' \<and> depth_eq st'"
  using assms
proof (induction snaps arbitrary: st)
  case (Cons snap snaps)
  from Cons.prems(3) have ne: "context_stack d \<noteq> []" by (simp add: detector_ok_def)
  from Cons.prems(4) obtain f line where i: "find_location r (pc snap) = Some (f, line)" "fn_at (cx_model X) line \<noteq> None"
    "range_contains (pc_range (last (context_stack d))) (pc snap)"
    by (auto simp: inside_def split: option.splits)
  let ?p = "program_name (last (context_stack d))"
  define s1 where "s1 = cpi_record X r ?p snap (cpi_jump X r ?p (pc snap) st)"
  have step: "cpi_step chk X r snap (d, st) = Some (d, s1)"
    using ne i(3) by (simp add: cpi_step_record process_snapshot_def current_program_def s1_def Let_def)
  from Cons.prems(1) have t: "st_tidy X st" by (simp add: cpi_ok_def)
  have "depth_eq (cpi_jump X r ?p (pc snap) st)" by (rule cpi_jump_depth [OF t Cons.prems(2) i(1,2)])
  moreover have "cpi_ok X (cpi_jump X r ?p (pc snap) st)" by (rule cpi_jump_ok [OF Cons.prems(1)])
  ultimately have "cpi_ok X s1" "depth_eq s1"
    using cpi_record_frame [of X "cpi_jump X r ?p (pc snap) st" r ?p snap] by (auto simp: s1_def cpi_ok_def)
  from Cons.IH [OF this Cons.prems(3)] Cons.prems(4) step show ?case by simp
qed simp

text \<open>
  C9: a recording that stays inside one program, on lines of known functions, always succeeds
  and is balanced: every call has its return, and nothing returns without a call.
\<close>

theorem cpi_balanced:
  assumes "list_all silent t" "nest 0 t = Some 0"
    and "list_all (inside r (load_model (fs_read_to_string F) source) (new_detector rng)) snaps"
  shows "\<exists>u. cpi_body chk W F ord snaps r source (new_detector rng) t = Some (new_detector rng, u) \<and> balanced u"
proof -
  let ?X = "context_of W F ord source" and ?d = "new_detector rng"
  have M: "cx_model ?X = load_model (fs_read_to_string F) source" by (simp add: context_of_def)
  obtain st where st: "cpi_loop chk ?X r snaps (?d, cpi_start ?X r snaps source t) = Some (?d, st)" "depth_eq st"
    using cpi_loop_inside [of ?X "cpi_start ?X r snaps source t" ?d r snaps chk] cpi_start_ok [OF assms(1,2)]
      detector_ok_new(1) assms(3) unfolding M by blast
  have "call_depth ?d = Some 0" using call_depth_ok [OF detector_ok_new(1)] detector_ok_new(2) by simp
  then have "cpi_body chk W F ord snaps r source ?d t = Some (?d, ss_trace st @ cpi_closing 0 st)"
    using st(1) by (simp add: cpi_body_def Let_def context_of_def)
  moreover have "balanced (ss_trace st @ cpi_closing 0 st)"
    using st(2) by (simp add: balanced_def nest_append depth_eq_def nest_closing)
  ultimately show ?thesis by blast
qed

definition one_program :: ProgramRegistry where
  "one_program = add_synthetic_program new_registry ''p'' (Range 0 100) [(1, ''m.rs'', 2), (10, ''m.rs'', 5)]"

theorem cpi_balanced_witness:
  "\<exists>u. cpi_body True plain_ids two_functions id [snap_at 1, snap_at 10] one_program ''m.rs'' (new_detector (Range 0 100)) []
       = Some (new_detector (Range 0 100), u) \<and> balanced u"
proof -
  have "fn_at (load_model (fs_read_to_string two_functions) ''m.rs'') 2 \<noteq> None"
    "fn_at (load_model (fs_read_to_string two_functions) ''m.rs'') 5 \<noteq> None"
    using two_model by (simp_all add: context_of_def)
  then have "list_all (inside one_program (load_model (fs_read_to_string two_functions) ''m.rs'') (new_detector (Range 0 100)))
      [snap_at 1, snap_at 10]"
    by (simp add: inside_def one_program_def add_synthetic_program_def push_entry_def new_registry_def find_location_def
        find_location_with_column_def owner_def owns_def range_contains_def new_detector_def)
  from cpi_balanced [OF _ _ this, of "[]"] show ?thesis by simp
qed

end
