(* ===== verification/Rpc.thy ===== *)
theory Rpc
  imports Rust_Text
begin

text \<open>
  \<open>src/rpc_client.rs\<close>: the JSON-RPC client. JSON values are those of \<open>serde_json\<close>; the HTTP
  exchange and the base64 decoder are parameters. An error is the list of its messages, the
  outermost context first.
\<close>

section \<open>JSON values\<close>

datatype json_number = PosInt u64 | NegInt int | FloatNumber "64 word"

datatype json =
    JNull | JBool bool | JNumber json_number | JString string
  | JArray "json list" | JObject "(string \<times> json) list"

fun json_get :: "string \<Rightarrow> json \<Rightarrow> json option" where
  "json_get k (JObject m) = map_of m k"
| "json_get k _ = None"

fun as_str :: "json \<Rightarrow> string option" where
  "as_str (JString s) = Some s"
| "as_str _ = None"

fun as_u64 :: "json \<Rightarrow> u64 option" where
  "as_u64 (JNumber (PosInt n)) = Some n"
| "as_u64 _ = None"

fun as_bool :: "json \<Rightarrow> bool option" where
  "as_bool (JBool b) = Some b"
| "as_bool _ = None"

fun as_array :: "json \<Rightarrow> json list option" where
  "as_array (JArray xs) = Some xs"
| "as_array _ = None"

text \<open>\<open>Value::pointer\<close>, the pointer split into its tokens.\<close>

definition array_index :: "string \<Rightarrow> nat option" where
  "array_index tok =
     (if tok = [] \<or> \<not> list_all is_ascii_digit tok \<or> hd tok = CHR ''0'' \<and> length tok \<noteq> 1 then None
      else if undigits 10 tok < 2 ^ 64 then Some (undigits 10 tok) else None)"

fun json_pointer :: "string list \<Rightarrow> json \<Rightarrow> json option" where
  "json_pointer [] v = Some v"
| "json_pointer (tok # toks) v =
     (case v of
        JObject m \<Rightarrow> Option.bind (map_of m tok) (json_pointer toks)
      | JArray xs \<Rightarrow> Option.bind (array_index tok) (\<lambda>i. Option.bind (nth_opt xs i) (json_pointer toks))
      | _ \<Rightarrow> None)"

section \<open>Data\<close>

record InstructionData =
  program_id_index :: u8
  account_indices :: "u8 list"
  ix_data :: string

record TransactionData =
  td_signature :: string
  td_slot :: u64
  account_keys :: "string list"
  instructions :: "InstructionData list"
  td_err :: "json option"

record AccountData =
  ad_pubkey :: string
  lamports :: u64
  ad_owner :: string
  ad_executable :: bool
  ad_data :: bytes

record RpcRequest =
  rq_jsonrpc :: string
  rq_id :: u64
  rq_method :: string
  rq_params :: json

record RpcError =
  re_code :: int
  re_message :: string

record RpcResponse =
  rs_result :: "json option"
  rs_error :: "RpcError option"

type_synonym report = "string list"

definition with_context :: "string \<Rightarrow> (report, 'a) outcome \<Rightarrow> (report, 'a) outcome" where
  "with_context msg r = (case r of Err e \<Rightarrow> Err (msg # e) | _ \<Rightarrow> r)"

definition or_report :: "'a option \<Rightarrow> string \<Rightarrow> (report, 'a) outcome" where
  "or_report v msg = (case v of Some x \<Rightarrow> Ok x | None \<Rightarrow> Err [msg])"

lemma or_report_Ok [result_simps]: "or_report v msg = Ok x \<longleftrightarrow> v = Some x"
  by (cases v) (auto simp: or_report_def)

section \<open>Requests\<close>

record http_reply =
  http_status :: nat
  http_status_line :: string
  http_text :: "string option"
  http_json :: "string + RpcResponse"

type_synonym http = "string \<Rightarrow> RpcRequest \<Rightarrow> string + http_reply"

definition send_rpc_request :: "http \<Rightarrow> string \<Rightarrow> RpcRequest \<Rightarrow> (report, RpcResponse) outcome" where
  "send_rpc_request post url req =
     (case post url req of
        Inl e \<Rightarrow> Err [''HTTP POST to '' @ url @ '' failed'', e]
      | Inr r \<Rightarrow>
          if \<not> (200 \<le> http_status r \<and> http_status r < 300) then
            Err [''RPC endpoint returned HTTP '' @ http_status_line r @ '': ''
                 @ (case http_text r of Some t \<Rightarrow> t | None \<Rightarrow> [])]
          else
            (case http_json r of
               Inl e \<Rightarrow> Err [''failed to deserialize JSON-RPC response'', e]
             | Inr resp \<Rightarrow>
                 (case rs_error resp of
                    Some err \<Rightarrow> Err [''RPC error (code '' @ dec_int (re_code err) @ ''): '' @ re_message err]
                  | None \<Rightarrow> Ok resp)))"

section \<open>Transactions\<close>

definition parse_key :: "json \<Rightarrow> string" where
  "parse_key v =
     (case as_str v of
        Some s \<Rightarrow> s
      | None \<Rightarrow> (case Option.bind (json_get ''pubkey'' v) as_str of Some s \<Rightarrow> s | None \<Rightarrow> []))"

text \<open>\<open>as u8\<close> keeps the low byte.\<close>

definition parse_instruction :: "json \<Rightarrow> InstructionData option" where
  "parse_instruction ix =
     Option.bind (json_get ''programIdIndex'' ix) (\<lambda>v.
     Option.bind (as_u64 v) (\<lambda>n.
     Some \<lparr>program_id_index = ucast n,
           account_indices =
             (case Option.bind (json_get ''accounts'' ix) as_array of
                Some arr \<Rightarrow> List.map_filter (\<lambda>v. map_option ucast (as_u64 v)) arr | None \<Rightarrow> []),
           ix_data = (case Option.bind (json_get ''data'' ix) as_str of Some s \<Rightarrow> s | None \<Rightarrow> [])\<rparr>))"

definition parse_transaction_response :: "string \<Rightarrow> RpcResponse \<Rightarrow> (report, TransactionData) outcome" where
  "parse_transaction_response signature resp =
     bind_outcome (or_report (rs_result resp) (''getTransaction returned null for signature '' @ signature)) (\<lambda>result.
     bind_outcome (or_report (json_pointer [''transaction'', ''message''] result)
        ''transaction response missing /transaction/message'') (\<lambda>message.
     bind_outcome (or_report (Option.bind (json_get ''accountKeys'' message) as_array)
        ''transaction message missing accountKeys array'') (\<lambda>keys.
     bind_outcome (or_report (Option.bind (json_get ''instructions'' message) as_array)
        ''transaction message missing instructions array'') (\<lambda>raw.
     Ok \<lparr>td_signature = signature,
         td_slot = (case Option.bind (json_get ''slot'' result) as_u64 of Some n \<Rightarrow> n | None \<Rightarrow> 0),
         account_keys = map parse_key keys,
         instructions = List.map_filter parse_instruction raw,
         td_err = (case json_pointer [''meta'', ''err''] result of
                     Some v \<Rightarrow> if v = JNull then None else Some v | None \<Rightarrow> None)\<rparr>))))"

definition transaction_request :: "string \<Rightarrow> RpcRequest" where
  "transaction_request signature =
     \<lparr>rq_jsonrpc = ''2.0'', rq_id = 1, rq_method = ''getTransaction'',
      rq_params = JArray [JString signature,
        JObject [(''encoding'', JString ''jsonParsed''), (''maxSupportedTransactionVersion'', JNumber (PosInt 0))]]\<rparr>"

definition fetch_transaction :: "http \<Rightarrow> string \<Rightarrow> string \<Rightarrow> (report, TransactionData) outcome" where
  "fetch_transaction post url signature =
     bind_outcome
       (with_context (''getTransaction RPC call failed for signature '' @ signature)
          (send_rpc_request post url (transaction_request signature)))
       (parse_transaction_response signature)"

section \<open>Accounts\<close>

definition account_bytes :: "(string \<Rightarrow> bytes option) \<Rightarrow> json \<Rightarrow> bytes" where
  "account_bytes base64 value =
     (case Option.bind (Option.bind (Option.bind (json_get ''data'' value) as_array)
             (\<lambda>arr. case arr of x # _ \<Rightarrow> Some x | [] \<Rightarrow> None)) as_str of
        None \<Rightarrow> []
      | Some b64 \<Rightarrow> (case base64 b64 of Some bs \<Rightarrow> bs | None \<Rightarrow> []))"

definition parse_account_response ::
  "(string \<Rightarrow> bytes option) \<Rightarrow> string \<Rightarrow> RpcResponse \<Rightarrow> (report, AccountData) outcome" where
  "parse_account_response base64 pubkey resp =
     bind_outcome (or_report (rs_result resp) (''getAccountInfo returned null for pubkey '' @ pubkey)) (\<lambda>result.
     bind_outcome (or_report (json_get ''value'' result)
        (''getAccountInfo result missing 'value' for pubkey '' @ pubkey)) (\<lambda>value.
     if value = JNull then Err [''account '' @ pubkey @ '' not found (value is null)'']
     else
       Ok \<lparr>ad_pubkey = pubkey,
           lamports = (case Option.bind (json_get ''lamports'' value) as_u64 of Some n \<Rightarrow> n | None \<Rightarrow> 0),
           ad_owner = (case Option.bind (json_get ''owner'' value) as_str of Some s \<Rightarrow> s | None \<Rightarrow> []),
           ad_executable = (case Option.bind (json_get ''executable'' value) as_bool of Some b \<Rightarrow> b | None \<Rightarrow> False),
           ad_data = account_bytes base64 value\<rparr>))"

definition account_request :: "string \<Rightarrow> RpcRequest" where
  "account_request pubkey =
     \<lparr>rq_jsonrpc = ''2.0'', rq_id = 1, rq_method = ''getAccountInfo'',
      rq_params = JArray [JString pubkey, JObject [(''encoding'', JString ''base64'')]]\<rparr>"

definition fetch_account ::
  "http \<Rightarrow> (string \<Rightarrow> bytes option) \<Rightarrow> string \<Rightarrow> string \<Rightarrow> (report, AccountData) outcome" where
  "fetch_account post base64 url pubkey =
     bind_outcome
       (with_context (''getAccountInfo RPC call failed for pubkey '' @ pubkey)
          (send_rpc_request post url (account_request pubkey)))
       (parse_account_response base64 pubkey)"

definition rpc_response_from_value :: "json \<Rightarrow> RpcResponse" where
  "rpc_response_from_value result = \<lparr>rs_result = Some result, rs_error = None\<rparr>"

definition rpc_error_response :: "int \<Rightarrow> string \<Rightarrow> RpcResponse" where
  "rpc_error_response code message =
     \<lparr>rs_result = None, rs_error = Some \<lparr>re_code = code, re_message = message\<rparr>\<rparr>"

section \<open>What is parsed\<close>

text \<open>A transaction as the endpoint writes it, each account key as a string or as an object.\<close>

definition small_number :: "u8 \<Rightarrow> json" where
  "small_number n = JNumber (PosInt (ucast n))"

definition render_instruction :: "InstructionData \<Rightarrow> json" where
  "render_instruction ix =
     JObject [(''programIdIndex'', small_number (program_id_index ix)),
              (''accounts'', JArray (map small_number (account_indices ix))), (''data'', JString (ix_data ix))]"

definition render_key :: "(string \<Rightarrow> bool) \<Rightarrow> string \<Rightarrow> json" where
  "render_key versioned k = (if versioned k then JObject [(''pubkey'', JString k)] else JString k)"

definition render_transaction :: "(string \<Rightarrow> bool) \<Rightarrow> TransactionData \<Rightarrow> json" where
  "render_transaction versioned tx =
     JObject [(''slot'', JNumber (PosInt (td_slot tx))),
       (''meta'', JObject [(''err'', case td_err tx of Some v \<Rightarrow> v | None \<Rightarrow> JNull)]),
       (''transaction'', JObject [(''message'', JObject
          [(''accountKeys'', JArray (map (render_key versioned) (account_keys tx))),
           (''instructions'', JArray (map render_instruction (instructions tx)))])])]"

lemma ucast_u8_back [simp]: "ucast (ucast (n :: u8) :: u64) = n"
  by (rule bit_word_eqI) (auto simp: bit_unsigned_iff)

lemma parse_small_numbers: "List.map_filter (\<lambda>v. map_option ucast (as_u64 v)) (map small_number ns) = (ns :: u8 list)"
  by (induction ns) (simp_all add: small_number_def map_filter_simps)

lemma parse_rendered_instruction: "parse_instruction (render_instruction ix) = Some ix"
  by (simp add: parse_instruction_def render_instruction_def parse_small_numbers) (simp add: small_number_def)

lemma parse_rendered_instructions: "List.map_filter parse_instruction (map render_instruction ixs) = ixs"
  by (induction ixs) (simp_all add: parse_rendered_instruction map_filter_simps)

lemma parse_rendered_key: "parse_key (render_key versioned k) = k"
  by (simp add: parse_key_def render_key_def)

text \<open>
  C23: a transaction as the endpoint writes it is parsed back exactly: signature, slot, the
  account keys in both their formats and in order, every instruction with its indices and
  data, and the error. An error that is \<open>null\<close> is none.
\<close>

theorem transaction_roundtrip:
  assumes "td_err tx \<noteq> Some JNull"
  shows "parse_transaction_response (td_signature tx) (rpc_response_from_value (render_transaction versioned tx)) = Ok tx"
  using assms
  by (cases tx) (auto simp: parse_transaction_response_def rpc_response_from_value_def or_report_def render_transaction_def
      parse_rendered_instructions parse_rendered_key comp_def split: option.splits)

theorem transaction_roundtrip_witness:
  "parse_transaction_response ''sig'' (rpc_response_from_value
     (render_transaction (\<lambda>k. k = ''b'')
        \<lparr>td_signature = ''sig'', td_slot = 7, account_keys = [''a'', ''b''],
         instructions = [\<lparr>program_id_index = 1, account_indices = [0, 1], ix_data = ''xyz''\<rparr>], td_err = None\<rparr>))
   = Ok \<lparr>td_signature = ''sig'', td_slot = 7, account_keys = [''a'', ''b''],
         instructions = [\<lparr>program_id_index = 1, account_indices = [0, 1], ix_data = ''xyz''\<rparr>], td_err = None\<rparr>"
  using transaction_roundtrip [of "\<lparr>td_signature = ''sig'', td_slot = 7, account_keys = [''a'', ''b''],
         instructions = [\<lparr>program_id_index = 1, account_indices = [0, 1], ix_data = ''xyz''\<rparr>], td_err = None\<rparr>"]
  by simp

text \<open>Instructions without a program index are left out, as all of those that the endpoint has
  parsed are.\<close>

lemma parse_instruction_dropped: "json_get ''programIdIndex'' ix = None \<Longrightarrow> parse_instruction ix = None"
  by (simp add: parse_instruction_def)

lemma parsed_transaction:
  assumes "parse_transaction_response signature resp = Ok tx"
  obtains result message raw where "rs_result resp = Some result"
    "json_pointer [''transaction'', ''message''] result = Some message"
    "Option.bind (json_get ''instructions'' message) as_array = Some raw"
    "instructions tx = List.map_filter parse_instruction raw" "td_signature tx = signature"
  using assms that by (auto simp: parse_transaction_response_def result_simps)

end
