(* ===== verification/Replay.thy ===== *)
theory Replay
  imports Rpc Recorder_Properties
begin

text \<open>
  \<open>src/replay.rs\<close>: the replay of an on-chain transaction. It is fetched (\<open>Rpc\<close>), a program
  binary is looked up, and a synthetic trace of one snapshot per instruction goes through the
  snapshot recorder. The accounts it also fetches are only printed and are left out.
\<close>

definition extract_program_ids :: "TransactionData \<Rightarrow> string list" where
  "extract_program_ids tx =
     remdups_adj (sort (List.map_filter (\<lambda>ix. nth_opt (account_keys tx) (unat (program_id_index ix))) (instructions tx)))"

definition extract_all_accounts :: "TransactionData \<Rightarrow> string list" where
  "extract_all_accounts tx = account_keys tx"

definition find_program_so :: "host_fs \<Rightarrow> string \<Rightarrow> (report, string) outcome" where
  "find_program_so F dir =
     (if \<not> fs_exists F dir then
        Err [''program directory '' @ dir @ '' does not exist; build your program with `cargo-build-sbf` or pass --program-dir'']
      else case fs_entries F dir of
        None \<Rightarrow> Err [''cannot read directory '' @ dir]
      | Some entries \<Rightarrow>
          (case sort_key path_components (filter (\<lambda>p. extension p = Some ''so'') entries) of
             p # _ \<Rightarrow> Ok p
           | [] \<Rightarrow> Err [''no .so files found in '' @ dir @ ''; build your program with `cargo-build-sbf` or pass --program-dir'']))"

definition build_synthetic_trace :: "TransactionData \<Rightarrow> RegisterSnapshot list" where
  "build_synthetic_trace tx =
     map (\<lambda>(i, ix). \<lparr>registers = (replicate 12 0)[11 := of_nat i]\<rparr>) (enumerate 0 (instructions tx))"

definition program_file :: "TransactionData \<Rightarrow> InstructionData \<Rightarrow> string" where
  "program_file tx ix =
     (case nth_opt (account_keys tx) (unat (program_id_index ix)) of Some k \<Rightarrow> k | None \<Rightarrow> ''unknown_program'') @ ''.rs''"

definition build_synthetic_source_locations :: "TransactionData \<Rightarrow> (u64 \<times> string \<times> u32) list" where
  "build_synthetic_source_locations tx =
     map (\<lambda>(i, ix). (of_nat i, program_file tx ix, of_nat (i + 1))) (enumerate 0 (instructions tx))"

definition as_report :: "(string, 'a) outcome \<Rightarrow> (report, 'a) outcome" where
  "as_report r = (case r of Ok x \<Rightarrow> Ok x | Err e \<Rightarrow> Err [e] | Panic \<Rightarrow> Panic)"

lemma as_report_simps [result_simps]: "as_report r = Ok x \<longleftrightarrow> r = Ok x" "as_report r = Panic \<longleftrightarrow> r = Panic"
  by (cases r; simp add: as_report_def)+

definition replay_transaction ::
  "ids \<Rightarrow> host_fs \<Rightarrow> tracer_io \<Rightarrow> (string list \<Rightarrow> string list) \<Rightarrow> http \<Rightarrow> string \<Rightarrow> string \<Rightarrow> string
   \<Rightarrow> string option \<Rightarrow> (report, trace) outcome" where
  "replay_transaction W F io ord post rpc_url signature out_dir program_dir =
     bind_outcome (fetch_transaction post rpc_url signature) (\<lambda>tx.
     if extract_program_ids tx = [] then Err [''transaction has no instructions; nothing to replay'']
     else
       bind_outcome (find_program_so F (case program_dir of Some d \<Rightarrow> d | None \<Rightarrow> ''target/deploy'')) (\<lambda>program_so.
       as_report (record_from_snapshots W F io ord (build_synthetic_trace tx) (build_synthetic_source_locations tx)
         program_so out_dir)))"

section \<open>Programs\<close>

lemma sorted_remdups_distinct: "sorted xs \<Longrightarrow> distinct (remdups_adj xs)" for xs :: "'a::linorder list"
  by (induction xs rule: remdups_adj.induct) (auto simp: antisym)

lemma sort_key_least: "sort_key f ps = q # rest \<Longrightarrow> p \<in> set ps \<Longrightarrow> q \<in> set ps \<and> f q \<le> f p"
  using sorted_sort_key [of f ps] set_sort [of f ps] by (cases "p = q") auto

lemma found_program:
  "case find_program_so F dir of
        Ok so \<Rightarrow> fs_exists F dir \<and> (\<exists>entries. fs_entries F dir = Some entries \<and> so \<in> set entries \<and> extension so = Some ''so''
           \<and> (\<forall>p \<in> set entries. extension p = Some ''so'' \<longrightarrow> path_components so \<le> path_components p))
      | Err e \<Rightarrow> \<not> fs_exists F dir \<or> fs_entries F dir = None
           \<or> (\<exists>entries. fs_entries F dir = Some entries \<and> filter (\<lambda>p. extension p = Some ''so'') entries = [])
      | Panic \<Rightarrow> False"
proof (cases "fs_exists F dir")
  case True
  let ?so = "filter (\<lambda>p. extension p = Some ''so'')"
  show ?thesis
  proof (cases "fs_entries F dir")
    case None
    with True show ?thesis by (simp add: find_program_so_def)
  next
    case (Some entries)
    show ?thesis
    proof (cases "sort_key path_components (?so entries)")
      case Nil
      then have "?so entries = []" using set_sort [of path_components "?so entries"] by (metis set_empty)
      with True Some show ?thesis by (simp add: find_program_so_def)
    next
      case (Cons q rest)
      have "set (sort_key path_components (?so entries)) = set (?so entries)" by simp
      then have q: "q \<in> set (?so entries)" unfolding Cons by auto
      moreover have "path_components q \<le> path_components p" if "p \<in> set (?so entries)" for p
        using sort_key_least [OF Cons that] by blast
      ultimately show ?thesis
        using True Some Cons unfolding find_program_so_def by simp
    qed
  qed
next
  case False
  then show ?thesis by (simp add: find_program_so_def)
qed

text \<open>
  The programs of a transaction are the account keys that its instructions name, each once
  and in order; and the binary that stands for them is the least path with the extension
  \<open>so\<close> in the directory, an error exactly when there is none.
\<close>

theorem replay_programs:
  "sorted (extract_program_ids tx) \<and> distinct (extract_program_ids tx)
   \<and> set (extract_program_ids tx) =
       {account_keys tx ! unat (program_id_index ix) | ix.
          ix \<in> set (instructions tx) \<and> unat (program_id_index ix) < length (account_keys tx)}
   \<and> (case find_program_so F dir of
        Ok so \<Rightarrow> fs_exists F dir \<and> (\<exists>entries. fs_entries F dir = Some entries \<and> so \<in> set entries \<and> extension so = Some ''so''
           \<and> (\<forall>p \<in> set entries. extension p = Some ''so'' \<longrightarrow> path_components so \<le> path_components p))
      | Err e \<Rightarrow> \<not> fs_exists F dir \<or> fs_entries F dir = None
           \<or> (\<exists>entries. fs_entries F dir = Some entries \<and> filter (\<lambda>p. extension p = Some ''so'') entries = [])
      | Panic \<Rightarrow> False)"
proof -
  have ids: "sorted (extract_program_ids tx)" "distinct (extract_program_ids tx)"
    by (simp_all add: extract_program_ids_def sorted_remdups_adj sorted_remdups_distinct)
  have "set (List.map_filter (\<lambda>ix. nth_opt (account_keys tx) (unat (program_id_index ix))) xs) =
      {account_keys tx ! unat (program_id_index ix) | ix. ix \<in> set xs \<and> unat (program_id_index ix) < length (account_keys tx)}" for xs
    by (auto simp: map_filter_def nth_opt_def)
  with ids found_program [of F dir] show ?thesis by (simp add: extract_program_ids_def)
qed

definition sample_tx :: TransactionData where
  "sample_tx = \<lparr>td_signature = ''sig'', td_slot = 7, account_keys = [''aaa'', ''bbb''],
     instructions = [\<lparr>program_id_index = 1, account_indices = [0], ix_data = ''xyz''\<rparr>], td_err = None\<rparr>"

definition deploy_host :: host_fs where
  "deploy_host = \<lparr>fs_exists = (\<lambda>p. p = ''target/deploy''), fs_is_file = (\<lambda>p. False), fs_read_to_string = (\<lambda>p. None),
     fs_bytes = (\<lambda>p. None), fs_entries = (\<lambda>p. Some [''target/deploy/a.txt'', ''target/deploy/p.so''])\<rparr>"

lemma deploy_so: "find_program_so deploy_host ''target/deploy'' = Ok ''target/deploy/p.so''"
  by code_simp

theorem replay_programs_witness:
  "set (extract_program_ids sample_tx) =
     {account_keys sample_tx ! unat (program_id_index ix) | ix.
        ix \<in> set (instructions sample_tx) \<and> unat (program_id_index ix) < length (account_keys sample_tx)}
   \<and> path_components ''target/deploy/p.so'' \<le> path_components ''target/deploy/p.so''"
  using replay_programs [of sample_tx deploy_host "''target/deploy''"] by (simp add: deploy_so deploy_host_def)

section \<open>The synthetic trace\<close>

text \<open>
  C22: instructions that the endpoint has parsed carry no \<open>programIdIndex\<close>, and the request asks
  for them parsed: when none of a transaction's instructions carries one, the replay writes
  no trace but fails with the message that there is nothing to replay.
\<close>

theorem replay_needs_indices:
  assumes "send_rpc_request post rpc_url (transaction_request signature) = Ok resp" "rs_result resp = Some result"
    and "json_pointer [''transaction'', ''message''] result = Some message"
    and "Option.bind (json_get ''accountKeys'' message) as_array = Some keys"
    and "Option.bind (json_get ''instructions'' message) as_array = Some raw"
    and "\<forall>ix \<in> set raw. json_get ''programIdIndex'' ix = None"
  shows "replay_transaction W F io ord post rpc_url signature out_dir program_dir
       = Err [''transaction has no instructions; nothing to replay'']"
proof -
  have "List.map_filter parse_instruction raw = []"
    using assms(6) by (auto simp: map_filter_def filter_empty_conv parse_instruction_dropped)
  with assms obtain tx where tx: "fetch_transaction post rpc_url signature = Ok tx" "instructions tx = []"
    by (simp add: fetch_transaction_def with_context_def parse_transaction_response_def or_report_def)
  then have "extract_program_ids tx = []" by (simp add: extract_program_ids_def map_filter_simps)
  with tx show ?thesis by (simp add: replay_transaction_def)
qed

definition parsed_endpoint :: http where
  "parsed_endpoint = (\<lambda>url req. Inr \<lparr>http_status = 200, http_status_line = ''200 OK'', http_text = None,
     http_json = Inr (rpc_response_from_value (JObject
       [(''transaction'', JObject [(''message'', JObject
          [(''accountKeys'', JArray [JObject [(''pubkey'', JString ''aaa'')]]),
           (''instructions'', JArray [JObject [(''program'', JString ''system''), (''programId'', JString ''aaa'')]])])])]))\<rparr>)"

theorem replay_needs_indices_witness:
  "\<forall>W F io ord. replay_transaction W F io ord parsed_endpoint ''url'' ''sig'' ''out'' None
     = Err [''transaction has no instructions; nothing to replay'']"
  using replay_needs_indices [of parsed_endpoint "''url''" "''sig''"
      "rpc_response_from_value (JObject
       [(''transaction'', JObject [(''message'', JObject
          [(''accountKeys'', JArray [JObject [(''pubkey'', JString ''aaa'')]]),
           (''instructions'', JArray [JObject [(''program'', JString ''system''), (''programId'', JString ''aaa'')]])])])])"]
  by (simp add: parsed_endpoint_def send_rpc_request_def rpc_response_from_value_def)

lemma of_nat_distinct: "n \<le> 2 ^ LENGTH('a) \<Longrightarrow> distinct (map (of_nat :: nat \<Rightarrow> 'a::len word) [0..<n])"
proof -
  assume n: "n \<le> 2 ^ LENGTH('a)"
  then have small: "unat (of_nat k :: 'a word) = k" if "k < n" for k
    using that by (simp add: unat_of_nat)
  have "inj_on (of_nat :: nat \<Rightarrow> 'a word) {0..<n}"
  proof (rule inj_onI)
    fix i j assume "i \<in> {0..<n}" "j \<in> {0..<n}" and e: "(of_nat i :: 'a word) = of_nat j"
    then show "i = j" using small by (metis atLeastLessThan_iff)
  qed
  then show ?thesis by (simp add: distinct_map)
qed

lemma synthetic_location:
  assumes "i < length (instructions tx)" "length (instructions tx) \<le> 2 ^ 64"
  shows "location_map (map (\<lambda>(a, f, l). (a, f, l, None)) (build_synthetic_source_locations tx)) (of_nat i)
       = Some (program_file tx (instructions tx ! i), of_nat (i + 1), None)"
proof -
  let ?locs = "map (\<lambda>(a, f, l). (a, f, l, None :: u32 option)) (build_synthetic_source_locations tx)"
  have "map fst ?locs = map of_nat [0..<length (instructions tx)]"
    by (rule nth_equalityI) (simp_all add: build_synthetic_source_locations_def nth_enumerate_eq)
  then have "distinct (map fst (rev ?locs))"
    using of_nat_distinct [of "length (instructions tx)", where 'a = 64] assms(2) by (simp flip: rev_map)
  moreover have "(of_nat i, program_file tx (instructions tx ! i), of_nat (i + 1), None) \<in> set (rev ?locs)"
  proof -
    have "(i, instructions tx ! i) \<in> set (enumerate 0 (instructions tx))"
      using assms(1) by (simp add: in_set_enumerate_eq)
    then show ?thesis by (force simp: build_synthetic_source_locations_def)
  qed
  ultimately show ?thesis unfolding location_map_def by (rule map_of_is_SomeI)
qed

lemma recorded_columns:
  assumes "record_from_snapshots_with_columns W F io ord snaps locs source out_dir = Ok t"
  shows "t = record_from_snapshots_into_writer W F ord snaps locs source [BeginEvents (path_join out_dir ''trace.bin'')]
       @ [FinishEvents, WriteMeta ''codetracer-solana-recorder'', Close]"
  using assms
  by (auto simp: record_from_snapshots_with_columns_def begin_recording_def close_recording_def result_simps check_io_def
      split: option.splits)

lemma recorded_snapshots:
  "record_from_snapshots W F io ord snaps locs source out_dir = Ok t \<Longrightarrow>
   t = record_from_snapshots_into_writer W F ord snaps (map (\<lambda>(a, f, l). (a, f, l, None)) locs) source
         [BeginEvents (path_join out_dir ''trace.bin'')]
       @ [FinishEvents, WriteMeta ''codetracer-solana-recorder'', Close]"
  unfolding record_from_snapshots_def by (rule recorded_columns)

lemma visited_line_recorded:
  assumes "recording_ok X P (start_recording X snaps locs source t)" "X = context_of W F ord source"
    and "snap \<in> set snaps" "user_location X P (location_map locs) snap line"
  shows "\<exists>p c. Step p (uint line) c \<in> set (record_from_snapshots_into_writer W F ord snaps locs source t)"
proof -
  from snap_loop_ok [OF assms(1)] assms(3,4) obtain p c
    where "Step p (uint line) c \<in> set (ss_trace (last_state X snaps locs source t))"
    unfolding last_state_def by blast
  moreover obtain es v where "record_from_snapshots_into_writer W F ord snaps locs source t
      = ss_trace (last_state X snaps locs source t) @ es @ [Return v]"
    using into_writer_trace [OF assms(2) refl] .
  ultimately have "Step p (uint line) c \<in> set (record_from_snapshots_into_writer W F ord snaps locs source t)" by simp
  then show ?thesis by blast
qed

lemma replay_Ok:
  assumes "replay_transaction W F io ord post rpc_url signature out_dir program_dir = Ok t"
    and "fetch_transaction post rpc_url signature = Ok tx"
    and "find_program_so F (case program_dir of Some d \<Rightarrow> d | None \<Rightarrow> ''target/deploy'') = Ok so"
  shows "record_from_snapshots W F io ord (build_synthetic_trace tx) (build_synthetic_source_locations tx) so out_dir = Ok t"
  using assms by (auto simp: replay_transaction_def as_report_def split: if_splits outcome.splits)

lemma synthetic_snapshot:
  assumes "i < length (instructions tx)"
  obtains snap where "snap \<in> set (build_synthetic_trace tx)" "pc snap = of_nat i"
proof
  have "(i, instructions tx ! i) \<in> set (enumerate 0 (instructions tx))"
    using assms by (simp add: in_set_enumerate_eq)
  then show "\<lparr>registers = (replicate 12 0)[11 := of_nat i]\<rparr> \<in> set (build_synthetic_trace tx)"
    by (force simp: build_synthetic_trace_def)
qed (simp add: pc_def)


definition sample_endpoint :: http where
  "sample_endpoint = (\<lambda>url req. Inr \<lparr>http_status = 200, http_status_line = ''200 OK'', http_text = None,
     http_json = Inr (rpc_response_from_value (render_transaction (\<lambda>k. True) sample_tx))\<rparr>)"

lemma sample_fetched: "fetch_transaction sample_endpoint ''url'' ''sig'' = Ok sample_tx"
  by code_simp

lemma sample_recording: "\<exists>t. record_from_snapshots_with_columns W F sample_io ord snaps locs source out_dir = Ok t"
  by (simp add: record_from_snapshots_with_columns_def begin_recording_def close_recording_def check_io_def sample_io_def)

lemma sample_replayed: "\<exists>t. replay_transaction W deploy_host sample_io ord sample_endpoint ''url'' ''sig'' ''out'' None = Ok t"
proof -
  have "extract_program_ids sample_tx = [''bbb'']" by code_simp
  moreover have "\<exists>t. record_from_snapshots W deploy_host sample_io ord (build_synthetic_trace sample_tx)
      (build_synthetic_source_locations sample_tx) ''target/deploy/p.so'' ''out'' = Ok t"
    unfolding record_from_snapshots_def by (rule sample_recording)
  ultimately show ?thesis
    by (auto simp: replay_transaction_def sample_fetched deploy_so as_report_def)
qed


end
