(* ===== verification/Debug_Load.thy ===== *)
theory Debug_Load
  imports Debug_Model Elf_Loading
begin

text \<open>
  \<open>SourceDebugInfo::load\<close> of \<open>src/source_debug.rs\<close> from the bytes of the program on: the
  \<open>.text\<close> section, the debug sections and the units, over the readers of \<open>Elf_Loading\<close>, and how
  the model it builds agrees with \<open>DwarfParser\<close>.
\<close>

section \<open>Loading\<close>

record ('d, 'n, 'e) debug_reader = "'d elf_reader" +
  debug_units :: "'d \<Rightarrow> (string + ('n, 'e) unit_reader) list \<times> string option"

definition debug_info_load ::
  "('d, 'n, 'e) debug_reader \<Rightarrow> isa \<Rightarrow> ('e, 'm) evaluator \<Rightarrow> fs \<Rightarrow> bytes \<Rightarrow> string
   \<Rightarrow> string + 'e SourceDebugInfo" where
  "debug_info_load R I G F elf_data elf_path =
     (case parse_object R elf_data of
        Inl e \<Rightarrow> Inl (''failed to parse ELF: '' @ e)
      | Inr obj \<Rightarrow>
     (case section_by_name obj ''.text'' of
        None \<Rightarrow> Inl ''ELF has no .text section''
      | Some text \<Rightarrow>
     (case sec_data text of
        Inl e \<Rightarrow> Inl (''read .text: '' @ e)
      | Inr text_data \<Rightarrow>
     (case dwarf_load R (load_section obj) of
        Inl e \<Rightarrow> Inl (''failed to load DWARF sections: '' @ e)
      | Inr dwarf \<Rightarrow>
          (let (us, failure) = debug_units R dwarf
           in load_debug I G F elf_path (sec_address text) text_data us failure)))))"

section \<open>Lemmas\<close>

lemma debug_info_load_Inr:
  assumes "debug_info_load R I G F elf_data elf_path = Inr D"
  obtains obj sect text_data dwarf us failure where
    "parse_object R elf_data = Inr obj" "section_by_name obj ''.text'' = Some sect"
    "sec_data sect = Inr text_data" "dwarf_load R (load_section obj) = Inr dwarf"
    "debug_units R dwarf = (us, failure)"
    "load_debug I G F elf_path (sec_address sect) text_data us failure = Inr D"
  using assms by (auto simp: debug_info_load_def split: sum.splits option.splits prod.splits)

lemma debug_info_load_wf: "debug_info_load R I G F elf_data elf_path = Inr D \<Longrightarrow> wf_debug D"
  by (erule debug_info_load_Inr) (rule load_debug_wf)

lemma load_debug_base:
  "load_debug I G F elf_path vaddr text us failure = Inr D \<Longrightarrow> sd_text_vaddr D = vaddr"
  by (auto simp: load_debug_def assemble_def Let_def split: sum.splits)

text \<open>The parser and the model, read from the same bytes, count addresses from the same base,
  so that without wrap-around they look up the same address for a program counter.\<close>

lemma readers_agree:
  assumes "debug_info_load R I G F elf_data elf_path = Inr D" "dwarf_parser_new R elf_data = Inr p"
    and "INSN_SIZE I = 8" "8 * unat a + unat (sd_text_vaddr D) < 2 ^ 64"
  shows "dp_text_vaddr p = sd_text_vaddr D
       \<and> dwarf_find_location p a = Option.bind (ok_flat (dp_context p (address_of I D a)))
           (\<lambda>loc. Option.bind (a2l_file loc) (\<lambda>file. map_option
              (\<lambda>line. \<lparr>sl_file = file, sl_line = line, sl_column = a2l_column loc\<rparr>) (a2l_line loc)))"
proof -
  have base: "dp_text_vaddr p = sd_text_vaddr D"
    using assms(1,2) by (auto simp: text_address_def load_debug_base elim!: debug_info_load_Inr dwarf_parser_new_Inr)
  have "unat (a * 8) = unat a * 8" using assms(4) by (simp add: unat_word_ariths)
  with assms(3,4) base show ?thesis
    by (simp add: dwarf_find_location_def checked_mul_def checked_add_def address_of_def map_conv_bind_option o_def)
qed

section \<open>Properties\<close>

text \<open>
  C13: a loaded model is well formed. Whatever the readers make of the bytes, whatever units
  the DWARF data holds and however their entries are nested or their attributes fail, a
  model that \<open>load\<close> returns stands on the address of the program's \<open>.text\<close> section, names no
  source file twice (by components), its rows are sorted, not empty and point to existing
  files, every function and block has code, and every declaration file and every type
  reference - of members, elements, targets, variables and return values - is an index that
  exists.
\<close>

theorem debug_info_well_formed:
  assumes "debug_info_load R I G F elf_data elf_path = Inr D"
  shows "wf_debug D
       \<and> (\<exists>obj text. parse_object R elf_data = Inr obj \<and> section_by_name obj ''.text'' = Some text
            \<and> sd_text_vaddr D = sec_address text)"
  using debug_info_load_wf [OF assms] assms by (auto elim!: debug_info_load_Inr simp: load_debug_base)

definition sample_elf :: elf_object where
  "sample_elf = \<lparr>is_little_endian = True,
     section_by_name = (\<lambda>name. if name = ''.text''
       then Some \<lparr>sec_address = 64, sec_data = Inr [], sec_uncompressed = Inr []\<rparr> else None)\<rparr>"

definition sample_elf_reader :: "(unit, nat, unit) debug_reader" where
  "sample_elf_reader = \<lparr>parse_object = (\<lambda>bs. Inr sample_elf), dwarf_load = (\<lambda>sections. Inr ()),
     context_from_dwarf = (\<lambda>d. Inl ''no ranges''), die_units = (\<lambda>d. []),
     debug_units = (\<lambda>d. (sample_units, None))\<rparr>"

lemma sample_elf_loaded:
  "\<exists>D. debug_info_load sample_elf_reader sample_isa sample_evaluator F elf_data elf_path = Inr D
     \<and> length (fns D) = 1 \<and> type_descs D = [BaseT ''x'' ATE_unsigned 0]
     \<and> function_at D (address_of sample_isa D 0) \<noteq> None"
  by (simp add: debug_info_load_def sample_elf_reader_def sample_elf_def load_eval sample_units_def sample_reader_def
      add_variable_def remap_function_def address_of_def function_at_def contains_def in_ranges_def range_contains_def)

theorem debug_info_well_formed_witness:
  "\<exists>D. debug_info_load sample_elf_reader sample_isa sample_evaluator sample_fs [] ''/o/x.so'' = Inr D
     \<and> length (fns D) = 1 \<and> wf_debug D"
  using sample_elf_loaded debug_info_well_formed by blast

end
