(* ===== verification/Cli.thy ===== *)
theory Cli
  imports Replay Source_Recording Executor Debug_Load
begin

text \<open>
  \<open>src/main.rs\<close>: the subcommands. The parsed arguments are records; the environment, the file
  system and the trace writer are the record \<open>cli_host\<close>, the tools the program links (VM, ELF
  and DWARF readers, expression evaluator, instruction decoder) the record \<open>tools\<close>. What is
  printed is left out.
\<close>

section \<open>Arguments and environment\<close>

datatype env_value = Unicode string | NotUnicode string

record cli_host =
  ch_fs :: host_fs
  ch_io :: tracer_io
  ch_canonicalize :: "string \<Rightarrow> string option"
  ch_env :: "string \<Rightarrow> env_value option"
  ch_http :: http

record ('x, 'v, 'e, 'm, 'n, 'd) tools =
  tl_ids :: ids
  tl_order :: "string list \<Rightarrow> string list"
  tl_vm :: "('x, 'v) vm"
  tl_isa :: isa
  tl_eval :: "('e, 'm) evaluator"
  tl_reader :: "('d, 'n, 'e) debug_reader"
  tl_fuel :: nat

record RecordArgs =
  ra_elf_file :: string
  ra_regs_file :: "string option"
  ra_elf_override :: "string option"
  ra_out_dir :: "string option"
  ra_idl :: "string option"

record ReplayArgs =
  pa_signature :: string
  pa_rpc_url :: string
  pa_program_dir :: "string option"
  pa_out_dir :: "string option"

datatype Commands = Record RecordArgs | Replay ReplayArgs | Version

datatype cli_effect = NoOutput | TraceWritten string trace | VersionPrinted

definition ENV_OUT_DIR :: string where "ENV_OUT_DIR = ''CODETRACER_SOLANA_RECORDER_OUT_DIR''"
definition ENV_DISABLED :: string where "ENV_DISABLED = ''CODETRACER_SOLANA_RECORDER_DISABLED''"
definition DEFAULT_OUT_DIR :: string where "DEFAULT_OUT_DIR = ''./ct-traces/''"

fun env_text :: "env_value \<Rightarrow> string" where
  "env_text (Unicode s) = s"
| "env_text (NotUnicode s) = s"

definition resolve_out_dir :: "cli_host \<Rightarrow> string option \<Rightarrow> string" where
  "resolve_out_dir H cli_out_dir =
     (case cli_out_dir of
        Some path \<Rightarrow> path
      | None \<Rightarrow>
          (case ch_env H ENV_OUT_DIR of
             Some v \<Rightarrow> if env_text v \<noteq> [] then env_text v else DEFAULT_OUT_DIR
           | None \<Rightarrow> DEFAULT_OUT_DIR))"

definition to_ascii_lowercase :: "char \<Rightarrow> char" where
  "to_ascii_lowercase c = (if is_ascii_uppercase c then char_of ((of_char c :: nat) + 32) else c)"

definition recording_disabled :: "cli_host \<Rightarrow> bool" where
  "recording_disabled H \<longleftrightarrow>
     (case ch_env H ENV_DISABLED of
        Some (Unicode s) \<Rightarrow> (let v = trim s in v = ''1'' \<or> map to_ascii_lowercase v = ''true'')
      | _ \<Rightarrow> False)"

section \<open>Commands\<close>

definition ELF_MAGIC :: bytes where "ELF_MAGIC = [0x7F, 0x45, 0x4C, 0x46]"

definition invalid_elf :: "string \<Rightarrow> string" where
  "invalid_elf p =
     ''invalid ELF file: '' @ p @ [CHR '' '', CHR 0xE2, CHR 0x80, CHR 0x94]
     @ '' file does not start with the ELF magic number ('' @ [backslash] @ ''x7fELF)''"

definition read_or :: "cli_host \<Rightarrow> string \<Rightarrow> string \<Rightarrow> (report, bytes) outcome" where
  "read_or H what p = or_report (fs_bytes (ch_fs H) p) (''failed to read '' @ what @ '' file: '' @ p)"

definition written :: "string \<Rightarrow> (string, trace) outcome \<Rightarrow> (report, cli_effect) outcome" where
  "written out_dir r = bind_outcome (as_report r) (\<lambda>t. Ok (TraceWritten out_dir t))"

text \<open>With \<open>--regs\<close>: the snapshots are read from a file.\<close>

definition record_regs ::
  "('x, 'v, 'e, 'm, 'n, 'd) tools \<Rightarrow> cli_host \<Rightarrow> string \<Rightarrow> string option \<Rightarrow> string \<Rightarrow> string
   \<Rightarrow> (report, cli_effect) outcome" where
  "record_regs T H regs_file elf_override elf_path out_dir =
     bind_outcome (or_report (ch_canonicalize H regs_file) (''regs file not found: '' @ regs_file)) (\<lambda>regs_path.
     bind_outcome
       (case elf_override of
          Some p \<Rightarrow> or_report (ch_canonicalize H p) (''ELF override not found: '' @ p)
        | None \<Rightarrow> Ok elf_path) (\<lambda>elf_for_dwarf.
     bind_outcome (read_or H ''regs'' regs_path) (\<lambda>regs_bytes.
     bind_outcome (read_or H ''ELF'' elf_for_dwarf) (\<lambda>elf_data.
     written out_dir
       (record_from_traces (tl_ids T) (ch_fs H) (ch_io H) (tl_order T) (dwarf_parser_new (tl_reader T)) regs_bytes elf_data elf_path out_dir)))))"

definition load_sections ::
  "('x, 'v, 'e, 'm, 'n, 'd) tools \<Rightarrow> cli_host \<Rightarrow> bytes \<Rightarrow> string \<Rightarrow> string + 'e SourceDebugInfo" where
  "load_sections T H elf_data elf_path =
     debug_info_load (tl_reader T) (tl_isa T) (tl_eval T) (fs.truncate (ch_fs H)) elf_data elf_path"

text \<open>The recording of an execution: at the source level when the debug information describes
  it, from the register trace otherwise.\<close>

definition record_exec ::
  "('x, 'v, 'e, 'm, 'n, 'd) tools \<Rightarrow> cli_host \<Rightarrow> ExecutionTrace \<Rightarrow> bytes \<Rightarrow> string \<Rightarrow> string \<Rightarrow> (string, trace) outcome" where
  "record_exec T H exec elf_data elf_path out_dir =
     (let fallback = record_from_traces (tl_ids T) (ch_fs H) (ch_io H) (tl_order T) (dwarf_parser_new (tl_reader T))
                       (regs exec) elf_data elf_path out_dir in
      case load_sections T H elf_data elf_path of
        Inr D \<Rightarrow>
          if describes_execution (tl_isa T) D exec then
            record_execution (tl_ids T) (tl_isa T) (tl_eval T) (ch_io H) (tl_fuel T) exec D elf_path out_dir
          else fallback
      | Inl e \<Rightarrow> fallback)"

definition record_elf ::
  "('x, 'v, 'e, 'm, 'n, 'd) tools \<Rightarrow> cli_host \<Rightarrow> string \<Rightarrow> string \<Rightarrow> (report, cli_effect) outcome" where
  "record_elf T H elf_path out_dir =
     bind_outcome (read_or H ''ELF'' elf_path) (\<lambda>elf_data.
     case execute_with_memory_trace (tl_vm T) elf_data 1000000 of
       Inl e \<Rightarrow> Err [''SBF VM execution failed'']
     | Inr exec \<Rightarrow> written out_dir (record_exec T H exec elf_data elf_path out_dir))"

definition record_command ::
  "('x, 'v, 'e, 'm, 'n, 'd) tools \<Rightarrow> cli_host \<Rightarrow> RecordArgs \<Rightarrow> (report, cli_effect) outcome" where
  "record_command T H args =
     bind_outcome (or_report (ch_canonicalize H (ra_elf_file args)) (''ELF file not found: '' @ ra_elf_file args)) (\<lambda>elf_path.
     bind_outcome (read_or H ''ELF'' elf_path) (\<lambda>header.
     if length header < 4 \<or> take 4 header \<noteq> ELF_MAGIC then Err [invalid_elf elf_path]
     else if recording_disabled H then Ok NoOutput
     else
       (let out_dir = resolve_out_dir H (ra_out_dir args) in
        case ra_regs_file args of
          Some regs_file \<Rightarrow> record_regs T H regs_file (ra_elf_override args) elf_path out_dir
        | None \<Rightarrow> record_elf T H elf_path out_dir)))"

definition replay_command ::
  "('x, 'v, 'e, 'm, 'n, 'd) tools \<Rightarrow> cli_host \<Rightarrow> ReplayArgs \<Rightarrow> (report, cli_effect) outcome" where
  "replay_command T H args =
     (if recording_disabled H then Ok NoOutput
      else
        (let out_dir = resolve_out_dir H (pa_out_dir args) in
         bind_outcome
           (replay_transaction (tl_ids T) (ch_fs H) (ch_io H) (tl_order T) (ch_http H) (pa_rpc_url args)
              (pa_signature args) out_dir (pa_program_dir args))
           (\<lambda>t. Ok (TraceWritten out_dir t))))"

fun run_command ::
  "('x, 'v, 'e, 'm, 'n, 'd) tools \<Rightarrow> cli_host \<Rightarrow> Commands \<Rightarrow> (report, cli_effect) outcome" where
  "run_command T H (Record args) = record_command T H args"
| "run_command T H (Replay args) = replay_command T H args"
| "run_command T H Version = Ok VersionPrinted"

section \<open>Complete traces\<close>

definition whole_trace :: "string \<Rightarrow> trace \<Rightarrow> bool" where
  "whole_trace out_dir t \<longleftrightarrow>
     (\<exists>es. t = BeginEvents (path_join out_dir ''trace.bin'') # es
              @ [FinishEvents, WriteMeta ''codetracer-solana-recorder'', Close])"

lemma columns_whole:
  assumes "record_from_snapshots_with_columns W F io ord snaps locs source out_dir = Ok t"
  shows "whole_trace out_dir t"
proof -
  have "list_all silent [BeginEvents (path_join out_dir ''trace.bin'')]" by (simp add: silent_def)
  then obtain es where "record_from_snapshots_into_writer W F ord snaps locs source [BeginEvents (path_join out_dir ''trace.bin'')]
      = [BeginEvents (path_join out_dir ''trace.bin'')] @ es"
    by (rule into_writer_extends)
  with recorded_columns [OF assms] show ?thesis by (simp add: whole_trace_def)
qed

lemma traces_whole: "record_from_traces W F io ord parser bs elf source out_dir = Ok t \<Longrightarrow> whole_trace out_dir t"
  by (cases "parser elf") (auto simp: record_from_traces_def result_simps Let_def intro: columns_whole)

lemma execution_whole:
  assumes "record_execution W I G io fuel exec D elf_path out_dir = Ok t"
  shows "whole_trace out_dir t \<and> balanced t"
  using recorded_whole [OF assms] by (auto simp: whole_trace_def trace_opening_def)

lemma written_Ok: "written out_dir r = Ok e \<longleftrightarrow> (\<exists>t. r = Ok t \<and> e = TraceWritten out_dir t)"
  by (auto simp: written_def result_simps)

lemma record_regs_Ok:
  assumes "record_regs T H regs_file elf_override elf_path out_dir = Ok e"
  obtains t where "e = TraceWritten out_dir t" "whole_trace out_dir t"
  using assms that by (auto simp: record_regs_def result_simps written_Ok intro: traces_whole)

lemma record_exec_whole: "record_exec T H exec elf_data elf_path out_dir = Ok t \<Longrightarrow> whole_trace out_dir t"
  by (auto simp: record_exec_def Let_def split: sum.splits if_splits intro: traces_whole conjunct1 [OF execution_whole])

lemma record_elf_Ok:
  assumes "record_elf T H elf_path out_dir = Ok e"
  obtains t where "e = TraceWritten out_dir t" "whole_trace out_dir t"
proof -
  from assms obtain elf_data where "(case execute_with_memory_trace (tl_vm T) elf_data 1000000 of
       Inl e \<Rightarrow> Err [''SBF VM execution failed'']
     | Inr exec \<Rightarrow> written out_dir (record_exec T H exec elf_data elf_path out_dir)) = Ok e"
    unfolding record_elf_def bind_outcome_Ok by blast
  then obtain exec where "written out_dir (record_exec T H exec elf_data elf_path out_dir) = Ok e"
    by (cases "execute_with_memory_trace (tl_vm T) elf_data 1000000") auto
  then obtain t where "record_exec T H exec elf_data elf_path out_dir = Ok t" "e = TraceWritten out_dir t"
    unfolding written_Ok by blast
  then show thesis using that record_exec_whole by blast
qed

fun command_out_dir :: "Commands \<Rightarrow> string option" where
  "command_out_dir (Record args) = ra_out_dir args"
| "command_out_dir (Replay args) = pa_out_dir args"
| "command_out_dir Version = None"

text \<open>
  C11: whatever a command writes is a complete trace in the directory the user asked for: the
  one of the command line, else the one of the environment, else the default; it begins in
  that directory's event file and ends with the metadata and the closing of the writer.
\<close>

theorem command_writes_whole:
  assumes "run_command T H cmd = Ok (TraceWritten d t)"
  shows "whole_trace d t
       \<and> d = (case (command_out_dir cmd, ch_env H ENV_OUT_DIR) of
                (Some path, _) \<Rightarrow> path
              | (None, Some v) \<Rightarrow> if env_text v \<noteq> [] then env_text v else ''./ct-traces/''
              | (None, None) \<Rightarrow> ''./ct-traces/'')"
proof -
  have "whole_trace d t \<and> d = resolve_out_dir H (command_out_dir cmd)"
  proof (cases cmd)
    case (Record args)
    with assms show ?thesis
      by (auto simp: record_command_def result_simps Let_def split: if_splits option.splits
          elim: record_regs_Ok record_elf_Ok)
  next
    case (Replay args)
    with assms have d: "d = resolve_out_dir H (pa_out_dir args)"
      and "replay_transaction (tl_ids T) (ch_fs H) (ch_io H) (tl_order T) (ch_http H) (pa_rpc_url args)
             (pa_signature args) d (pa_program_dir args) = Ok t"
      by (auto simp: replay_command_def result_simps Let_def split: if_splits)
    then obtain tx so where "record_from_snapshots (tl_ids T) (ch_fs H) (ch_io H) (tl_order T)
        (build_synthetic_trace tx) (build_synthetic_source_locations tx) so d = Ok t"
      by (auto simp: replay_transaction_def result_simps split: if_splits)
    then have "whole_trace d t" unfolding record_from_snapshots_def by (rule_tac columns_whole)
    with d Replay show ?thesis by simp
  next
    case Version
    with assms show ?thesis by simp
  qed
  then show ?thesis
    by (auto simp: resolve_out_dir_def DEFAULT_OUT_DIR_def split: option.splits)
qed

text \<open>
  C24: disabling the recorder disables it: with the variable set to \<open>1\<close> or to \<open>true\<close> in any case,
  blanks around it aside, no command writes a trace; \<open>record\<close> still checks its input, and
  succeeds exactly when the file can be read and starts as an ELF file does.
\<close>

theorem disabled_writes_nothing:
  assumes "ch_env H ENV_DISABLED = Some (Unicode v)" "map to_ascii_lowercase (trim v) \<in> {''1'', ''true''}"
  shows "run_command T H cmd \<in> {Ok NoOutput, Ok VersionPrinted} \<union> range Err
       \<and> (run_command T H (Record args) = Ok NoOutput \<longleftrightarrow>
            (\<exists>p header. ch_canonicalize H (ra_elf_file args) = Some p \<and> fs_bytes (ch_fs H) p = Some header
               \<and> 4 \<le> length header \<and> take 4 header = ELF_MAGIC))"
proof -
  have "trim v = ''1'' \<or> map to_ascii_lowercase (trim v) = ''true''"
  proof (cases "map to_ascii_lowercase (trim v) = ''true''")
    case False
    with assms(2) have "map to_ascii_lowercase (trim v) = ''1''" by auto
    then obtain c where c: "trim v = [c]" "to_ascii_lowercase c = CHR ''1''" by auto
    have "c = CHR ''1''"
    proof (rule ccontr)
      assume "c \<noteq> CHR ''1''"
      with c(2) have "is_ascii_uppercase c" "char_of ((of_char c :: nat) + 32) = CHR ''1''"
        by (auto simp: to_ascii_lowercase_def split: if_splits)
      then show False by (auto simp: is_ascii_uppercase_def char_of_eq_iff take_bit_eq_mod)
    qed
    with c(1) show ?thesis by simp
  qed simp
  then have off: "recording_disabled H" using assms(1) by (simp add: recording_disabled_def Let_def)
  have checked: "record_command T H a =
      (case ch_canonicalize H (ra_elf_file a) of
         None \<Rightarrow> Err [''ELF file not found: '' @ ra_elf_file a]
       | Some p \<Rightarrow> (case fs_bytes (ch_fs H) p of
           None \<Rightarrow> Err [''failed to read '' @ ''ELF'' @ '' file: '' @ p]
         | Some header \<Rightarrow> if length header < 4 \<or> take 4 header \<noteq> ELF_MAGIC then Err [invalid_elf p] else Ok NoOutput))" for a
    using off by (simp add: record_command_def read_or_def or_report_def split: option.splits)
  have "run_command T H cmd \<in> {Ok NoOutput, Ok VersionPrinted} \<union> range Err"
    by (cases cmd) (auto simp: checked replay_command_def off split: option.splits)
  moreover have "record_command T H args = Ok NoOutput \<longleftrightarrow>
      (\<exists>p header. ch_canonicalize H (ra_elf_file args) = Some p \<and> fs_bytes (ch_fs H) p = Some header
         \<and> 4 \<le> length header \<and> take 4 header = ELF_MAGIC)"
    by (auto simp: checked not_less split: option.splits)
  ultimately show ?thesis by simp
qed

section \<open>No panic\<close>

lemma columns_total: "record_from_snapshots_with_columns W F io ord snaps locs source out_dir \<noteq> Panic"
  by (auto simp: record_from_snapshots_with_columns_def begin_recording_def close_recording_def check_io_def result_simps
      split: option.splits)

lemma traces_total: "record_from_traces W F io ord parser bs elf source out_dir \<noteq> Panic"
  using columns_total parse_regs_file_cases [of bs]
  by (auto simp: record_from_traces_def Let_def split: sum.splits outcome.splits regs_error.splits)

lemma written_total: "r \<noteq> Panic \<Longrightarrow> written out_dir r \<noteq> Panic"
  by (auto simp: written_def result_simps)

lemma or_report_total [simp]: "or_report v msg \<noteq> Panic" "read_or H what p \<noteq> Panic"
  by (simp_all add: or_report_def read_or_def split: option.splits)

lemma recording_total:
  assumes "load_sections T H elf_data elf_path = Inr D" "ranked (type_descs D) R N"
    and "N \<le> 33" "fuel_needed N 0 N \<le> tl_fuel T"
    and "\<forall>e state fb. evaluate (tl_eval T) e state fb \<noteq> None"
    and "\<forall>code a insn. decode (tl_isa T) code a = Some insn \<longrightarrow> unat (dst insn) < 12 \<and> unat (src insn) < 12"
  shows "record_execution (tl_ids T) (tl_isa T) (tl_eval T) (ch_io H) (tl_fuel T) exec D elf_path out_dir \<noteq> Panic"
proof (rule record_execution_total)
  have "wf_debug D" using assms(1) unfolding load_sections_def by (rule debug_info_load_wf)
  with assms(2-6)
  show "recordable (new_recorder (tl_ids T) (tl_isa T) (tl_eval T) (ch_io H) D exec (tl_fuel T)) R N"
    by (simp add: recordable_def new_recorder_def)
qed


section \<open>From the program to its recording\<close>

lemma record_elf_parts:
  assumes "record_elf T H elf_path out_dir = Ok (TraceWritten d t)"
  obtains elf_data exec where "d = out_dir" "fs_bytes (ch_fs H) elf_path = Some elf_data"
    "execute_with_memory_trace (tl_vm T) elf_data 1000000 = Inr exec"
    "record_exec T H exec elf_data elf_path d = Ok t"
proof -
  from assms obtain elf_data where "fs_bytes (ch_fs H) elf_path = Some elf_data"
    and r: "(case execute_with_memory_trace (tl_vm T) elf_data 1000000 of
       Inl e \<Rightarrow> Err [''SBF VM execution failed'']
     | Inr exec \<Rightarrow> written out_dir (record_exec T H exec elf_data elf_path out_dir)) = Ok (TraceWritten d t)"
    unfolding record_elf_def bind_outcome_Ok read_or_def or_report_def by (auto split: option.splits)
  moreover from r obtain exec where "execute_with_memory_trace (tl_vm T) elf_data 1000000 = Inr exec"
    "written out_dir (record_exec T H exec elf_data elf_path out_dir) = Ok (TraceWritten d t)"
    by (cases "execute_with_memory_trace (tl_vm T) elf_data 1000000") auto
  ultimately show thesis using that by (auto simp: written_Ok)
qed

lemma record_program_parts:
  assumes "run_command T H (Record args) = Ok (TraceWritten d t)" "ra_regs_file args = None"
  obtains elf_path elf_data exec where
    "ch_canonicalize H (ra_elf_file args) = Some elf_path" "fs_bytes (ch_fs H) elf_path = Some elf_data"
    "take 4 elf_data = ELF_MAGIC" "execute_with_memory_trace (tl_vm T) elf_data 1000000 = Inr exec"
    "record_exec T H exec elf_data elf_path d = Ok t"
proof -
  from assms obtain elf_path elf_data where path: "ch_canonicalize H (ra_elf_file args) = Some elf_path"
    and data: "fs_bytes (ch_fs H) elf_path = Some elf_data" "take 4 elf_data = ELF_MAGIC"
    and r: "record_elf T H elf_path (resolve_out_dir H (ra_out_dir args)) = Ok (TraceWritten d t)"
    by (auto simp: record_command_def read_or_def or_report_def Let_def split: option.splits if_splits)
  from r data(1) show thesis by (elim record_elf_parts) (use path data that in auto)
qed

lemma record_exec_cases:
  assumes "record_exec T H exec elf_data elf_path d = Ok t"
  shows "case load_sections T H elf_data elf_path of
        Inr D \<Rightarrow>
          if describes_execution (tl_isa T) D exec then balanced t \<and> addressable (ch_io H) D t
          else record_from_traces (tl_ids T) (ch_fs H) (ch_io H) (tl_order T) (dwarf_parser_new (tl_reader T))
                 (regs exec) elf_data elf_path d = Ok t
      | Inl e \<Rightarrow> record_from_traces (tl_ids T) (ch_fs H) (ch_io H) (tl_order T) (dwarf_parser_new (tl_reader T))
                 (regs exec) elf_data elf_path d = Ok t"
  using assms
  by (auto simp: record_exec_def Let_def split: sum.splits if_splits
      dest: conjunct2 [OF execution_whole] recorded_addressable)


section \<open>A machine to run on\<close>

definition sample_machine :: "env_value option \<Rightarrow> cli_host" where
  "sample_machine disabled =
     \<lparr>ch_fs = deploy_host\<lparr>fs_bytes := (\<lambda>p. if p = ''/o/x.so'' then Some (ELF_MAGIC @ [0]) else None)\<rparr>,
      ch_io = sample_io, ch_canonicalize = (\<lambda>p. Some p),
      ch_env = (\<lambda>v. if v = ENV_DISABLED then disabled else None), ch_http = sample_endpoint\<rparr>"

definition sample_tools :: "(unit, unit, unit, unit, nat, unit) tools" where
  "sample_tools =
     \<lparr>tl_ids = plain_ids, tl_order = id, tl_vm = sample_vm, tl_isa = sample_isa, tl_eval = sample_evaluator,
      tl_reader = sample_elf_reader, tl_fuel = 15\<rparr>"

definition sample_args :: RecordArgs where
  "sample_args = \<lparr>ra_elf_file = ''/o/x.so'', ra_regs_file = None, ra_elf_override = None, ra_out_dir = None, ra_idl = None\<rparr>"

theorem disabled_writes_nothing_witness:
  "run_command sample_tools (sample_machine (Some (Unicode '' True ''))) (Record sample_args) = Ok NoOutput"
proof -
  have "ch_env (sample_machine (Some (Unicode '' True ''))) ENV_DISABLED = Some (Unicode '' True '')"
    by (simp add: sample_machine_def)
  moreover have "map to_ascii_lowercase (trim '' True '') \<in> {''1'', ''true''}" by code_simp
  ultimately show ?thesis
    using disabled_writes_nothing [of "sample_machine (Some (Unicode '' True ''))" "'' True ''" sample_tools Version sample_args]
    by (simp add: sample_machine_def sample_args_def ELF_MAGIC_def)
qed

lemma sample_replay_written:
  "\<exists>t. run_command sample_tools (sample_machine None)
     (Replay \<lparr>pa_signature = ''sig'', pa_rpc_url = ''url'', pa_program_dir = None, pa_out_dir = Some ''out''\<rparr>)
   = Ok (TraceWritten ''out'' t)"
proof -
  have "\<exists>t. record_from_snapshots plain_ids (ch_fs (sample_machine None)) sample_io id (build_synthetic_trace sample_tx)
      (build_synthetic_source_locations sample_tx) ''target/deploy/p.so'' ''out'' = Ok t"
    unfolding record_from_snapshots_def by (rule sample_recording)
  moreover have "extract_program_ids sample_tx = [''bbb'']" by code_simp
  moreover have "find_program_so (ch_fs (sample_machine None)) dir = find_program_so deploy_host dir" for dir
    by (simp add: find_program_so_def sample_machine_def)
  ultimately show ?thesis
    by (auto simp: replay_command_def recording_disabled_def resolve_out_dir_def sample_machine_def sample_tools_def
        replay_transaction_def sample_fetched deploy_so as_report_def)
qed

theorem command_writes_whole_witness:
  "\<exists>t. run_command sample_tools (sample_machine None)
     (Replay \<lparr>pa_signature = ''sig'', pa_rpc_url = ''url'', pa_program_dir = None, pa_out_dir = Some ''out''\<rparr>)
   = Ok (TraceWritten ''out'' t) \<and> whole_trace ''out'' t"
  using sample_replay_written command_writes_whole by blast

lemma sample_insn_registers: "decode sample_isa code a = Some insn \<Longrightarrow> unat (dst insn) < 12 \<and> unat (src insn) < 12"
  by (auto simp: decode_def sample_isa_def sample_insn_def Let_def split: option.splits if_splits)

lemma sample_sections:
  "\<exists>D. load_sections sample_tools H elf p = Inr D \<and> length (fns D) = 1 \<and> type_descs D = [BaseT ''x'' ATE_unsigned 0]"
  using sample_elf_loaded [of "fs.truncate (ch_fs H)" elf p] by (auto simp: load_sections_def sample_tools_def)


definition covered_tools :: "(unit, unit, unit, unit, nat, unit) tools" where
  "covered_tools = sample_tools\<lparr>tl_vm := sample_vm\<lparr>execute := (\<lambda>x r1 ctx. ([replicate 12 0], ctx))\<rparr>\<rparr>"

lemma covered_sections:
  "\<exists>D. load_sections covered_tools H elf p = Inr D \<and> type_descs D = [BaseT ''x'' ATE_unsigned 0]
     \<and> function_at D (address_of (tl_isa covered_tools) D 0) \<noteq> None"
  using sample_elf_loaded [of "fs.truncate (ch_fs H)" elf p]
  by (auto simp: load_sections_def covered_tools_def sample_tools_def)

lemma covered_exec:
  "\<exists>exec. execute_with_memory_trace (tl_vm covered_tools) elf 1000000 = Inr exec
     \<and> regs exec = regs_data [replicate 12 0]"
  by (simp add: execute_with_memory_trace_def sum_bind_def register_def registrations_def
      covered_tools_def sample_vm_def Let_def)

lemma covered_written:
  "\<exists>t. run_command covered_tools (sample_machine None) (Record sample_args) = Ok (TraceWritten ''./ct-traces/'' t)"
proof -
  let ?T = covered_tools and ?H = "sample_machine None" and ?elf = "ELF_MAGIC @ [0]" and ?p = "''/o/x.so''"
  obtain exec where exec: "execute_with_memory_trace (tl_vm ?T) ?elf 1000000 = Inr exec"
    "regs exec = regs_data [replicate 12 0]" using covered_exec by blast
  obtain D where D: "load_sections ?T ?H ?elf ?p = Inr D" "type_descs D = [BaseT ''x'' ATE_unsigned 0]"
    "function_at D (address_of (tl_isa ?T) D 0) \<noteq> None" using covered_sections by blast
  have snaps: "parse_regs_file (regs exec) = Ok [\<lparr>registers = replicate 12 0\<rparr>]"
    using parse_regs_data [of "[replicate 12 0]"] by (simp add: exec(2))
  have "ranked (type_descs D) (\<lambda>t. 0) 1"
    by (auto simp: D(2) ranked_def nth_opt_def value_refs_def split: if_splits)
  then have "record_execution (tl_ids ?T) (tl_isa ?T) (tl_eval ?T) (ch_io ?H) (tl_fuel ?T) exec D ?p ''./ct-traces/'' \<noteq> Panic"
    using sample_insn_registers
    by (intro recording_total [OF D(1), where R = "\<lambda>t. 0" and N = 1])
      (auto simp: covered_tools_def sample_tools_def fuel_needed_def MAX_VALUE_DEPTH_def sample_evaluates)
  then obtain t where "record_execution (tl_ids ?T) (tl_isa ?T) (tl_eval ?T) (ch_io ?H) (tl_fuel ?T) exec D ?p ''./ct-traces/'' = Ok t"
    using record_execution_succeeds [of "tl_ids ?T" "tl_isa ?T" "tl_eval ?T" "ch_io ?H" "tl_fuel ?T" exec D ?p "''./ct-traces/''"]
    by (auto simp: parse_snapshots_def snaps sample_machine_def sample_io_def)
  moreover have "describes_execution (tl_isa ?T) D exec"
    using D(3) by (simp add: describes_execution_def snaps sample_pc)
  ultimately have "record_exec ?T ?H exec ?elf ?p ''./ct-traces/'' = Ok t"
    by (simp add: record_exec_def D(1))
  with exec(1) show ?thesis
    by (simp add: record_command_def record_elf_def read_or_def or_report_def sample_machine_def sample_args_def
        recording_disabled_def resolve_out_dir_def DEFAULT_OUT_DIR_def written_def as_report_def ELF_MAGIC_def)
qed


end
