(* ===== verification/Spec2Isabelle.thy ===== *)
theory Spec2Isabelle
  imports Cpi Multi_Program Executor Account_Decoder Tracer Line_Table Source_Recording Cpi_Recording Cli
begin

text \<open>
  A verification development for \<open>codetracer-solana-recorder\<close>, which executes or replays
  Solana programs (sBPF) and writes CodeTracer recordings of them.

  \<^bold>\<open>The program.\<close> The command line (\<open>src/main.rs\<close>) records an ELF program or replays a
  transaction. To record, the program is run in the sBPF virtual machine with its syscalls
  stubbed (\<open>src/executor.rs\<close>, \<open>src/syscalls.rs\<close>); the run leaves a register trace, a log of
  syscalls and a journal of the guest memory they wrote. The register trace
  (\<open>src/register_trace.rs\<close>, a file of 96-byte rows) is the input of every recorder. The
  source-level recorder (\<open>src/source_recorder.rs\<close>) walks it with a model of the program's DWARF
  (\<open>src/source_debug.rs\<close>) and a shadow of the guest memory (\<open>src/sbf_memory.rs\<close>), and emits
  calls, returns, steps and typed variables. Where that model does not cover the run, the
  snapshot recorder (\<open>src/recorder.rs\<close>) maps program counters to lines (\<open>src/dwarf.rs\<close>), reads
  the source text, and derives calls from jumps and typed values from the lines themselves; its
  variant for several programs (\<open>src/multi_program.rs\<close>) follows cross-program invocations
  (\<open>src/cpi.rs\<close>). To replay, a transaction is fetched over JSON-RPC (\<open>src/rpc_client.rs\<close>), turned
  into one snapshot per instruction and given to the snapshot recorder (\<open>src/replay.rs\<close>).
  Account data is decoded by \<open>src/account_decoder.rs\<close>; \<open>src/tracer_trait.rs\<close> offers the same
  recordings as callbacks of a running machine.

  \<^bold>\<open>Conventions.\<close> A machine integer is a word of its width, a byte slice a list of
  \<open>u8\<close> words, a Rust string the list of the bytes of its UTF-8 text as characters, a struct a
  record and an enum a datatype with the same constructors. A fallible operation returns an
  \<open>outcome\<close> (\<open>Ok\<close>, \<open>Err\<close>, \<open>Panic\<close>), or \<open>None\<close> where a panic is the only failure, or a sum where
  it has no panic. Additions that the code leaves unchecked take a flag for the profile (panic
  with overflow checks, wrap without) in \<open>Cpi\<close> and \<open>Dwarf\<close>; from \<open>Source_Debug\<close> on they wrap, as
  in the release profile. What lies outside \<open>src/\<close> is a parameter: the opcode numbers and the
  instruction decoder of the virtual machine (\<open>isa\<close>), its runs (\<open>vm\<close>), the memory mapping, the
  ELF and DWARF readers (\<open>elf_reader\<close>, \<open>debug_reader\<close>, \<open>unit_reader\<close>), the expression evaluator
  (\<open>evaluator\<close>), the identifiers the trace writer hands out (\<open>ids\<close>), the file system (\<open>host_fs\<close>,
  \<open>fs\<close>, \<open>tracer_io\<close>), the HTTP exchange and the base64 decoder (\<open>http\<close>), the order in which a
  hash set is iterated. A trace is the list of the calls the writer received.

  \<^bold>\<open>Theories.\<close>
  \<^item> \<open>Rust_Prelude\<close>, \<open>Rust_Paths\<close>, \<open>Rust_Text\<close>: the parts of the Rust standard library the code
    uses (slices, checked and saturating arithmetic, little-endian bytes, formatting, paths on
    Unix, trimming and searching of strings), and two interfaces that several components share:
    \<open>first_match_table\<close> (a table answered by its first entry that covers the question) and
    \<open>memo_table\<close> (an identifier that is asked for once and remembered).
  \<^item> \<open>Register_Trace\<close> (\<open>register_trace.rs\<close>): the snapshot, the parser of \<open>.regs\<close> files and the
    serialisation the executor does; parsing inverts writing and is total.
  \<^item> \<open>Cpi\<close> (\<open>cpi.rs\<close>): the detector's context stack; every snapshot refines an abstract call
    stack, the stack never empties, its depth is bounded by calls minus returns.
  \<^item> \<open>Dwarf\<close>, \<open>Elf_Loading\<close>, \<open>Multi_Program\<close> (\<open>dwarf.rs\<close>, \<open>multi_program.rs\<close>): line lookup,
    function boundaries, the way from the bytes of an ELF file to a parser, and the registry,
    whose queries are all answered by the first program registered successfully.
  \<^item> \<open>Sbf_Memory\<close> (\<open>sbf_memory.rs\<close>): the shadow memory, behind the locale \<open>byte_memory\<close> where
    clients reason about reads after writes; store decoding and replay.
  \<^item> \<open>Syscalls\<close>, \<open>Executor\<close> (\<open>syscalls.rs\<close>, \<open>executor.rs\<close>): the handlers, their log and
    journal; replaying the journals gives the guest's memory; allocator blocks are disjoint; the
    bytes an execution returns are the rows of the machine.
  \<^item> \<open>Account_Decoder\<close> (\<open>account_decoder.rs\<close>): IDL types, Borsh, base58 and account values;
    round trips against reference encoders, exactness of what is accepted.
  \<^item> \<open>Trace_Writer\<close>, \<open>Source_Files\<close>, \<open>Tracer\<close> (\<open>tracer_trait.rs\<close> and the line-length table of
    \<open>recorder.rs\<close>): the writer as a log of calls, the three tracers and the replay driver, behind
    the locale \<open>driven_tracer\<close>.
  \<^item> \<open>Source_Debug\<close>, \<open>Path_Resolver\<close>, \<open>Debug_Builder\<close>, \<open>Debug_Model\<close>, \<open>Debug_Load\<close>, \<open>Line_Table\<close>
    (\<open>source_debug.rs\<close>): the debug model, its queries and frame sizes; the resolver of source
    paths; the construction of the model from the entries of the units, and from the bytes of
    the file; the invariant \<open>wf_debug\<close> of a loaded model; the agreement of its addresses with
    those of \<open>DwarfParser\<close>; the equivalence of position lookup with a direct reading of the
    line-number program.
  \<^item> \<open>Source_Values\<close>, \<open>Source_Recorder\<close>, \<open>Source_Recording\<close> (\<open>source_recorder.rs\<close>): decoding
    values by their DWARF types, the recorder itself, and its correctness: calls and returns
    follow an abstract call stack and are balanced, steps are addressable, and on a loaded
    model it always returns.
  \<^item> \<open>Source_Paths\<close> (\<open>recorder.rs\<close>): which files are the user's, the one path each is recorded
    under, and \<open>SourcePaths\<close>, which registers every path once with its line table.
  \<^item> \<open>Source_Text\<close>, \<open>Source_Literals\<close>, \<open>Step_Synthesis\<close> (\<open>recorder.rs\<close>): \<open>SourceModel\<close> with its
    function ranges, the scanners of lines, calls of macros and format strings; the recognisers
    of literals; and what a visited line adds to the trace - events, typed variables, the value
    of a return. Function ranges do not overlap; a format string is filled with its arguments.
  \<^item> \<open>Snapshot_Recorder\<close>, \<open>Cpi_Recorder\<close> (\<open>recorder.rs\<close>): \<open>record_from_snapshots_into_writer\<close>
    and \<open>record_with_cpi\<close> with their entry points. \<open>Recorder_Facts\<close>, \<open>Recorder_Properties\<close> and
    \<open>Cpi_Recording\<close> show that both only extend the trace, register a path before they name it,
    step on every user line, and how far their calls and returns match.
  \<^item> \<open>Rpc\<close>, \<open>Replay\<close> (\<open>rpc_client.rs\<close>, \<open>replay.rs\<close>): requests, responses as JSON values and their
    parsing; the synthetic snapshots of a transaction and their recording.
  \<^item> \<open>Cli\<close> (\<open>main.rs\<close>): the environment and the subcommands, each composed of the theories above;
    what they write, that \<open>record\<close> never panics, and what a recording of a program is, from the
    bytes of its file on.

  \<^bold>\<open>Bounds and fuel.\<close> Recursion over DWARF types is unbounded in the code and a type may contain
  itself through an alias. \<open>dwarf_type\<close> and \<open>decode_value\<close> take fuel, \<open>kind_of\<close> is a partial
  function. \<open>fuel_needed N 0 (R ty)\<close> units suffice for a type graph ranked by \<open>R\<close> below \<open>N\<close>
  (\<open>decode_value_returns\<close>): the code's own limits of depth 6 and of 64 array elements bound the
  recursion through pointers and arrays, the rank that through aliases and members; \<open>N \<le> 33\<close>
  is the depth to which \<open>type_size\<close> follows aliases, past which the code can panic. The
  evaluation loop of a DWARF expression is a partial function, whose return the properties
  state as a hypothesis where they need it. The scanners of source text and the decoder of
  nested literals are total functions with a measure on the text that is left.

  \<^bold>\<open>Not modelled.\<close> The virtual machine, the \<open>object\<close>, \<open>gimli\<close> and \<open>addr2line\<close> readers, the trace
  writer, the HTTP client, the deserialisation of JSON and the base64 decoder are other packages
  and enter as parameters. \<open>clap\<close> parses the arguments into the records of \<open>Cli\<close>. Everything that is
  only printed is left out: progress messages and warnings, the version text, and the accounts
  that \<open>replay\<close> fetches for display alone. The conversions of the trace writer's own
  output are not part of the repository. \<open>src/lib.rs\<close> only lists modules, and unit tests and their
  helpers (\<open>new_for_tests\<close>) are not program code.
\<close>

end
